(* ===== verification/Prelude.thy ===== *)
theory Prelude
  imports Main "HOL-Library.Word" "HOL-Library.Signed_Division" "HOL-Library.Product_Lexorder"
begin

text \<open>
  The vocabulary the components share: results that may be an exception, the C++ integers
  and strings the program uses, and the generic lemmas about them.

  \<^item> \<open>exn\<close> is a C++ exception derived from \<open>std::exception\<close>, with the text of \<open>what()\<close>
    (the texts of the standard library are those of libstdc++). \<open>fault\<close> is what can stop a
    computation of the event loop: an exception, or a signed overflow, which is undefined
    behaviour and not an exception.
  \<^item> A fallible operation returns \<open>Inl\<close> of the failure or \<open>Inr\<close> of the value;
    \<open>bind_result\<close> sequences two of them, \<open>fold_result\<close> is a range-for loop whose body may fail.
  \<^item> \<open>returns r P\<close> says that \<open>r\<close> is a value and satisfies \<open>P\<close> (total correctness),
    \<open>ensures r P\<close> that it satisfies \<open>P\<close> if it is a value.
  \<^item> A C++ \<open>int\<close> is an \<open>int\<close> inside \<open>INT_MIN .. INT_MAX\<close>; its arithmetic is checked.
\<close>

named_theorems i32_simps \<open>the checked arithmetic of a C++ int, unfolded\<close>
named_theorems post_intros \<open>introduction rules for ensures and returns\<close>

section \<open>Results\<close>

datatype exn =
    Runtime_Error string
  | Invalid_Argument string
  | Out_Of_Range string

primrec what :: "exn \<Rightarrow> string" where
  "what (Runtime_Error m) = m"
| "what (Invalid_Argument m) = m"
| "what (Out_Of_Range m) = m"

datatype fault = Exn exn | Signed_Overflow

fun bind_result :: "'e + 'a \<Rightarrow> ('a \<Rightarrow> 'e + 'b) \<Rightarrow> 'e + 'b" where
  "bind_result (Inl e) f = Inl e"
| "bind_result (Inr x) f = f x"

fun lift_exn :: "exn + 'a \<Rightarrow> fault + 'a" where
  "lift_exn (Inl e) = Inl (Exn e)"
| "lift_exn (Inr x) = Inr x"

fun fold_result :: "('a \<Rightarrow> 's \<Rightarrow> 'e + 's) \<Rightarrow> 'a list \<Rightarrow> 's \<Rightarrow> 'e + 's" where
  "fold_result f [] s = Inr s"
| "fold_result f (x # xs) s = bind_result (f x s) (fold_result f xs)"

definition ensures :: "'e + 'a \<Rightarrow> ('a \<Rightarrow> bool) \<Rightarrow> bool" where
  "ensures r P \<longleftrightarrow> (case r of Inl _ \<Rightarrow> True | Inr x \<Rightarrow> P x)"

definition returns :: "'e + 'a \<Rightarrow> ('a \<Rightarrow> bool) \<Rightarrow> bool" where
  "returns r P \<longleftrightarrow> (case r of Inl _ \<Rightarrow> False | Inr x \<Rightarrow> P x)"

lemma bind_result_cong [fundef_cong]:
  assumes "r = r'" and "\<And>x. r' = Inr x \<Longrightarrow> f x = g x"
  shows "bind_result r f = bind_result r' g"
  using assms by (cases r') auto

lemma bind_result_Inr_iff:
  "bind_result r f = Inr y \<longleftrightarrow> (\<exists>x. r = Inr x \<and> f x = Inr y)"
  by (cases r) auto

lemma bind_result_assoc:
  "bind_result (bind_result r f) g = bind_result r (\<lambda>x. bind_result (f x) g)"
  by (cases r) auto

lemma ensures_Inl [simp]: "ensures (Inl e) P"
  by (simp add: ensures_def)

lemma ensures_Inr [simp]: "ensures (Inr x) P = P x"
  by (simp add: ensures_def)

lemma ensures_iff: "ensures r P \<longleftrightarrow> (\<forall>x. r = Inr x \<longrightarrow> P x)"
  by (cases r) auto

lemma ensuresD: "ensures r P \<Longrightarrow> r = Inr x \<Longrightarrow> P x"
  by (simp add: ensures_iff)

lemma ensures_bind [post_intros]:
  "ensures r (\<lambda>x. ensures (f x) P) \<Longrightarrow> ensures (bind_result r f) P"
  by (cases r) auto

lemma ensures_mono: "ensures r P \<Longrightarrow> (\<And>x. P x \<Longrightarrow> Q x) \<Longrightarrow> ensures r Q"
  by (cases r) auto

lemma ensures_conj: "ensures r P \<Longrightarrow> ensures r Q \<Longrightarrow> ensures r (\<lambda>x. P x \<and> Q x)"
  by (cases r) auto

lemma ensures_lift_exn [simp]: "ensures (lift_exn r) P = ensures r P"
  by (cases r) auto

lemma returns_Inl [simp]: "\<not> returns (Inl e) P"
  by (simp add: returns_def)

lemma returns_Inr [simp]: "returns (Inr x) P = P x"
  by (simp add: returns_def)

lemma returns_iff: "returns r P \<longleftrightarrow> (\<exists>x. r = Inr x \<and> P x)"
  by (cases r) auto

lemma returns_bind:
  "returns r P \<Longrightarrow> (\<And>x. P x \<Longrightarrow> returns (f x) Q) \<Longrightarrow> returns (bind_result r f) Q"
  by (cases r) auto

lemma returns_mono: "returns r P \<Longrightarrow> (\<And>x. P x \<Longrightarrow> Q x) \<Longrightarrow> returns r Q"
  by (cases r) auto

lemma ensures_fold_result:
  assumes "\<And>x s. x \<in> set xs \<Longrightarrow> I s \<Longrightarrow> ensures (f x s) I" and "I s"
  shows "ensures (fold_result f xs s) I"
  using assms
proof (induction xs arbitrary: s)
  case Nil
  then show ?case by simp
next
  case (Cons x xs)
  then have "ensures (f x s) I" by simp
  moreover have "ensures (fold_result f xs s') I" if "I s'" for s'
    using that Cons.prems(1) by (intro Cons.IH) auto
  ultimately show ?case by (auto intro!: ensures_bind elim: ensures_mono)
qed

lemma fold_result_append:
  "fold_result f (xs @ ys) s = bind_result (fold_result f xs s) (fold_result f ys)"
proof (induction xs arbitrary: s)
  case (Cons x xs)
  then show ?case by (cases "f x s") auto
qed simp

section \<open>C++ int: 32 bits, overflow undefined\<close>

definition INT_MIN :: int where "INT_MIN = -2147483648"
definition INT_MAX :: int where "INT_MAX = 2147483647"

definition in_i32 :: "int \<Rightarrow> bool" where
  "in_i32 i \<longleftrightarrow> INT_MIN \<le> i \<and> i \<le> INT_MAX"

definition to_i32 :: "int \<Rightarrow> fault + int" where
  "to_i32 i = (if in_i32 i then Inr i else Inl Signed_Overflow)"

definition add_i32 :: "int \<Rightarrow> int \<Rightarrow> fault + int" where
  "add_i32 a b = to_i32 (a + b)"

definition sub_i32 :: "int \<Rightarrow> int \<Rightarrow> fault + int" where
  "sub_i32 a b = to_i32 (a - b)"

definition neg_i32 :: "int \<Rightarrow> fault + int" where
  "neg_i32 a = to_i32 (- a)"

text \<open>The quotient of C++ truncates towards zero, which is \<open>sdiv\<close> of the library.\<close>

definition div_i32 :: "int \<Rightarrow> int \<Rightarrow> fault + int" where
  "div_i32 a b = to_i32 (a sdiv b)"

lemmas [i32_simps] = add_i32_def sub_i32_def neg_i32_def div_i32_def to_i32_def in_i32_def
  INT_MIN_def INT_MAX_def

lemma sdiv_nonneg: "0 \<le> (a::int) \<Longrightarrow> 0 < b \<Longrightarrow> a sdiv b = a div b"
  by (simp add: signed_divide_int_def sgn_if)

section \<open>C++ strings: bytes, decimal numerals, the conversions\<close>

abbreviation char_code :: "char \<Rightarrow> nat" where
  "char_code c \<equiv> of_char c"

text \<open>The classification of bytes in the C locale, which the program never changes.\<close>

definition is_digit :: "char \<Rightarrow> bool" where
  "is_digit c \<longleftrightarrow> 48 \<le> char_code c \<and> char_code c \<le> 57"

definition is_space :: "char \<Rightarrow> bool" where
  "is_space c \<longleftrightarrow> char_code c = 32 \<or> (9 \<le> char_code c \<and> char_code c \<le> 13)"

definition to_upper :: "char \<Rightarrow> char" where
  "to_upper c = (if 97 \<le> char_code c \<and> char_code c \<le> 122 then char_of (char_code c - 32) else c)"

definition digit_char :: "nat \<Rightarrow> char" where
  "digit_char d = char_of (48 + d)"

definition digit_val :: "char \<Rightarrow> nat" where
  "digit_val c = char_code c - 48"

fun dec_nat :: "nat \<Rightarrow> string" where
  "dec_nat n = (if n < 10 then [digit_char n] else dec_nat (n div 10) @ [digit_char (n mod 10)])"

declare dec_nat.simps [simp del]

definition nat_val :: "string \<Rightarrow> nat" where
  "nat_val ds = foldl (\<lambda>a c. 10 * a + digit_val c) 0 ds"

text \<open>\<open>std::to_string\<close> of an \<open>int\<close> and of the unsigned types.\<close>

definition to_string_int :: "int \<Rightarrow> string" where
  "to_string_int i = (if i < 0 then ''-'' @ dec_nat (nat (- i)) else dec_nat (nat i))"

definition to_string_word :: "'w::len word \<Rightarrow> string" where
  "to_string_word w = dec_nat (unat w)"

text \<open>
  \<open>strtol\<close> and its relatives read leading white space, an optional sign and the longest run
  of digits; \<open>numeral_prefix\<close> gives the sign and the digits.
\<close>

definition numeral_prefix :: "string \<Rightarrow> bool \<times> string" where
  "numeral_prefix str = (case dropWhile is_space str of
       [] \<Rightarrow> (False, [])
     | c # cs \<Rightarrow> if c = CHR ''-'' then (True, takeWhile is_digit cs)
                else if c = CHR ''+'' then (False, takeWhile is_digit cs)
                else (False, takeWhile is_digit (c # cs)))"

definition stoi :: "string \<Rightarrow> exn + int" where
  "stoi str = (case numeral_prefix str of (negative, ds) \<Rightarrow>
     if ds = [] then Inl (Invalid_Argument ''stoi'')
     else (let v = (if negative then - int (nat_val ds) else int (nat_val ds))
           in if in_i32 v then Inr v else Inl (Out_Of_Range ''stoi'')))"

text \<open>
  \<open>std::stoul\<close> and \<open>std::stoull\<close> are the same conversion on this platform, where
  \<open>unsigned long\<close> has 64 bits; only the name in the exception differs.
\<close>

definition stou :: "string \<Rightarrow> string \<Rightarrow> exn + 64 word" where
  "stou name str = (case numeral_prefix str of (negative, ds) \<Rightarrow>
     if ds = [] then Inl (Invalid_Argument name)
     else if nat_val ds < 2 ^ 64
       then Inr (if negative then - of_nat (nat_val ds) else of_nat (nat_val ds))
     else Inl (Out_Of_Range name))"

abbreviation stoul :: "string \<Rightarrow> exn + 64 word" where "stoul \<equiv> stou ''stoul''"
abbreviation stoull :: "string \<Rightarrow> exn + 64 word" where "stoull \<equiv> stou ''stoull''"

text \<open>\<open>std::vector::at\<close>, with the exception of libstdc++ out of range.\<close>

definition vector_at :: "'a list \<Rightarrow> nat \<Rightarrow> exn + 'a" where
  "vector_at xs i = (if i < length xs then Inr (xs ! i)
     else Inl (Out_Of_Range (''vector::_M_range_check: __n (which is '' @ dec_nat i @
                '') >= this->size() (which is '' @ dec_nat (length xs) @ '')'')))"

lemma vector_at_in [simp]: "i < length xs \<Longrightarrow> vector_at xs i = Inr (xs ! i)"
  by (simp add: vector_at_def)

section \<open>Numerals print and read back\<close>

lemma char_code_digit_char: "d < 10 \<Longrightarrow> char_code (digit_char d) = 48 + d"
  by (simp add: digit_char_def)

lemma digit_char_digit [simp]: "d < 10 \<Longrightarrow> is_digit (digit_char d)"
  by (simp add: is_digit_def char_code_digit_char)

lemma digit_val_digit_char [simp]: "d < 10 \<Longrightarrow> digit_val (digit_char d) = d"
  by (simp add: digit_val_def char_code_digit_char)

lemma digit_char_values [simp]:
  "digit_char 0 = CHR ''0''" "digit_char (Suc 0) = CHR ''1''" "digit_char 1 = CHR ''1''"
  "digit_char 2 = CHR ''2''" "digit_char 3 = CHR ''3''" "digit_char 4 = CHR ''4''"
  "digit_char 5 = CHR ''5''" "digit_char 6 = CHR ''6''" "digit_char 7 = CHR ''7''"
  "digit_char 8 = CHR ''8''" "digit_char 9 = CHR ''9''"
  by code_simp+

lemma nat_val_append: "nat_val (xs @ [c]) = 10 * nat_val xs + digit_val c"
  by (simp add: nat_val_def)

lemma dec_nat_digits: "\<forall>c \<in> set (dec_nat n). is_digit c"
proof (induction n rule: dec_nat.induct)
  case (1 n)
  then show ?case by (cases "n < 10") (auto simp: dec_nat.simps [of n])
qed

lemma dec_nat_nonempty [simp]: "dec_nat n \<noteq> []"
  by (simp add: dec_nat.simps [of n])

lemma nat_val_dec_nat [simp]: "nat_val (dec_nat n) = n"
proof (induction n rule: dec_nat.induct)
  case (1 n)
  show ?case
  proof (cases "n < 10")
    case True
    then show ?thesis by (simp add: dec_nat.simps [of n] nat_val_def)
  next
    case False
    with 1 show ?thesis by (simp add: dec_nat.simps [of n] nat_val_append)
  qed
qed

lemma digit_not_space: "is_digit c \<Longrightarrow> \<not> is_space c"
  by (auto simp: is_digit_def is_space_def)

lemma digit_not_sign: "is_digit c \<Longrightarrow> c \<noteq> CHR ''-'' \<and> c \<noteq> CHR ''+''"
  by (auto simp: is_digit_def)

lemma takeWhile_digits: "\<forall>c \<in> set ds. is_digit c \<Longrightarrow> takeWhile is_digit ds = ds"
  by simp

lemma numeral_prefix_digits:
  assumes "ds \<noteq> []" and "\<forall>c \<in> set ds. is_digit c"
  shows "numeral_prefix ds = (False, ds)"
proof -
  obtain c cs where ds: "ds = c # cs" using assms(1) by (cases ds) auto
  with assms(2) have "is_digit c" by simp
  then have "dropWhile is_space ds = ds" by (simp add: ds digit_not_space)
  with assms(2) \<open>is_digit c\<close> digit_not_sign [of c] show ?thesis
    by (simp add: numeral_prefix_def ds)
qed

lemma numeral_prefix_minus:
  assumes "\<forall>c \<in> set ds. is_digit c"
  shows "numeral_prefix (CHR ''-'' # ds) = (True, ds)"
  using assms by (simp add: numeral_prefix_def is_space_def)

lemma stoi_to_string_int [simp]: "in_i32 i \<Longrightarrow> stoi (to_string_int i) = Inr i"
  using dec_nat_digits [of "nat i"] dec_nat_digits [of "nat (- i)"]
  by (simp add: stoi_def to_string_int_def numeral_prefix_digits numeral_prefix_minus)

lemma stoi_range: "stoi str = Inr i \<Longrightarrow> in_i32 i"
  by (auto simp: stoi_def Let_def split: prod.splits if_splits)

lemma stou_to_string_word [simp]: "stou name (to_string_word (w :: 64 word)) = Inr w"
  using dec_nat_digits [of "unat w"] unsigned_less [of w]
  by (simp add: stou_def to_string_word_def numeral_prefix_digits)

lemma dec_nat_inj: "dec_nat m = dec_nat n \<Longrightarrow> m = n"
  by (metis nat_val_dec_nat)

end
