(* ===== verification/World.thy ===== *)
theory World
  imports Prelude
begin

text \<open>
  The game world (include/portfolio/world.h, src/world.cpp): players in a grid of square
  sectors, and the events each action fans out to the sessions in sight.

  The two \<open>std::unordered_map\<close>s of \<open>SectorWorld\<close> are maps. The order in which an
  \<open>std::unordered_set\<close> is iterated is not specified, so it is a parameter (\<open>iter_order\<close>), one
  choice for each loop of the source; \<open>valid_order\<close> is all that a container promises. The
  coordinates are C++ ints, so the sector arithmetic can overflow: every operation returns a
  fault or the new world with its events.

  \<open>world_inv\<close> ties the sector index to the players. Under it \<open>watchers_around\<close> is the set of
  players within the view radius, and each operation is described by the lines every single
  session receives (\<open>inbox\<close>).
\<close>

section \<open>Data\<close>

record session_ref =
  sr_fd :: int
  sr_generation :: "64 word"

record sector_coord =
  sc_x :: int
  sc_y :: int

record world_event =
  receiver :: session_ref
  event_line :: string

record player_snapshot =
  snap_account :: string
  snap_character :: string
  snap_x :: int
  snap_y :: int

record player_state =
  ps_ref :: session_ref
  ps_account :: string
  ps_character :: string
  ps_x :: int
  ps_y :: int
  ps_sector :: sector_coord

type_synonym sector_map = "sector_coord \<rightharpoonup> session_ref set"

record sector_world =
  sector_size :: int
  view_radius :: int
  players :: "session_ref \<rightharpoonup> player_state"
  sectors :: sector_map

definition no_snapshot :: player_snapshot where
  "no_snapshot = \<lparr>snap_account = '''', snap_character = '''', snap_x = 0, snap_y = 0\<rparr>"

text \<open>References are ordered by descriptor and generation, for a concrete iteration order.\<close>

instantiation session_ref_ext :: (linorder) linorder
begin

definition less_eq_session_ref_ext :: "'a session_ref_scheme \<Rightarrow> 'a session_ref_scheme \<Rightarrow> bool" where
  "less_eq_session_ref_ext r s \<longleftrightarrow>
     (sr_fd r, sr_generation r, session_ref.more r) \<le> (sr_fd s, sr_generation s, session_ref.more s)"

definition less_session_ref_ext :: "'a session_ref_scheme \<Rightarrow> 'a session_ref_scheme \<Rightarrow> bool" where
  "less_session_ref_ext r s \<longleftrightarrow>
     (sr_fd r, sr_generation r, session_ref.more r) < (sr_fd s, sr_generation s, session_ref.more s)"

instance
  by standard (auto simp: less_eq_session_ref_ext_def less_session_ref_ext_def)

end

section \<open>Iteration order of the hash sets\<close>

datatype iter_site = Enter_Watchers | Move_Recipients | Attack_Watchers | Leave_Watchers

type_synonym iter_order = "iter_site \<Rightarrow> session_ref set \<Rightarrow> session_ref list"

definition valid_order :: "iter_order \<Rightarrow> bool" where
  "valid_order ord \<longleftrightarrow>
     (\<forall>site refs. finite refs \<longrightarrow> set (ord site refs) = refs \<and> distinct (ord site refs))"

definition sorted_order :: iter_order where
  "sorted_order site refs = sorted_list_of_set refs"

lemma valid_sorted_order: "valid_order sorted_order"
  by (simp add: valid_order_def sorted_order_def)

section \<open>Sectors\<close>

definition floor_div :: "int \<Rightarrow> int \<Rightarrow> fault + int" where
  "floor_div value divisor =
     (if divisor \<le> 0 then Inl (Exn (Runtime_Error ''sector size must be positive''))
      else if 0 \<le> value then div_i32 value divisor
      else bind_result (neg_i32 value) (\<lambda>a.
           bind_result (add_i32 a divisor) (\<lambda>b.
           bind_result (sub_i32 b 1) (\<lambda>c.
           bind_result (div_i32 c divisor) neg_i32))))"

definition make_sector_world :: "int \<Rightarrow> int \<Rightarrow> exn + sector_world" where
  "make_sector_world cell radius =
     (if cell \<le> 0 then Inl (Runtime_Error ''sector size must be positive'')
      else if radius < 0 then Inl (Runtime_Error ''view radius must be non-negative'')
      else Inr \<lparr>sector_size = cell, view_radius = radius, players = Map.empty,
                 sectors = Map.empty\<rparr>)"

definition sector_for :: "sector_world \<Rightarrow> int \<Rightarrow> int \<Rightarrow> fault + sector_coord" where
  "sector_for w x y =
     bind_result (floor_div x (sector_size w)) (\<lambda>sx.
     bind_result (floor_div y (sector_size w)) (\<lambda>sy.
     Inr \<lparr>sc_x = sx, sc_y = sy\<rparr>))"

definition sector_members :: "sector_map \<Rightarrow> sector_coord \<Rightarrow> session_ref set" where
  "sector_members m c = (case m c of None \<Rightarrow> {} | Some refs \<Rightarrow> refs)"

text \<open>The inner loop over \<open>dx\<close> and the outer loop over \<open>dy\<close> of \<open>watchers_around\<close>.\<close>

function watchers_in_row ::
  "sector_world \<Rightarrow> sector_coord \<Rightarrow> int \<Rightarrow> int \<Rightarrow> session_ref set \<Rightarrow> fault + session_ref set" where
  "watchers_in_row w sector dy dx watchers =
     (if dx \<le> view_radius w then
        bind_result (add_i32 (sc_x sector) dx) (\<lambda>cx.
        bind_result (add_i32 (sc_y sector) dy) (\<lambda>cy.
        bind_result (add_i32 dx 1) (\<lambda>next_dx.
          watchers_in_row w sector dy next_dx
            (case sectors w \<lparr>sc_x = cx, sc_y = cy\<rparr> of None \<Rightarrow> watchers
             | Some refs \<Rightarrow> watchers \<union> refs))))
      else Inr watchers)"
  by pat_completeness auto
termination
  by (relation "measure (\<lambda>(w, sector, dy, dx, watchers). nat (view_radius w + 1 - dx))")
    (auto simp: add_i32_def to_i32_def split: if_splits)

function watchers_in_rows ::
  "sector_world \<Rightarrow> sector_coord \<Rightarrow> int \<Rightarrow> session_ref set \<Rightarrow> fault + session_ref set" where
  "watchers_in_rows w sector dy watchers =
     (if dy \<le> view_radius w then
        bind_result (neg_i32 (view_radius w)) (\<lambda>dx.
        bind_result (watchers_in_row w sector dy dx watchers) (\<lambda>found.
        bind_result (add_i32 dy 1) (\<lambda>next_dy.
          watchers_in_rows w sector next_dy found)))
      else Inr watchers)"
  by pat_completeness auto
termination
  by (relation "measure (\<lambda>(w, sector, dy, watchers). nat (view_radius w + 1 - dy))")
    (auto simp: add_i32_def to_i32_def split: if_splits)

declare watchers_in_row.simps [simp del] watchers_in_rows.simps [simp del]

definition watchers_around :: "sector_world \<Rightarrow> sector_coord \<Rightarrow> fault + session_ref set" where
  "watchers_around w sector =
     bind_result (neg_i32 (view_radius w)) (\<lambda>dy. watchers_in_rows w sector dy {})"

definition sector_insert :: "sector_map \<Rightarrow> session_ref \<Rightarrow> sector_coord \<Rightarrow> sector_map" where
  "sector_insert m ref c = m(c \<mapsto> insert ref (sector_members m c))"

definition sector_erase :: "sector_map \<Rightarrow> session_ref \<Rightarrow> sector_coord \<Rightarrow> sector_map" where
  "sector_erase m ref c =
     (case m c of
        None \<Rightarrow> m
      | Some refs \<Rightarrow> if refs - {ref} = {} then m(c := None) else m(c \<mapsto> refs - {ref}))"

definition insert_into_sector :: "sector_world \<Rightarrow> player_state \<Rightarrow> sector_world" where
  "insert_into_sector w player =
     w\<lparr>sectors := sector_insert (sectors w) (ps_ref player) (ps_sector player)\<rparr>"

definition erase_from_sector :: "sector_world \<Rightarrow> session_ref \<Rightarrow> sector_coord \<Rightarrow> sector_world" where
  "erase_from_sector w ref sector = w\<lparr>sectors := sector_erase (sectors w) ref sector\<rparr>"

section \<open>The lines of the events\<close>

definition sector_string :: "sector_coord \<Rightarrow> string" where
  "sector_string sector = to_string_int (sc_x sector) @ '','' @ to_string_int (sc_y sector)"

definition position_text :: "player_state \<Rightarrow> string" where
  "position_text p = '' x='' @ to_string_int (ps_x p) @ '' y='' @ to_string_int (ps_y p)"

definition enter_line :: "player_state \<Rightarrow> string" where
  "enter_line p = ''EVT ENTER '' @ ps_character p @ '' account='' @ ps_account p @
     position_text p @ '' sector='' @ sector_string (ps_sector p)"

definition move_line :: "player_state \<Rightarrow> string" where
  "move_line p = ''EVT MOVE '' @ ps_character p @ position_text p @
     '' sector='' @ sector_string (ps_sector p)"

definition despawn_line :: "player_state \<Rightarrow> string \<Rightarrow> string" where
  "despawn_line p reason = ''EVT DESPAWN '' @ ps_character p @ '' reason='' @ reason @
     '' sector='' @ sector_string (ps_sector p)"

definition entered_line :: "player_state \<Rightarrow> string" where
  "entered_line p = ''WORLD ENTERED '' @ ps_character p @ position_text p @
     '' sector='' @ sector_string (ps_sector p)"

definition snapshot_line :: "player_state \<Rightarrow> string" where
  "snapshot_line p = ''EVT SNAPSHOT '' @ ps_character p @ '' account='' @ ps_account p @
     position_text p @ '' sector='' @ sector_string (ps_sector p)"

definition moved_line :: "player_state \<Rightarrow> string" where
  "moved_line p = ''WORLD MOVED '' @ ps_character p @ position_text p @
     '' sector='' @ sector_string (ps_sector p)"

definition attack_self_line :: "string \<Rightarrow> string \<Rightarrow> string" where
  "attack_self_line skill target = ''WORLD ATTACK skill='' @ skill @ '' target='' @ target"

definition attack_line :: "player_state \<Rightarrow> string \<Rightarrow> string \<Rightarrow> string" where
  "attack_line p skill target = ''EVT ATTACK attacker='' @ ps_character p @ '' skill='' @ skill @
     '' target='' @ target @ position_text p"

definition not_in_world_line :: string where
  "not_in_world_line = ''ERR not in world; use ENTER first''"

section \<open>The operations of SectorWorld\<close>

definition world_leave ::
  "iter_order \<Rightarrow> sector_world \<Rightarrow> session_ref \<Rightarrow> player_snapshot
     \<Rightarrow> fault + sector_world \<times> world_event list \<times> player_snapshot" where
  "world_leave ord w ref snapshot_out =
     (case players w ref of
        None \<Rightarrow> Inr (w, [], snapshot_out)
      | Some player \<Rightarrow>
          (let snapshot = \<lparr>snap_account = ps_account player, snap_character = ps_character player,
                           snap_x = ps_x player, snap_y = ps_y player\<rparr> in
           bind_result (watchers_around w (ps_sector player)) (\<lambda>watchers.
           let w' = erase_from_sector w ref (ps_sector player);
               w'' = w'\<lparr>players := (players w')(ref := None)\<rparr>;
               events = concat (map (\<lambda>r. if r = ref then []
                            else [\<lparr>receiver = r, event_line = despawn_line player ''leave''\<rparr>])
                          (ord Leave_Watchers watchers))
           in Inr (w'', events, snapshot))))"

definition world_enter ::
  "iter_order \<Rightarrow> sector_world \<Rightarrow> session_ref \<Rightarrow> string \<Rightarrow> string \<Rightarrow> int \<Rightarrow> int
     \<Rightarrow> fault + sector_world \<times> world_event list" where
  "world_enter ord w ref account character x y =
     bind_result (world_leave ord w ref no_snapshot) (\<lambda>(w1, events, _).
     bind_result (sector_for w1 x y) (\<lambda>sector.
     let player = \<lparr>ps_ref = ref, ps_account = account, ps_character = character,
                   ps_x = x, ps_y = y, ps_sector = sector\<rparr>;
         w2 = insert_into_sector (w1\<lparr>players := (players w1)(ref \<mapsto> player)\<rparr>) player
     in bind_result (watchers_around w2 sector) (\<lambda>watchers.
     let announced = map (\<lambda>r. \<lparr>receiver = r, event_line =
             (if r = ref then entered_line player else enter_line player)\<rparr>)
           (ord Enter_Watchers watchers);
         snapshots = concat (map (\<lambda>r. if r = ref then []
             else (case players w2 r of None \<Rightarrow> []
                   | Some other \<Rightarrow> [\<lparr>receiver = ref, event_line = snapshot_line other\<rparr>]))
           (ord Enter_Watchers watchers))
     in Inr (w2, events @ announced @ snapshots))))"

definition world_move ::
  "iter_order \<Rightarrow> sector_world \<Rightarrow> session_ref \<Rightarrow> int \<Rightarrow> int
     \<Rightarrow> fault + sector_world \<times> world_event list" where
  "world_move ord w ref x y =
     (case players w ref of
        None \<Rightarrow> Inr (w, [\<lparr>receiver = ref, event_line = not_in_world_line\<rparr>])
      | Some player \<Rightarrow>
          (let old_sector = ps_sector player in
           bind_result (watchers_around w old_sector) (\<lambda>old_watchers.
           bind_result (sector_for w x y) (\<lambda>new_sector.
           let w1 = (if old_sector \<noteq> new_sector then erase_from_sector w ref old_sector else w);
               player' = player\<lparr>ps_x := x, ps_y := y, ps_sector := new_sector\<rparr>;
               w2 = w1\<lparr>players := (players w1)(ref \<mapsto> player')\<rparr>;
               w3 = (if old_sector \<noteq> new_sector then insert_into_sector w2 player' else w2)
           in bind_result (watchers_around w3 new_sector) (\<lambda>new_watchers.
           let recipients = old_watchers \<union> new_watchers;
               events = concat (map (\<lambda>r.
                 if r = ref then [\<lparr>receiver = r, event_line = moved_line player'\<rparr>]
                 else (let was_visible = r \<in> old_watchers; is_visible = r \<in> new_watchers in
                   if was_visible \<and> is_visible
                   then [\<lparr>receiver = r, event_line = move_line player'\<rparr>]
                   else if \<not> was_visible \<and> is_visible
                   then [\<lparr>receiver = r, event_line = enter_line player'\<rparr>]
                   else if was_visible \<and> \<not> is_visible
                   then [\<lparr>receiver = r, event_line = despawn_line player' ''sector_out''\<rparr>]
                   else [])) (ord Move_Recipients recipients))
           in Inr (w3, events))))))"

definition world_attack ::
  "iter_order \<Rightarrow> sector_world \<Rightarrow> session_ref \<Rightarrow> string \<Rightarrow> string
     \<Rightarrow> fault + sector_world \<times> world_event list" where
  "world_attack ord w ref skill target =
     (case players w ref of
        None \<Rightarrow> Inr (w, [\<lparr>receiver = ref, event_line = not_in_world_line\<rparr>])
      | Some player \<Rightarrow>
          bind_result (watchers_around w (ps_sector player)) (\<lambda>watchers.
          Inr (w, map (\<lambda>r. \<lparr>receiver = r, event_line =
              (if r = ref then attack_self_line skill target
               else attack_line player skill target)\<rparr>) (ord Attack_Watchers watchers))))"

section \<open>The arithmetic of sectors\<close>

lemma ceiling_div:
  assumes "0 < (d::int)"
  shows "- ((- v + d - 1) div d) = v div d"
proof -
  have v: "v = d * (v div d) + v mod d" by simp
  have "(- v + d - 1) = d * (- (v div d)) + (d - 1 - v mod d)"
    by (subst (1) v) (simp add: algebra_simps)
  moreover have "0 \<le> d - 1 - v mod d" "d - 1 - v mod d < d"
    using assms pos_mod_bound [of d v] pos_mod_sign [of d v] by linarith+
  ultimately have "(- v + d - 1) div d = - (v div d)"
    by (metis int_div_pos_eq)
  then show ?thesis by simp
qed

lemma div_abs_bound:
  assumes "0 < (d::int)"
  shows "\<bar>v div d\<bar> \<le> \<bar>v\<bar>"
proof (cases "0 \<le> v")
  case True
  then show ?thesis using assms zdiv_mono2 [of v 1 d] by (simp add: pos_imp_zdiv_nonneg_iff)
next
  case False
  then show ?thesis using assms zdiv_mono2_neg [of v 1 d]
    by (simp add: div_neg_pos_less0 abs_of_neg)
qed

text \<open>A coordinate for which the sector arithmetic cannot overflow.\<close>

definition safe_coord :: "int \<Rightarrow> int \<Rightarrow> bool" where
  "safe_coord cell v \<longleftrightarrow> in_i32 v \<and> cell - INT_MAX \<le> v"

lemma floor_div_in_range:
  assumes "in_i32 v" and "in_i32 d"
  shows "floor_div v d =
    (if d \<le> 0 then Inl (Exn (Runtime_Error ''sector size must be positive''))
     else if safe_coord d v then Inr (v div d) else Inl Signed_Overflow)"
proof (cases "0 < d")
  case d: True
  show ?thesis
  proof (cases "0 \<le> v")
    case True
    moreover have "\<bar>v div d\<bar> \<le> \<bar>v\<bar>" using d by (rule div_abs_bound)
    ultimately show ?thesis
      using d assms by (auto simp: floor_div_def i32_simps sdiv_nonneg safe_coord_def)
  next
    case False
    show ?thesis
    proof (cases "safe_coord d v")
      case safe: True
      have "\<bar>v div d\<bar> \<le> \<bar>v\<bar>" using d by (rule div_abs_bound)
      then have q: "\<bar>(- v + d - 1) div d\<bar> \<le> \<bar>v\<bar>"
        using ceiling_div [OF d, of v] by linarith
      have "(- v + d - 1) sdiv d = (- v + d - 1) div d"
        using d False by (intro sdiv_nonneg) auto
      moreover have "in_i32 (- v)" "in_i32 (- v + d)" "in_i32 (- v + d - 1)"
        using safe d False assms by (auto simp: safe_coord_def i32_simps)
      moreover have "in_i32 ((- v + d - 1) div d)" "in_i32 (- ((- v + d - 1) div d))"
        using q safe d False by (auto simp: safe_coord_def i32_simps)
      ultimately show ?thesis
        using d False safe ceiling_div [OF d, of v]
        by (simp add: floor_div_def add_i32_def sub_i32_def neg_i32_def div_i32_def to_i32_def)
    next
      case unsafe: False
      then show ?thesis using d False assms
        by (auto simp: floor_div_def i32_simps safe_coord_def)
    qed
  qed
qed (simp add: floor_div_def)

section \<open>The watchers of a sector\<close>

definition near :: "int \<Rightarrow> sector_coord \<Rightarrow> sector_coord \<Rightarrow> bool" where
  "near r c c' \<longleftrightarrow> \<bar>sc_x c' - sc_x c\<bar> \<le> r \<and> \<bar>sc_y c' - sc_y c\<bar> \<le> r"

definition sector_fits :: "sector_world \<Rightarrow> sector_coord \<Rightarrow> bool" where
  "sector_fits w c \<longleftrightarrow>
     \<bar>sc_x c\<bar> + view_radius w \<le> INT_MAX \<and> \<bar>sc_y c\<bar> + view_radius w \<le> INT_MAX \<and>
     view_radius w < INT_MAX \<and> 0 \<le> view_radius w"

lemma near_sym: "near r c c' = near r c' c"
  by (auto simp: near_def abs_minus_commute)

lemma near_self [simp]: "0 \<le> r \<Longrightarrow> near r c c"
  by (simp add: near_def)

lemma ex_range_step:
  assumes "a \<le> (b::int)"
  shows "(\<exists>k. a \<le> k \<and> k \<le> b \<and> P k) \<longleftrightarrow> P a \<or> (\<exists>k. a + 1 \<le> k \<and> k \<le> b \<and> P k)"
proof
  assume "\<exists>k. a \<le> k \<and> k \<le> b \<and> P k"
  then obtain k where k: "a \<le> k" "k \<le> b" "P k" by blast
  then show "P a \<or> (\<exists>k. a + 1 \<le> k \<and> k \<le> b \<and> P k)"
    by (cases "k = a") (auto intro!: exI [of _ k])
next
  assume "P a \<or> (\<exists>k. a + 1 \<le> k \<and> k \<le> b \<and> P k)"
  then show "\<exists>k. a \<le> k \<and> k \<le> b \<and> P k"
  proof
    assume "\<exists>k. a + 1 \<le> k \<and> k \<le> b \<and> P k"
    then obtain k where "a + 1 \<le> k" "k \<le> b" "P k" by blast
    then have "a \<le> k \<and> k \<le> b \<and> P k" by simp
    then show ?thesis ..
  qed (use assms in blast)
qed

lemma watchers_in_row_eq:
  assumes "sector_fits w c" and "- view_radius w \<le> dx" and "\<bar>dy\<bar> \<le> view_radius w"
  shows "watchers_in_row w c dy dx ws = Inr (ws \<union> {ref. \<exists>k. dx \<le> k \<and> k \<le> view_radius w \<and>
    ref \<in> sector_members (sectors w) \<lparr>sc_x = sc_x c + k, sc_y = sc_y c + dy\<rparr>})"
  using assms
proof (induction w c dy dx ws rule: watchers_in_row.induct)
  case (1 w c dy dx ws)
  show ?case
  proof (cases "dx \<le> view_radius w")
    case True
    have cx: "add_i32 (sc_x c) dx = Inr (sc_x c + dx)" and cy: "add_i32 (sc_y c) dy = Inr (sc_y c + dy)"
      and nx: "add_i32 dx 1 = Inr (dx + 1)"
      using "1.prems" True by (auto simp: sector_fits_def i32_simps)
    let ?here = "sector_members (sectors w) \<lparr>sc_x = sc_x c + dx, sc_y = sc_y c + dy\<rparr>"
    have "(case sectors w \<lparr>sc_x = sc_x c + dx, sc_y = sc_y c + dy\<rparr> of None \<Rightarrow> ws
        | Some refs \<Rightarrow> ws \<union> refs) = ws \<union> ?here"
      by (auto simp: sector_members_def split: option.splits)
    then have "watchers_in_row w c dy dx ws = watchers_in_row w c dy (dx + 1) (ws \<union> ?here)"
      using True cx cy nx by (simp add: watchers_in_row.simps [of w c dy dx])
    also have "\<dots> = Inr (ws \<union> ?here \<union> {ref. \<exists>k. dx + 1 \<le> k \<and> k \<le> view_radius w \<and>
        ref \<in> sector_members (sectors w) \<lparr>sc_x = sc_x c + k, sc_y = sc_y c + dy\<rparr>})"
      using "1.IH" [OF True cx cy nx] "1.prems" by (simp add: sector_members_def split: option.splits)
    finally show ?thesis
      by (simp add: ex_range_step [OF True] Un_assoc Collect_disj_eq)
  next
    case False
    then show ?thesis by (auto simp: watchers_in_row.simps [of w c dy dx])
  qed
qed

lemma watchers_in_rows_eq:
  assumes "sector_fits w c" and "- view_radius w \<le> dy"
  shows "watchers_in_rows w c dy ws = Inr (ws \<union> {ref. \<exists>k j. dy \<le> j \<and> j \<le> view_radius w \<and>
    \<bar>k\<bar> \<le> view_radius w \<and>
    ref \<in> sector_members (sectors w) \<lparr>sc_x = sc_x c + k, sc_y = sc_y c + j\<rparr>})"
  using assms
proof (induction w c dy ws rule: watchers_in_rows.induct)
  case (1 w c dy ws)
  show ?case
  proof (cases "dy \<le> view_radius w")
    case True
    have dx: "neg_i32 (view_radius w) = Inr (- view_radius w)" and ny: "add_i32 dy 1 = Inr (dy + 1)"
      using "1.prems" True by (auto simp: sector_fits_def i32_simps)
    let ?row = "{ref. \<exists>k. - view_radius w \<le> k \<and> k \<le> view_radius w \<and>
       ref \<in> sector_members (sectors w) \<lparr>sc_x = sc_x c + k, sc_y = sc_y c + dy\<rparr>}"
    let ?rows = "\<lambda>dy. {ref. \<exists>k j. dy \<le> j \<and> j \<le> view_radius w \<and> \<bar>k\<bar> \<le> view_radius w \<and>
       ref \<in> sector_members (sectors w) \<lparr>sc_x = sc_x c + k, sc_y = sc_y c + j\<rparr>}"
    have row: "watchers_in_row w c dy (- view_radius w) ws = Inr (ws \<union> ?row)"
      using "1.prems" True by (intro watchers_in_row_eq) auto
    have "watchers_in_rows w c dy ws = watchers_in_rows w c (dy + 1) (ws \<union> ?row)"
      using True dx ny row by (simp add: watchers_in_rows.simps [of w c dy])
    also have "\<dots> = Inr (ws \<union> ?row \<union> ?rows (dy + 1))"
      using "1.IH" [OF True dx row ny] "1.prems" by simp
    finally have eq: "watchers_in_rows w c dy ws = Inr (ws \<union> ?row \<union> ?rows (dy + 1))" .
    have "?row = {ref. \<exists>k. \<bar>k\<bar> \<le> view_radius w \<and>
        ref \<in> sector_members (sectors w) \<lparr>sc_x = sc_x c + k, sc_y = sc_y c + dy\<rparr>}"
      by (simp only: abs_le_iff) (metis minus_le_iff)
    moreover have "?rows dy = {ref. \<exists>k. \<bar>k\<bar> \<le> view_radius w \<and>
        ref \<in> sector_members (sectors w) \<lparr>sc_x = sc_x c + k, sc_y = sc_y c + dy\<rparr>} \<union> ?rows (dy + 1)"
      using ex_range_step [OF True, of "\<lambda>j. \<exists>k. \<bar>k\<bar> \<le> view_radius w \<and> _ \<in>
        sector_members (sectors w) \<lparr>sc_x = sc_x c + k, sc_y = sc_y c + j\<rparr>"] by blast
    ultimately show ?thesis using eq by (simp add: Un_assoc)
  next
    case False
    then show ?thesis by (auto simp: watchers_in_rows.simps [of w c dy])
  qed
qed

lemma watchers_around_eq:
  assumes "sector_fits w c"
  shows "watchers_around w c =
    Inr {ref. \<exists>c'. near (view_radius w) c c' \<and> ref \<in> sector_members (sectors w) c'}"
proof -
  have "neg_i32 (view_radius w) = Inr (- view_radius w)"
    using assms by (auto simp: sector_fits_def i32_simps)
  then have "watchers_around w c = Inr {ref. \<exists>k j. - view_radius w \<le> j \<and> j \<le> view_radius w \<and>
      \<bar>k\<bar> \<le> view_radius w \<and>
      ref \<in> sector_members (sectors w) \<lparr>sc_x = sc_x c + k, sc_y = sc_y c + j\<rparr>}"
    using assms by (simp add: watchers_around_def watchers_in_rows_eq)
  also have "{ref. \<exists>k j. - view_radius w \<le> j \<and> j \<le> view_radius w \<and> \<bar>k\<bar> \<le> view_radius w \<and>
      ref \<in> sector_members (sectors w) \<lparr>sc_x = sc_x c + k, sc_y = sc_y c + j\<rparr>} =
    {ref. \<exists>c'. near (view_radius w) c c' \<and> ref \<in> sector_members (sectors w) c'}" (is "?l = ?r")
  proof
    show "?l \<subseteq> ?r" by (force simp: near_def)
    show "?r \<subseteq> ?l"
    proof
      fix ref assume "ref \<in> ?r"
      then obtain c' where c': "near (view_radius w) c c'" "ref \<in> sector_members (sectors w) c'"
        by blast
      from c'(2) have "ref \<in> sector_members (sectors w)
          \<lparr>sc_x = sc_x c + (sc_x c' - sc_x c), sc_y = sc_y c + (sc_y c' - sc_y c)\<rparr>"
        by (cases c') simp
      moreover from c'(1) have "\<bar>sc_x c' - sc_x c\<bar> \<le> view_radius w"
          "- view_radius w \<le> sc_y c' - sc_y c" "sc_y c' - sc_y c \<le> view_radius w"
        by (auto simp: near_def abs_le_iff)
      ultimately show "ref \<in> ?l" by blast
    qed
  qed
  finally show ?thesis .
qed

section \<open>The sector index as an interface\<close>

text \<open>
  What the operations need of the index: the members of a sector after an insertion and a
  removal, and that no empty sector is kept. \<open>index_agrees\<close> says that the index lists each
  player in exactly the sector of its position.
\<close>

definition index_agrees :: "('c \<Rightarrow> 'r set) \<Rightarrow> ('r \<rightharpoonup> 'c) \<Rightarrow> bool" where
  "index_agrees mem pos \<longleftrightarrow> (\<forall>c r. r \<in> mem c \<longleftrightarrow> pos r = Some c)"

locale cell_index =
  fixes ins :: "'i \<Rightarrow> 'r \<Rightarrow> 'c \<Rightarrow> 'i"
    and del :: "'i \<Rightarrow> 'r \<Rightarrow> 'c \<Rightarrow> 'i"
    and mem :: "'i \<Rightarrow> 'c \<Rightarrow> 'r set"
  assumes mem_ins: "mem (ins i r c) c' = (if c' = c then insert r (mem i c') else mem i c')"
    and mem_del: "mem (del i r c) c' = (if c' = c then mem i c' - {r} else mem i c')"
begin

lemma agrees_ins:
  "index_agrees (mem i) pos \<Longrightarrow> pos r = None \<Longrightarrow> index_agrees (mem (ins i r c)) (pos(r \<mapsto> c))"
  by (auto simp: index_agrees_def mem_ins)

lemma agrees_del:
  "index_agrees (mem i) pos \<Longrightarrow> pos r = Some c \<Longrightarrow> index_agrees (mem (del i r c)) (pos(r := None))"
  by (auto simp: index_agrees_def mem_del)

lemma agrees_relocate:
  assumes "index_agrees (mem i) pos" and "pos r = Some c"
  shows "index_agrees (mem (ins (del i r c) r c')) (pos(r \<mapsto> c'))"
  using agrees_ins [OF agrees_del [OF assms], of r c'] by simp

end

locale tidy_cell_index = cell_index +
  fixes tidy :: "'a \<Rightarrow> bool"
  assumes tidy_ins: "tidy i \<Longrightarrow> tidy (ins i r c)"
    and tidy_del: "tidy i \<Longrightarrow> tidy (del i r c)"
begin

lemma tidy_relocate: "tidy i \<Longrightarrow> tidy (ins (del i r c) r c')"
  by (simp add: tidy_ins tidy_del)

end

definition no_empty_sector :: "sector_map \<Rightarrow> bool" where
  "no_empty_sector m \<longleftrightarrow> (\<forall>c refs. m c = Some refs \<longrightarrow> refs \<noteq> {})"

interpretation sector_index: tidy_cell_index sector_insert sector_erase sector_members no_empty_sector
  by unfold_locales
    (auto simp: sector_insert_def sector_erase_def sector_members_def no_empty_sector_def
      split: option.splits if_splits)

section \<open>The invariant of the world\<close>

definition params_ok :: "sector_world \<Rightarrow> bool" where
  "params_ok w \<longleftrightarrow> 2 \<le> sector_size w \<and> sector_size w \<le> INT_MAX \<and>
     0 \<le> view_radius w \<and> view_radius w < 2 ^ 30"

definition cell_at :: "sector_world \<Rightarrow> int \<Rightarrow> int \<Rightarrow> sector_coord" where
  "cell_at w x y = \<lparr>sc_x = x div sector_size w, sc_y = y div sector_size w\<rparr>"

definition coords_ok :: "sector_world \<Rightarrow> int \<Rightarrow> int \<Rightarrow> bool" where
  "coords_ok w x y \<longleftrightarrow> safe_coord (sector_size w) x \<and> safe_coord (sector_size w) y"

definition positions :: "sector_world \<Rightarrow> (session_ref \<rightharpoonup> sector_coord)" where
  "positions w ref = map_option ps_sector (players w ref)"

definition player_ok :: "sector_world \<Rightarrow> session_ref \<Rightarrow> player_state \<Rightarrow> bool" where
  "player_ok w ref p \<longleftrightarrow> ps_ref p = ref \<and> coords_ok w (ps_x p) (ps_y p) \<and>
     ps_sector p = cell_at w (ps_x p) (ps_y p)"

definition world_inv :: "sector_world \<Rightarrow> bool" where
  "world_inv w \<longleftrightarrow> params_ok w \<and> finite (dom (players w)) \<and>
     (\<forall>ref p. players w ref = Some p \<longrightarrow> player_ok w ref p) \<and>
     index_agrees (sector_members (sectors w)) (positions w) \<and> no_empty_sector (sectors w)"

lemma make_sector_world_inv:
  "make_sector_world cell radius = Inr w \<Longrightarrow> 2 \<le> cell \<Longrightarrow> cell \<le> INT_MAX \<Longrightarrow> radius < 2 ^ 30 \<Longrightarrow>
   world_inv w \<and> players w = Map.empty"
  by (auto simp: make_sector_world_def world_inv_def params_ok_def index_agrees_def positions_def
      sector_members_def no_empty_sector_def split: if_splits)

text \<open>The sessions that see a sector: those whose player stands within the view radius of it.\<close>

definition sees :: "sector_world \<Rightarrow> session_ref \<Rightarrow> sector_coord \<Rightarrow> bool" where
  "sees w q c \<longleftrightarrow> (case players w q of None \<Rightarrow> False
     | Some p \<Rightarrow> near (view_radius w) c (ps_sector p))"

definition visible :: "sector_world \<Rightarrow> sector_coord \<Rightarrow> session_ref set" where
  "visible w c = {q. sees w q c}"

lemma mem_visible: "q \<in> visible w c \<longleftrightarrow> sees w q c"
  by (simp add: visible_def)

lemma sector_for_in_range:
  assumes "params_ok w" and "in_i32 x" and "in_i32 y"
  shows "sector_for w x y = (if coords_ok w x y then Inr (cell_at w x y) else Inl Signed_Overflow)"
proof -
  have "in_i32 (sector_size w)" "0 < sector_size w"
    using assms(1) by (auto simp: params_ok_def i32_simps)
  with assms show ?thesis
    by (auto simp: sector_for_def floor_div_in_range coords_ok_def cell_at_def)
qed

lemma coords_ok_in_i32: "coords_ok w x y \<Longrightarrow> in_i32 x \<and> in_i32 y"
  by (simp add: coords_ok_def safe_coord_def)

lemma sector_for_ok:
  "params_ok w \<Longrightarrow> coords_ok w x y \<Longrightarrow> sector_for w x y = Inr (cell_at w x y)"
  using coords_ok_in_i32 [of w x y] by (simp add: sector_for_in_range)

lemma div_half_bound:
  assumes "2 \<le> (d::int)" and "in_i32 v"
  shows "\<bar>v div d\<bar> \<le> 2 ^ 30"
proof (cases "0 \<le> v")
  case True
  then have "v div d \<le> v div 2" "0 \<le> v div d"
    using assms(1) by (auto intro: zdiv_mono2 simp: pos_imp_zdiv_nonneg_iff)
  moreover have "v div 2 \<le> 2 ^ 30" using assms(2) by (auto simp: i32_simps)
  ultimately show ?thesis by simp
next
  case False
  then have "v div 2 \<le> v div d" "v div d < 0"
    using assms(1) by (auto intro: zdiv_mono2_neg simp: div_neg_pos_less0)
  moreover have "- (2 ^ 30) \<le> v div 2" using assms(2) by (auto simp: i32_simps)
  ultimately show ?thesis by simp
qed

lemma cell_at_fits:
  assumes "params_ok w" and "coords_ok w x y"
  shows "sector_fits w (cell_at w x y)"
  using assms div_half_bound [of "sector_size w" x] div_half_bound [of "sector_size w" y]
    coords_ok_in_i32 [of w x y]
  by (simp add: sector_fits_def cell_at_def params_ok_def INT_MAX_def)

lemma world_inv_player: "world_inv w \<Longrightarrow> players w ref = Some p \<Longrightarrow> player_ok w ref p"
  by (simp add: world_inv_def)

lemma world_inv_sector_fits:
  "world_inv w \<Longrightarrow> players w ref = Some p \<Longrightarrow> sector_fits w (ps_sector p)"
  using world_inv_player [of w ref p] by (simp add: player_ok_def cell_at_fits world_inv_def)

lemma members_eq_positions:
  "index_agrees (sector_members (sectors w)) (positions w) \<Longrightarrow>
     ref \<in> sector_members (sectors w) c \<longleftrightarrow> (\<exists>p. players w ref = Some p \<and> ps_sector p = c)"
  by (auto simp: index_agrees_def positions_def)

lemma watchers_visible:
  assumes "index_agrees (sector_members (sectors w)) (positions w)" and "sector_fits w c"
  shows "watchers_around w c = Inr (visible w c)"
  using assms by (auto simp: watchers_around_eq visible_def sees_def members_eq_positions
      split: option.splits)

lemma finite_visible: "finite (dom (players w)) \<Longrightarrow> finite (visible w c)"
  by (rule finite_subset [of _ "dom (players w)"]) (auto simp: visible_def sees_def split: option.splits)

lemma order_visible:
  "valid_order ord \<Longrightarrow> finite (dom (players w)) \<Longrightarrow>
     set (ord site (visible w c)) = visible w c \<and> distinct (ord site (visible w c))"
  by (simp add: valid_order_def finite_visible)

section \<open>What one session receives\<close>

definition inbox :: "session_ref \<Rightarrow> world_event list \<Rightarrow> string list" where
  "inbox q events = map event_line (filter (\<lambda>e. receiver e = q) events)"

lemma inbox_Nil [simp]: "inbox q [] = []"
  by (simp add: inbox_def)

lemma inbox_append [simp]: "inbox q (xs @ ys) = inbox q xs @ inbox q ys"
  by (simp add: inbox_def)

lemma inbox_single [simp]: "inbox q [e] = (if receiver e = q then [event_line e] else [])"
  by (simp add: inbox_def)

lemma inbox_none: "(\<And>e. e \<in> set events \<Longrightarrow> receiver e \<noteq> q) \<Longrightarrow> inbox q events = []"
  by (auto simp: inbox_def filter_empty_conv)

lemma inbox_all: "(\<And>e. e \<in> set events \<Longrightarrow> receiver e = q) \<Longrightarrow> inbox q events = map event_line events"
  by (simp add: inbox_def filter_True)

text \<open>A loop over distinct receivers that sends each its own events.\<close>

lemma inbox_fanout:
  assumes "\<And>r e. r \<in> set rs \<Longrightarrow> e \<in> set (f r) \<Longrightarrow> receiver e = r" and "distinct rs"
  shows "inbox q (concat (map f rs)) = (if q \<in> set rs then map event_line (f q) else [])"
  using assms
proof (induction rs)
  case (Cons r rs)
  have "inbox q (f r) = (if q = r then map event_line (f r) else [])"
    using Cons.prems(1) by (auto intro!: inbox_all inbox_none)
  with Cons show ?case by auto
qed simp

lemma inbox_map_fanout:
  assumes "distinct rs"
  shows "inbox q (map (\<lambda>r. \<lparr>receiver = r, event_line = g r\<rparr>) rs) = (if q \<in> set rs then [g q] else [])"
  using inbox_fanout [of rs "\<lambda>r. [\<lparr>receiver = r, event_line = g r\<rparr>]" q] assms
  by (simp add: concat_map_singleton)

section \<open>Keeping the invariant\<close>

lemma player_ok_update [simp]:
  "player_ok (w\<lparr>players := ps, sectors := m\<rparr>) ref p = player_ok w ref p"
  by (simp add: player_ok_def coords_ok_def cell_at_def)

lemma positions_simps [simp]:
  "positions (w\<lparr>players := (players w)(ref \<mapsto> p)\<rparr>) = (positions w)(ref \<mapsto> ps_sector p)"
  "positions (w\<lparr>players := (players w)(ref := None)\<rparr>) = (positions w)(ref := None)"
  "positions (w\<lparr>sectors := m\<rparr>) = positions w"
  by (auto simp: positions_def)

lemma positions_None: "players w ref = None \<Longrightarrow> positions w ref = None"
  by (simp add: positions_def)

lemma positions_Some: "players w ref = Some p \<Longrightarrow> positions w ref = Some (ps_sector p)"
  by (simp add: positions_def)

text \<open>The new world of each operation, on the players and on the index.\<close>

definition remove_player :: "sector_world \<Rightarrow> session_ref \<Rightarrow> player_state \<Rightarrow> sector_world" where
  "remove_player w ref p =
     w\<lparr>players := (players w)(ref := None), sectors := sector_erase (sectors w) ref (ps_sector p)\<rparr>"

definition add_player :: "sector_world \<Rightarrow> session_ref \<Rightarrow> player_state \<Rightarrow> sector_world" where
  "add_player w ref p =
     w\<lparr>players := (players w)(ref \<mapsto> p), sectors := sector_insert (sectors w) ref (ps_sector p)\<rparr>"

definition relocate_player ::
  "sector_world \<Rightarrow> session_ref \<Rightarrow> player_state \<Rightarrow> player_state \<Rightarrow> sector_world" where
  "relocate_player w ref p p' =
     w\<lparr>players := (players w)(ref \<mapsto> p'),
       sectors := (if ps_sector p = ps_sector p' then sectors w
         else sector_insert (sector_erase (sectors w) ref (ps_sector p)) ref (ps_sector p'))\<rparr>"

lemma params_ok_update [simp]:
  "params_ok (w\<lparr>players := ps, sectors := m\<rparr>) = params_ok w"
  by (simp add: params_ok_def)

lemma positions_update:
  "positions (w\<lparr>players := (players w)(ref := v), sectors := m\<rparr>) =
     (positions w)(ref := map_option ps_sector v)"
  by (auto simp: positions_def)

lemma world_inv_remove:
  assumes "world_inv w" and "players w ref = Some p"
  shows "world_inv (remove_player w ref p)"
proof -
  have "index_agrees (sector_members (sector_erase (sectors w) ref (ps_sector p)))
      ((positions w)(ref := None))"
    using assms by (intro sector_index.agrees_del) (auto simp: world_inv_def positions_def)
  with assms show ?thesis
    by (auto simp: world_inv_def remove_player_def positions_update sector_index.tidy_del)
qed

lemma world_inv_add:
  assumes "world_inv w" and "players w ref = None" and "player_ok w ref p"
  shows "world_inv (add_player w ref p)"
proof -
  have "index_agrees (sector_members (sector_insert (sectors w) ref (ps_sector p)))
      ((positions w)(ref \<mapsto> ps_sector p))"
    using assms by (intro sector_index.agrees_ins) (auto simp: world_inv_def positions_def)
  with assms show ?thesis
    by (auto simp: world_inv_def add_player_def positions_update sector_index.tidy_ins)
qed

lemma world_inv_relocate:
  assumes "world_inv w" and "players w ref = Some p" and "player_ok w ref p'"
  shows "world_inv (relocate_player w ref p p')"
proof -
  have pos: "positions w ref = Some (ps_sector p)" using assms(2) by (rule positions_Some)
  have "index_agrees (sector_members (sectors (relocate_player w ref p p')))
      ((positions w)(ref \<mapsto> ps_sector p'))"
    using assms(1) sector_index.agrees_relocate [where pos = "positions w" and r = ref, OF _ pos] pos
    by (auto simp: relocate_player_def world_inv_def map_upd_triv)
  with assms show ?thesis
    by (auto simp: world_inv_def relocate_player_def positions_update sector_index.tidy_relocate)
qed

lemma sees_remove:
  "sees (remove_player w ref p) q c \<longleftrightarrow> q \<noteq> ref \<and> sees w q c"
  by (auto simp: sees_def remove_player_def split: option.splits)

lemma sees_add:
  "sees (add_player w ref p) q c \<longleftrightarrow>
     (if q = ref then near (view_radius w) c (ps_sector p) else sees w q c)"
  by (auto simp: sees_def add_player_def split: option.splits)

lemma sees_relocate:
  "sees (relocate_player w ref p p') q c \<longleftrightarrow>
     (if q = ref then near (view_radius w) c (ps_sector p') else sees w q c)"
  by (auto simp: sees_def relocate_player_def split: option.splits)

lemma sees_own: "world_inv w \<Longrightarrow> players w ref = Some p \<Longrightarrow> sees w ref (ps_sector p)"
  by (auto simp: sees_def world_inv_def params_ok_def)

lemma world_inv_watchers:
  "world_inv w \<Longrightarrow> sector_fits w c \<Longrightarrow> watchers_around w c = Inr (visible w c)"
  by (simp add: world_inv_def watchers_visible)

lemma world_inv_order:
  "world_inv w \<Longrightarrow> valid_order ord \<Longrightarrow>
     set (ord site (visible w c)) = visible w c \<and> distinct (ord site (visible w c))"
  by (simp add: world_inv_def order_visible)

section \<open>What each operation does\<close>

definition snapshot_of :: "player_state \<Rightarrow> player_snapshot" where
  "snapshot_of p = \<lparr>snap_account = ps_account p, snap_character = ps_character p,
     snap_x = ps_x p, snap_y = ps_y p\<rparr>"

definition placed :: "sector_world \<Rightarrow> session_ref \<Rightarrow> string \<Rightarrow> string \<Rightarrow> int \<Rightarrow> int \<Rightarrow> player_state" where
  "placed w ref account character x y =
     \<lparr>ps_ref = ref, ps_account = account, ps_character = character, ps_x = x, ps_y = y,
      ps_sector = cell_at w x y\<rparr>"

definition walked :: "sector_world \<Rightarrow> player_state \<Rightarrow> int \<Rightarrow> int \<Rightarrow> player_state" where
  "walked w p x y = p\<lparr>ps_x := x, ps_y := y, ps_sector := cell_at w x y\<rparr>"

lemma player_ok_placed: "coords_ok w x y \<Longrightarrow> player_ok w ref (placed w ref account character x y)"
  by (simp add: player_ok_def placed_def)

lemma player_ok_walked: "player_ok w ref p \<Longrightarrow> coords_ok w x y \<Longrightarrow> player_ok w ref (walked w p x y)"
  by (simp add: player_ok_def walked_def)

lemma sector_placed: "ps_sector (placed w ref account character x y) = cell_at w x y"
  by (simp add: placed_def)

lemma leave_absent: "players w ref = None \<Longrightarrow> world_leave ord w ref snap = Inr (w, [], snap)"
  by (simp add: world_leave_def)

lemma leave_present:
  assumes "world_inv w" and "valid_order ord" and "players w ref = Some p"
  shows "\<exists>events. world_leave ord w ref snap = Inr (remove_player w ref p, events, snapshot_of p) \<and>
    (\<forall>q. inbox q events =
       (if q \<noteq> ref \<and> sees w q (ps_sector p) then [despawn_line p ''leave''] else []))"
proof -
  let ?f = "\<lambda>r. if r = ref then []
     else [\<lparr>receiver = r, event_line = despawn_line p ''leave''\<rparr>]"
  let ?rs = "ord Leave_Watchers (visible w (ps_sector p))"
  have rs: "set ?rs = visible w (ps_sector p) \<and> distinct ?rs"
    using assms by (simp add: world_inv_order)
  have "world_leave ord w ref snap =
      Inr (remove_player w ref p, concat (map ?f ?rs), snapshot_of p)"
    using assms world_inv_sector_fits [OF assms(1,3)]
    by (simp add: world_leave_def world_inv_watchers remove_player_def snapshot_of_def
        erase_from_sector_def Let_def)
  moreover have "inbox q (concat (map ?f ?rs)) =
      (if q \<noteq> ref \<and> sees w q (ps_sector p) then [despawn_line p ''leave''] else [])" for q
    using rs by (subst inbox_fanout) (auto simp: visible_def split: if_splits)
  ultimately show ?thesis by blast
qed

definition snapshot_lines :: "sector_world \<Rightarrow> session_ref list \<Rightarrow> string list" where
  "snapshot_lines w others = concat (map (\<lambda>r. case players w r of None \<Rightarrow> []
     | Some other \<Rightarrow> [snapshot_line other]) others)"

text \<open>The second half of \<open>enter\<close>, once the session has no player.\<close>

lemma enter_after_leave:
  fixes account character :: string
  assumes inv: "world_inv w1" and ord: "valid_order ord" and absent: "players w1 ref = None"
    and coords: "coords_ok w1 x y"
    and leave: "world_leave ord w ref no_snapshot = Inr (w1, events0, snap)"
  defines "p \<equiv> placed w1 ref account character x y"
  shows "\<exists>events. world_enter ord w ref account character x y = Inr (add_player w1 ref p, events0 @ events) \<and>
    (\<forall>q. q \<noteq> ref \<longrightarrow> inbox q events = (if sees w1 q (ps_sector p) then [enter_line p] else [])) \<and>
    (\<exists>others. distinct others \<and> set others = {q. q \<noteq> ref \<and> sees w1 q (ps_sector p)} \<and>
       inbox ref events = entered_line p # snapshot_lines w1 others)"
proof -
  let ?w2 = "add_player w1 ref p"
  let ?rs = "ord Enter_Watchers (visible ?w2 (ps_sector p))"
  let ?ann = "map (\<lambda>r. \<lparr>receiver = r, event_line = (if r = ref then entered_line p else enter_line p)\<rparr>) ?rs"
  let ?snaps = "concat (map (\<lambda>r. if r = ref then []
      else (case players ?w2 r of None \<Rightarrow> []
        | Some other \<Rightarrow> [\<lparr>receiver = ref, event_line = snapshot_line other\<rparr>])) ?rs)"
  have params: "params_ok w1" using inv by (simp add: world_inv_def)
  have sector: "sector_for w1 x y = Inr (ps_sector p)"
    using sector_for_ok [OF params coords] by (simp add: p_def placed_def)
  have p_eq: "\<lparr>ps_ref = ref, ps_account = account, ps_character = character, ps_x = x, ps_y = y,
      ps_sector = ps_sector p\<rparr> = p"
    by (simp add: p_def placed_def)
  have w2_eq: "insert_into_sector (w1\<lparr>players := (players w1)(ref \<mapsto> p)\<rparr>) p = ?w2"
    by (simp add: p_def placed_def insert_into_sector_def add_player_def)
  have inv2: "world_inv ?w2"
    using inv absent coords unfolding p_def by (intro world_inv_add player_ok_placed)
  have fits: "sector_fits ?w2 (ps_sector p)"
    using world_inv_sector_fits [OF inv2, of ref p] by (simp add: add_player_def)
  have rs: "set ?rs = visible ?w2 (ps_sector p)" "distinct ?rs"
    using world_inv_order [OF inv2 ord] by auto
  have eq: "world_enter ord w ref account character x y = Inr (?w2, events0 @ ?ann @ ?snaps)"
    by (simp only: world_enter_def Let_def leave bind_result.simps prod.case sector p_eq w2_eq
        world_inv_watchers [OF inv2 fits])
  have own: "ref \<in> visible ?w2 (ps_sector p)"
    using sees_own [OF inv2, of ref p] by (simp add: visible_def add_player_def)
  have to_ref: "receiver e = ref" if "e \<in> set ?snaps" for e
    using that by (auto split: if_splits option.splits)
  have others: "inbox q (?ann @ ?snaps) = (if sees w1 q (ps_sector p) then [enter_line p] else [])"
    if "q \<noteq> ref" for q
  proof -
    have "inbox q ?snaps = []" using to_ref that by (intro inbox_none) auto
    then show ?thesis using rs that
      by (simp add: inbox_map_fanout [OF rs(2)] mem_visible sees_add)
  qed
  have mine: "inbox ref (?ann @ ?snaps) =
      entered_line p # snapshot_lines w1 (filter (\<lambda>r. r \<noteq> ref) ?rs)"
  proof -
    have "inbox ref ?snaps = map event_line ?snaps" using to_ref by (rule inbox_all)
    also have "\<dots> = snapshot_lines w1 (filter (\<lambda>r. r \<noteq> ref) rs)" if "rs = ?rs" for rs
      unfolding that [symmetric] snapshot_lines_def
      by (induction rs) (auto simp: add_player_def split: option.splits)
    finally show ?thesis using own rs(1) by (simp add: inbox_map_fanout [OF rs(2)])
  qed
  have "set (filter (\<lambda>r. r \<noteq> ref) ?rs) = {q. q \<noteq> ref \<and> sees w1 q (ps_sector p)}"
    using rs(1) by (auto simp: visible_def sees_add)
  moreover have "distinct (filter (\<lambda>r. r \<noteq> ref) ?rs)" using rs(2) by simp
  ultimately show ?thesis using eq others mine
    by (intro exI [of _ "?ann @ ?snaps"] conjI exI [of _ "filter (\<lambda>r. r \<noteq> ref) ?rs"]) auto
qed

definition move_news :: "sector_world \<Rightarrow> player_state \<Rightarrow> player_state \<Rightarrow> session_ref \<Rightarrow> string list" where
  "move_news w p p' q =
     (if sees w q (ps_sector p) \<and> sees w q (ps_sector p') then [move_line p']
      else if sees w q (ps_sector p') then [enter_line p']
      else if sees w q (ps_sector p) then [despawn_line p' ''sector_out'']
      else [])"

lemma move_present:
  assumes inv: "world_inv w" and ord: "valid_order ord" and here: "players w ref = Some p"
    and coords: "coords_ok w x y"
  defines "p' \<equiv> walked w p x y"
  shows "\<exists>events. world_move ord w ref x y = Inr (relocate_player w ref p p', events) \<and>
    inbox ref events = [moved_line p'] \<and> (\<forall>q. q \<noteq> ref \<longrightarrow> inbox q events = move_news w p p' q)"
proof -
  let ?w3 = "relocate_player w ref p p'"
  let ?old = "visible w (ps_sector p)" and ?new = "visible ?w3 (ps_sector p')"
  let ?f = "\<lambda>r. if r = ref then [\<lparr>receiver = r, event_line = moved_line p'\<rparr>]
     else if r \<in> ?old \<and> r \<in> ?new then [\<lparr>receiver = r, event_line = move_line p'\<rparr>]
     else if r \<notin> ?old \<and> r \<in> ?new then [\<lparr>receiver = r, event_line = enter_line p'\<rparr>]
     else if r \<in> ?old \<and> r \<notin> ?new
       then [\<lparr>receiver = r, event_line = despawn_line p' ''sector_out''\<rparr>] else []"
  let ?rs = "ord Move_Recipients (?old \<union> ?new)"
  have p: "player_ok w ref p" using inv here by (rule world_inv_player)
  then have p': "player_ok w ref p'" using coords unfolding p'_def by (rule player_ok_walked)
  have inv3: "world_inv ?w3" using inv here p' by (rule world_inv_relocate)
  have params: "params_ok w" and fin: "finite (dom (players w))" "finite (dom (players ?w3))"
    using inv inv3 by (simp_all add: world_inv_def)
  have sector: "sector_for w x y = Inr (ps_sector p')"
    using sector_for_ok [OF params coords] by (simp add: p'_def walked_def)
  have fits: "sector_fits w (ps_sector p)" "sector_fits ?w3 (ps_sector p')"
    using world_inv_sector_fits [OF inv here] world_inv_sector_fits [OF inv3, of ref p']
    by (simp_all add: relocate_player_def)
  have ref': "ps_ref p' = ref" using p' by (simp add: player_ok_def)
  have rs: "set ?rs = ?old \<union> ?new" "distinct ?rs"
    using ord finite_visible [OF fin(1)] finite_visible [OF fin(2)]
    by (simp_all add: valid_order_def)
  have p'_eq: "p\<lparr>ps_x := x, ps_y := y, ps_sector := ps_sector p'\<rparr> = p'"
    by (simp add: p'_def walked_def)
  let ?w1 = "if ps_sector p \<noteq> ps_sector p' then erase_from_sector w ref (ps_sector p) else w"
  let ?w2 = "?w1\<lparr>players := (players ?w1)(ref \<mapsto> p')\<rparr>"
  have w3_eq: "(if ps_sector p \<noteq> ps_sector p' then insert_into_sector ?w2 p' else ?w2) = ?w3"
    using ref' by (simp add: relocate_player_def erase_from_sector_def insert_into_sector_def)
  have "world_move ord w ref x y = Inr (?w3, concat (map ?f ?rs))"
    by (simp only: world_move_def Let_def here option.case bind_result.simps sector p'_eq w3_eq
        world_inv_watchers [OF inv fits(1)] world_inv_watchers [OF inv3 fits(2)])
  moreover have box: "inbox q (concat (map ?f ?rs)) =
      (if q \<in> ?old \<union> ?new then map event_line (?f q) else [])" for q
    using rs by (subst inbox_fanout) (auto split: if_splits)
  have "inbox ref (concat (map ?f ?rs)) = [moved_line p']"
    using sees_own [OF inv here] by (subst box) (simp add: mem_visible)
  moreover have "inbox q (concat (map ?f ?rs)) = move_news w p p' q" if "q \<noteq> ref" for q
    using that by (subst box) (auto simp: mem_visible sees_relocate move_news_def)
  ultimately show ?thesis by blast
qed

lemma attack_present:
  assumes "world_inv w" and "valid_order ord" and "players w ref = Some p"
  shows "\<exists>events. world_attack ord w ref skill target = Inr (w, events) \<and>
    (\<forall>q. inbox q events = (if \<not> sees w q (ps_sector p) then []
       else if q = ref then [attack_self_line skill target] else [attack_line p skill target]))"
proof -
  let ?g = "\<lambda>r. if r = ref then attack_self_line skill target else attack_line p skill target"
  let ?rs = "ord Attack_Watchers (visible w (ps_sector p))"
  have rs: "set ?rs = visible w (ps_sector p)" "distinct ?rs"
    using world_inv_order [OF assms(1,2)] by auto
  have "world_attack ord w ref skill target =
      Inr (w, map (\<lambda>r. \<lparr>receiver = r, event_line = ?g r\<rparr>) ?rs)"
    using assms(3) world_inv_watchers [OF assms(1) world_inv_sector_fits [OF assms(1,3)]]
    by (simp add: world_attack_def)
  moreover have "inbox q (map (\<lambda>r. \<lparr>receiver = r, event_line = ?g r\<rparr>) ?rs) =
      (if \<not> sees w q (ps_sector p) then [] else [?g q])" for q
    using rs(1) by (simp add: inbox_map_fanout [OF rs(2)] mem_visible)
  ultimately show ?thesis by auto
qed

section \<open>Outcomes without the coordinate condition\<close>

definition same_grid :: "sector_world \<Rightarrow> sector_world \<Rightarrow> bool" where
  "same_grid w w' \<longleftrightarrow> sector_size w' = sector_size w \<and> view_radius w' = view_radius w"

lemma same_grid_simps [simp]:
  "same_grid w (remove_player w ref p)" "same_grid w w"
  "same_grid w (add_player w' ref p) = same_grid w w'"
  "same_grid w (relocate_player w ref p p')"
  by (simp_all add: same_grid_def remove_player_def add_player_def relocate_player_def)

lemma players_simps [simp]:
  "players (remove_player w ref p) = (players w)(ref := None)"
  "players (add_player w ref p) = (players w)(ref \<mapsto> p)"
  "players (relocate_player w ref p p') = (players w)(ref \<mapsto> p')"
  by (simp_all add: remove_player_def add_player_def relocate_player_def)

lemma coords_ok_same_grid: "same_grid w w' \<Longrightarrow> coords_ok w' x y = coords_ok w x y"
  by (simp add: same_grid_def coords_ok_def)

lemma placed_same_grid: "same_grid w w' \<Longrightarrow> placed w' = placed w"
  by (intro ext) (simp add: same_grid_def placed_def cell_at_def)

lemma move_unsafe:
  assumes "world_inv w" and "players w ref = Some p" and "in_i32 x" "in_i32 y" "\<not> coords_ok w x y"
  shows "world_move ord w ref x y = Inl Signed_Overflow"
  using assms world_inv_watchers [OF assms(1) world_inv_sector_fits [OF assms(1,2)]]
  by (simp add: world_move_def sector_for_in_range world_inv_def)

text \<open>\<open>enter\<close> as leaving, if the session has a player, and then arriving.\<close>

definition left_world :: "sector_world \<Rightarrow> session_ref \<Rightarrow> sector_world" where
  "left_world w ref = (case players w ref of None \<Rightarrow> w | Some p \<Rightarrow> remove_player w ref p)"

lemma left_world_simps [simp]:
  "players (left_world w ref) = (players w)(ref := None)"
  "same_grid w (left_world w ref)"
  by (auto simp: left_world_def split: option.splits)

lemma world_inv_left: "world_inv w \<Longrightarrow> world_inv (left_world w ref)"
  by (auto simp: left_world_def world_inv_remove split: option.splits)

lemma sees_left: "sees (left_world w ref) q c \<longleftrightarrow> q \<noteq> ref \<and> sees w q c"
proof (cases "players w ref")
  case None
  then show ?thesis by (auto simp: left_world_def sees_def split: option.splits)
next
  case (Some p)
  then show ?thesis by (simp add: left_world_def sees_remove)
qed

definition leave_news :: "sector_world \<Rightarrow> session_ref \<Rightarrow> session_ref \<Rightarrow> string list" where
  "leave_news w ref q = (case players w ref of None \<Rightarrow> []
     | Some p \<Rightarrow> if q \<noteq> ref \<and> sees w q (ps_sector p) then [despawn_line p ''leave''] else [])"

lemma leave_any:
  assumes "world_inv w" and "valid_order ord"
  shows "\<exists>events. world_leave ord w ref snap = Inr (left_world w ref, events,
      (case players w ref of None \<Rightarrow> snap | Some p \<Rightarrow> snapshot_of p)) \<and>
    (\<forall>q. inbox q events = leave_news w ref q)"
proof (cases "players w ref")
  case None
  then show ?thesis by (simp add: leave_absent left_world_def leave_news_def)
next
  case (Some p)
  from leave_present [OF assms Some, of snap] show ?thesis
    by (auto simp: left_world_def leave_news_def Some)
qed

lemma enter_any:
  fixes account character :: string and ref :: session_ref
  assumes inv: "world_inv w" and ord: "valid_order ord" and coords: "coords_ok w x y"
  defines "w' \<equiv> add_player (left_world w ref) ref (placed w ref account character x y)"
    and "c \<equiv> cell_at w x y"
  shows "\<exists>events. world_enter ord w ref account character x y = Inr (w', events) \<and> world_inv w' \<and>
    (\<forall>q. q \<noteq> ref \<longrightarrow> inbox q events = leave_news w ref q @
       (if sees w q c then [enter_line (placed w ref account character x y)] else [])) \<and>
    (\<exists>others. distinct others \<and> set others = {q. q \<noteq> ref \<and> sees w q c} \<and>
       inbox ref events =
         entered_line (placed w ref account character x y) # snapshot_lines w others)"
proof -
  let ?w1 = "left_world w ref"
  let ?p = "placed w ref account character x y"
  have inv1: "world_inv ?w1" using inv by (rule world_inv_left)
  have grid: "coords_ok ?w1 x y" "placed ?w1 = placed w"
    using coords by (simp_all add: coords_ok_same_grid [of w "left_world w ref"] placed_same_grid [of w "left_world w ref"])
  obtain events0 snap where leave: "world_leave ord w ref no_snapshot = Inr (?w1, events0, snap)"
      and in0: "\<forall>q. inbox q events0 = leave_news w ref q"
    using leave_any [OF inv ord, of ref no_snapshot] by blast
  have absent: "players ?w1 ref = None" by simp
  obtain events others where
      ent: "world_enter ord w ref account character x y = Inr (w', events0 @ events)"
      and oth: "\<forall>q. q \<noteq> ref \<longrightarrow> inbox q events = (if sees ?w1 q c then [enter_line ?p] else [])"
      and dist: "distinct others" and set: "set others = {q. q \<noteq> ref \<and> sees ?w1 q c}"
      and mine: "inbox ref events = entered_line ?p # snapshot_lines ?w1 others"
    using enter_after_leave [OF inv1 ord absent grid(1) leave, of account character]
    unfolding w'_def c_def grid(2) sector_placed by blast
  have set': "set others = {q. q \<noteq> ref \<and> sees w q c}" using set by (simp add: sees_left)
  have "snapshot_lines ?w1 others = snapshot_lines w others"
  proof -
    have "ref \<notin> set others" using set by simp
    then show ?thesis by (induction others) (auto simp: snapshot_lines_def)
  qed
  then have mine': "inbox ref (events0 @ events) = entered_line ?p # snapshot_lines w others"
    using mine by (simp add: in0 leave_news_def split: option.splits)
  have oth': "inbox q (events0 @ events) =
      leave_news w ref q @ (if sees w q c then [enter_line ?p] else [])" if "q \<noteq> ref" for q
    using oth that by (simp add: in0 sees_left)
  have "player_ok ?w1 ref ?p"
    using player_ok_placed [OF grid(1)] by (simp add: grid(2))
  then have inv': "world_inv w'"
    unfolding w'_def using inv1 absent by (intro world_inv_add)
  show ?thesis using ent inv' oth' dist set' mine' by blast
qed

lemma enter_unsafe:
  assumes "world_inv w" and "valid_order ord" and "in_i32 x" "in_i32 y" "\<not> coords_ok w x y"
  shows "world_enter ord w ref account character x y = Inl Signed_Overflow"
proof -
  obtain events snap where "world_leave ord w ref no_snapshot = Inr (left_world w ref, events, snap)"
    using leave_any [OF assms(1,2), of ref no_snapshot] by blast
  moreover have "sector_for (left_world w ref) x y = Inl Signed_Overflow"
    using assms world_inv_left [OF assms(1), of ref]
    by (simp add: sector_for_in_range world_inv_def coords_ok_same_grid [of w "left_world w ref"])
  ultimately show ?thesis by (simp add: world_enter_def)
qed

text \<open>The facts the server uses: who is in the world afterwards.\<close>

lemma ensures_world_enter:
  assumes "world_inv w" and "valid_order ord" and "in_i32 x" "in_i32 y"
  shows "ensures (world_enter ord w ref account character x y)
    (\<lambda>(w', events). world_inv w' \<and> dom (players w') = insert ref (dom (players w)))"
proof (cases "coords_ok w x y")
  case True
  then show ?thesis
    using enter_any [OF assms(1,2), of x y ref account character] by (auto split: if_splits)
next
  case False
  then show ?thesis using assms by (simp add: enter_unsafe)
qed

lemma ensures_world_move:
  assumes "world_inv w" and "valid_order ord" and "in_i32 x" "in_i32 y"
  shows "ensures (world_move ord w ref x y)
    (\<lambda>(w', events). world_inv w' \<and> dom (players w') = dom (players w))"
proof (cases "players w ref")
  case None
  then show ?thesis using assms(1) by (simp add: world_move_def)
next
  case (Some p)
  show ?thesis
  proof (cases "coords_ok w x y")
    case True
    moreover have "player_ok w ref (walked w p x y)"
      using world_inv_player [OF assms(1) Some] True by (rule player_ok_walked)
    ultimately show ?thesis
      using move_present [OF assms(1,2) Some, of x y] world_inv_relocate [OF assms(1) Some] Some
      by auto
  next
    case False
    then show ?thesis using assms Some by (simp add: move_unsafe)
  qed
qed

lemma ensures_world_leave:
  assumes "world_inv w" and "valid_order ord"
  shows "ensures (world_leave ord w ref snap)
    (\<lambda>(w', events, _). world_inv w' \<and> dom (players w') = dom (players w) - {ref})"
  using leave_any [OF assms, of ref snap] world_inv_left [OF assms(1), of ref] by auto

lemma ensures_world_attack:
  assumes "world_inv w" and "valid_order ord"
  shows "ensures (world_attack ord w ref skill target) (\<lambda>(w', events). w' = w)"
proof (cases "players w ref")
  case None
  then show ?thesis by (simp add: world_attack_def)
next
  case (Some p)
  then show ?thesis using attack_present [OF assms Some, of skill target] by auto
qed

end
