(* ===== verification/World_Properties.thy ===== *)
theory World_Properties
  imports World
begin

text \<open>
  The properties of the world: the sector arithmetic, the watchers of a sector, what each
  operation changes and what every session receives, whether the events keep a client's picture
  of who is near up to date, and the coordinates at which the arithmetic overflows.
\<close>

section \<open>A small world for the witnesses\<close>

definition empty_world :: sector_world where
  "empty_world = \<lparr>sector_size = 100, view_radius = 1, players = Map.empty, sectors = Map.empty\<rparr>"

definition ref_a :: session_ref where "ref_a = \<lparr>sr_fd = 5, sr_generation = 1\<rparr>"
definition ref_b :: session_ref where "ref_b = \<lparr>sr_fd = 6, sr_generation = 2\<rparr>"

definition hero_a :: player_state where
  "hero_a = placed empty_world ref_a ''acct_a'' ''Hero1'' 0 0"

definition hero_b :: player_state where
  "hero_b = placed empty_world ref_b ''acct_b'' ''Hero2'' 1000 1000"

definition demo_world :: sector_world where
  "demo_world = add_player (add_player empty_world ref_a hero_a) ref_b hero_b"

lemma world_inv_empty: "world_inv empty_world"
  by (simp add: world_inv_def empty_world_def params_ok_def index_agrees_def sector_members_def
      positions_def no_empty_sector_def INT_MAX_def)

lemma refs_distinct [simp]: "ref_a \<noteq> ref_b" "ref_b \<noteq> ref_a"
  by (simp_all add: ref_a_def ref_b_def)

lemma demo_players [simp]:
  "players demo_world ref_a = Some hero_a" "players demo_world ref_b = Some hero_b"
  by (simp_all add: demo_world_def)

lemma demo_grid: "sector_size demo_world = 100" "view_radius demo_world = 1"
  by (simp_all add: demo_world_def add_player_def empty_world_def)

lemma world_inv_demo: "world_inv demo_world"
proof -
  have "player_ok empty_world ref_a hero_a" "player_ok (add_player empty_world ref_a hero_a) ref_b hero_b"
    by (simp_all add: player_ok_def hero_a_def hero_b_def placed_def coords_ok_def safe_coord_def
        i32_simps empty_world_def cell_at_def add_player_def)
  moreover have "players empty_world = Map.empty" by (simp add: empty_world_def)
  ultimately show ?thesis
    unfolding demo_world_def by (intro world_inv_add world_inv_empty) auto
qed

lemma demo_sectors: "ps_sector hero_a = \<lparr>sc_x = 0, sc_y = 0\<rparr>" "ps_sector hero_b = \<lparr>sc_x = 10, sc_y = 10\<rparr>"
  by (simp_all add: hero_a_def hero_b_def placed_def cell_at_def empty_world_def)

lemma demo_safe: "coords_ok demo_world 50 60"
  by (simp add: coords_ok_def safe_coord_def demo_grid i32_simps)

section \<open>Sectors\<close>

text \<open>
  C29. The sector arithmetic. For any two values of a C++ int, \<open>floor_div\<close> throws for a divisor
  that is not positive, overflows exactly for the values less than \<open>divisor - INT_MAX\<close> (the last
  \<open>divisor\<close> values before \<open>INT_MIN\<close>), and otherwise returns the quotient rounded towards minus
  infinity, so that sectors have the same size on both sides of the origin.
\<close>
theorem floor_div_correct:
  assumes "in_i32 value" and "in_i32 divisor"
  shows "floor_div value divisor =
    (if divisor \<le> 0 then Inl (Exn (Runtime_Error ''sector size must be positive''))
     else if value < divisor - INT_MAX then Inl Signed_Overflow
     else Inr (value div divisor))"
  using assms by (auto simp: floor_div_in_range safe_coord_def)

lemma floor_div_correct_witness:
  "floor_div (-1) 100 = Inr (-1) \<and> floor_div (-2147483600) 100 = Inl Signed_Overflow"
  using floor_div_correct [of "-1" 100] floor_div_correct [of "-2147483600" 100]
  by (simp add: i32_simps)

text \<open>
  C30. Interest management is exact: under the invariant of the world the double loop over the
  neighbouring sectors finds precisely the sessions whose player stands within the view radius,
  measured in sectors on both axes.
\<close>
theorem watchers_around_exact:
  assumes "world_inv w" and "players w ref = Some p"
  shows "watchers_around w (ps_sector p) = Inr {q. \<exists>n. players w q = Some n \<and>
    \<bar>ps_x n div sector_size w - ps_x p div sector_size w\<bar> \<le> view_radius w \<and>
    \<bar>ps_y n div sector_size w - ps_y p div sector_size w\<bar> \<le> view_radius w}"
proof -
  have "watchers_around w (ps_sector p) = Inr (visible w (ps_sector p))"
    using assms world_inv_watchers world_inv_sector_fits by blast
  moreover have "ps_sector n = cell_at w (ps_x n) (ps_y n)" if "players w q = Some n" for q n
    using world_inv_player [OF assms(1) that] by (simp add: player_ok_def)
  ultimately show ?thesis
    using assms(2) by (auto simp: visible_def sees_def near_def cell_at_def split: option.splits)
qed

lemma watchers_around_exact_witness:
  "watchers_around demo_world (ps_sector hero_a) = Inr {ref_a}"
proof -
  have "{q. \<exists>n. players demo_world q = Some n \<and>
      \<bar>ps_x n div 100 - ps_x hero_a div 100\<bar> \<le> 1 \<and> \<bar>ps_y n div 100 - ps_y hero_a div 100\<bar> \<le> 1} = {ref_a}"
    by (auto simp: demo_world_def hero_a_def hero_b_def placed_def empty_world_def split: if_splits)
  then show ?thesis
    using watchers_around_exact [OF world_inv_demo, of ref_a hero_a] by (simp add: demo_grid)
qed

section \<open>The operations\<close>

text \<open>
  C31. \<open>enter\<close>. Any session may enter at safe coordinates, also one that is already in the world. The
  player stands at the new place, the index stays consistent, and every session receives exactly
  this: those that saw the old place a despawn, those that see the new place an enter event, and the
  entering session its confirmation followed by one snapshot of each player in sight.
\<close>
theorem world_enter_correct:
  assumes "world_inv w" and "valid_order ord" and "coords_ok w x y"
  shows "let p = placed w ref account character x y in
    returns (world_enter ord w ref account character x y) (\<lambda>(w', events).
      world_inv w' \<and> players w' = (players w)(ref \<mapsto> p) \<and>
      (\<forall>q. q \<noteq> ref \<longrightarrow> inbox q events =
         leave_news w ref q @ (if sees w q (ps_sector p) then [enter_line p] else [])) \<and>
      (\<exists>others. distinct others \<and> set others = {q. q \<noteq> ref \<and> sees w q (ps_sector p)} \<and>
         inbox ref events = entered_line p # snapshot_lines w others))"
  using enter_any [OF assms(1-3), of ref account character]
  by (auto simp: Let_def returns_iff sector_placed)

lemma world_enter_correct_witness:
  "returns (world_enter sorted_order demo_world ref_b ''acct_b'' ''Hero2'' 50 60) (\<lambda>(w', events).
     inbox ref_a events = [''EVT ENTER Hero2 account=acct_b x=50 y=60 sector=0,0''])"
proof -
  have "returns (world_enter sorted_order demo_world ref_b ''acct_b'' ''Hero2'' 50 60) (\<lambda>(w', events).
      inbox ref_a events = leave_news demo_world ref_b ref_a @
        (if sees demo_world ref_a (cell_at demo_world 50 60)
         then [enter_line (placed demo_world ref_b ''acct_b'' ''Hero2'' 50 60)] else []))"
    using world_enter_correct [OF world_inv_demo valid_sorted_order demo_safe,
        of ref_b "''acct_b''" "''Hero2''"]
    by (auto simp: Let_def returns_iff sector_placed)
  moreover have "leave_news demo_world ref_b ref_a = []"
    "sees demo_world ref_a (cell_at demo_world 50 60)"
    by (simp_all add: leave_news_def sees_def near_def demo_sectors demo_grid cell_at_def)
  moreover have "enter_line (placed demo_world ref_b ''acct_b'' ''Hero2'' 50 60) =
      ''EVT ENTER Hero2 account=acct_b x=50 y=60 sector=0,0''"
    by (simp add: enter_line_def placed_def cell_at_def demo_grid position_text_def
        sector_string_def to_string_int_def dec_nat.simps)
  ultimately show ?thesis by (auto simp: returns_iff)
qed

text \<open>
  C32. \<open>move\<close>. A player in the world that moves to safe coordinates is relocated and nothing else
  changes; its session gets the confirmation alone, and every other session exactly one event if it
  sees the old or the new place: a move if both, an enter if only the new, a despawn if only the old.
\<close>
theorem world_move_correct:
  assumes "world_inv w" and "valid_order ord" and "players w ref = Some p" and "coords_ok w x y"
  shows "let p' = walked w p x y in returns (world_move ord w ref x y) (\<lambda>(w', events).
    world_inv w' \<and> players w' = (players w)(ref \<mapsto> p') \<and>
    inbox ref events = [moved_line p'] \<and>
    (\<forall>q. q \<noteq> ref \<longrightarrow> inbox q events =
      (case (sees w q (ps_sector p), sees w q (ps_sector p')) of
         (True, True) \<Rightarrow> [move_line p']
       | (False, True) \<Rightarrow> [enter_line p']
       | (True, False) \<Rightarrow> [despawn_line p' ''sector_out'']
       | (False, False) \<Rightarrow> [])))"
proof -
  have "player_ok w ref (walked w p x y)"
    using world_inv_player [OF assms(1,3)] assms(4) by (rule player_ok_walked)
  then have "world_inv (relocate_player w ref p (walked w p x y))"
    using assms(1,3) by (intro world_inv_relocate)
  then show ?thesis
    using move_present [OF assms(1-4)]
    by (auto simp: Let_def returns_iff move_news_def split: bool.splits)
qed

lemma world_move_correct_witness:
  "returns (world_move sorted_order demo_world ref_b 50 60) (\<lambda>(w', events).
     inbox ref_b events = [''WORLD MOVED Hero2 x=50 y=60 sector=0,0''])"
proof -
  have "moved_line (walked demo_world hero_b 50 60) = ''WORLD MOVED Hero2 x=50 y=60 sector=0,0''"
    by (simp add: moved_line_def walked_def hero_b_def placed_def cell_at_def demo_grid
        position_text_def sector_string_def to_string_int_def dec_nat.simps)
  then show ?thesis
    using world_move_correct [OF world_inv_demo valid_sorted_order demo_players(2) demo_safe]
    by (auto simp: Let_def returns_iff)
qed

text \<open>
  C33. \<open>leave\<close> removes the player of the session, hands back its last position for saving and sends one
  despawn to every other session that saw it; \<open>attack\<close> changes nothing and reaches exactly the
  sessions that see the attacker, the attacker itself with its own confirmation.
\<close>
theorem world_leave_attack_correct:
  assumes "world_inv w" and "valid_order ord" and "players w ref = Some p"
  shows "returns (world_leave ord w ref snap) (\<lambda>(w', events, snapshot).
      world_inv w' \<and> players w' = (players w)(ref := None) \<and>
      snapshot = \<lparr>snap_account = ps_account p, snap_character = ps_character p,
                  snap_x = ps_x p, snap_y = ps_y p\<rparr> \<and>
      (\<forall>q. inbox q events =
         (if q \<noteq> ref \<and> sees w q (ps_sector p) then [despawn_line p ''leave''] else []))) \<and>
    returns (world_attack ord w ref skill target) (\<lambda>(w', events).
      w' = w \<and> inbox ref events = [attack_self_line skill target] \<and>
      (\<forall>q. q \<noteq> ref \<longrightarrow> inbox q events =
         (if sees w q (ps_sector p) then [attack_line p skill target] else [])))"
  using leave_present [OF assms, of snap] world_inv_remove [OF assms(1,3)]
    attack_present [OF assms, of skill target] sees_own [OF assms(1,3)]
  by (auto simp: returns_iff snapshot_of_def)

lemma world_leave_attack_correct_witness:
  "returns (world_leave sorted_order demo_world ref_a no_snapshot) (\<lambda>(w', events, snapshot).
     players w' ref_a = None \<and> snap_account snapshot = ''acct_a'' \<and> inbox ref_b events = [])"
proof -
  have "\<not> sees demo_world ref_b (ps_sector hero_a)" "ps_account hero_a = ''acct_a''"
    by (simp_all add: sees_def near_def demo_sectors demo_grid) (simp add: hero_a_def placed_def)
  then show ?thesis
    using world_leave_attack_correct [OF world_inv_demo valid_sorted_order demo_players(1),
        of no_snapshot "''slash''" "''goblin_01''"]
    by (auto simp: returns_iff)
qed

section \<open>The picture a client has of its neighbours\<close>

text \<open>
  A client learns of another player from the text of the events: \<open>EVT ENTER\<close> and \<open>EVT SNAPSHOT\<close>
  make it visible, \<open>EVT DESPAWN\<close> removes it. \<open>in_sight w p q\<close> is the truth.
\<close>

definition starts_with :: "string \<Rightarrow> string \<Rightarrow> bool" where
  "starts_with prefix line \<longleftrightarrow> take (length prefix) line = prefix"

definition hears :: "bool \<Rightarrow> string \<Rightarrow> bool" where
  "hears known line =
     (if starts_with ''EVT ENTER '' line \<or> starts_with ''EVT SNAPSHOT '' line then True
      else if starts_with ''EVT DESPAWN '' line then False else known)"

definition mirror :: "bool \<Rightarrow> string list \<Rightarrow> bool" where
  "mirror known lines = foldl hears known lines"

definition in_sight :: "sector_world \<Rightarrow> session_ref \<Rightarrow> session_ref \<Rightarrow> bool" where
  "in_sight w p q = (case players w p of None \<Rightarrow> False | Some s \<Rightarrow> sees w q (ps_sector s))"

lemma hears_lines [simp]:
  "hears k (enter_line p)" "hears k (snapshot_line p)" "\<not> hears k (despawn_line p r)"
  "hears k (move_line p) = k" "hears k (moved_line p) = k"
  "hears k (entered_line p) = k" "hears k not_in_world_line = k"
  by (simp_all add: hears_def starts_with_def enter_line_def snapshot_line_def despawn_line_def
      move_line_def moved_line_def entered_line_def not_in_world_line_def)

lemma in_sight_after_add:
  "q \<noteq> ref \<Longrightarrow> in_sight (add_player w ref p) ref q = sees w q (ps_sector p)"
  by (simp add: in_sight_def sees_add)

lemma mirror_simps [simp]:
  "mirror k [] = k" "mirror k (l # ls) = mirror (hears k l) ls"
  "mirror k (xs @ ys) = mirror (mirror k xs) ys"
  by (simp_all add: mirror_def)

lemma mirror_leave_news: "q \<noteq> ref \<Longrightarrow> \<not> mirror (in_sight w ref q) (leave_news w ref q)"
  by (auto simp: in_sight_def leave_news_def split: option.splits)

text \<open>
  C34. Every bystander stays in sync. Whatever session \<open>ref\<close> does (enter, move or leave), the lines
  another session \<open>q\<close> receives turn its knowledge of whether \<open>ref\<close> is in sight before the operation into
  whether it is in sight afterwards.
\<close>
theorem bystander_stays_in_sync:
  assumes "world_inv w" and "valid_order ord" and "coords_ok w x y" and "q \<noteq> ref"
  shows "returns (world_enter ord w ref account character x y) (\<lambda>(w', events).
      mirror (in_sight w ref q) (inbox q events) = in_sight w' ref q) \<and>
    returns (world_move ord w ref x y) (\<lambda>(w', events).
      mirror (in_sight w ref q) (inbox q events) = in_sight w' ref q) \<and>
    returns (world_leave ord w ref snap) (\<lambda>(w', events, _).
      mirror (in_sight w ref q) (inbox q events) = in_sight w' ref q)"
proof (intro conjI)
  show "returns (world_enter ord w ref account character x y) (\<lambda>(w', events).
      mirror (in_sight w ref q) (inbox q events) = in_sight w' ref q)"
  proof -
    obtain events where "world_enter ord w ref account character x y =
          Inr (add_player (left_world w ref) ref (placed w ref account character x y), events)"
        and "inbox q events = leave_news w ref q @ (if sees w q (cell_at w x y)
          then [enter_line (placed w ref account character x y)] else [])"
      using enter_any [OF assms(1-3), of ref account character] assms(4) by blast
    then show ?thesis using assms(4)
      by (simp add: in_sight_after_add sees_left sector_placed mirror_leave_news)
  qed
  show "returns (world_leave ord w ref snap) (\<lambda>(w', events, _).
      mirror (in_sight w ref q) (inbox q events) = in_sight w' ref q)"
    using leave_any [OF assms(1,2), of ref snap] assms(4)
    by (auto simp: returns_iff in_sight_def leave_news_def split: option.splits)
  show "returns (world_move ord w ref x y) (\<lambda>(w', events).
      mirror (in_sight w ref q) (inbox q events) = in_sight w' ref q)"
  proof (cases "players w ref")
    case None
    then show ?thesis using assms(4) by (simp add: world_move_def in_sight_def)
  next
    case (Some p)
    from move_present [OF assms(1,2) Some assms(3)] show ?thesis
      using assms(4) Some by (auto simp: returns_iff in_sight_def move_news_def sees_relocate)
  qed
qed

lemma bystander_stays_in_sync_witness:
  "returns (world_move sorted_order demo_world ref_b 50 60) (\<lambda>(w', events).
     mirror (in_sight demo_world ref_b ref_a) (inbox ref_a events) = in_sight w' ref_b ref_a)"
  using bystander_stays_in_sync [OF world_inv_demo valid_sorted_order demo_safe, of ref_a ref_b]
  by simp

text \<open>
  C35. The player that moves does not. When a move brings another player into sight, the moving
  session receives no event about it: its picture still says that the other is not there, although
  each now sees the other. Only \<open>enter\<close> sends snapshots.
\<close>
theorem mover_is_not_told:
  assumes "world_inv w" and "valid_order ord" and "coords_ok w x y"
    and "players w ref = Some p" and "players w q = Some other" and "q \<noteq> ref"
    and "near (view_radius w) (cell_at w x y) (ps_sector other)"
  shows "returns (world_move ord w ref x y) (\<lambda>(w', events).
    in_sight w' q ref \<and> in_sight w' ref q \<and> \<not> mirror False (inbox ref events))"
  using move_present [OF assms(1,2,4,3)] assms(4-7)
  by (auto simp: returns_iff in_sight_def sees_relocate walked_def near_sym) (auto simp: sees_def near_sym)

lemma mover_is_not_told_witness:
  "returns (world_move sorted_order demo_world ref_b 50 60) (\<lambda>(w', events).
     in_sight w' ref_a ref_b \<and> in_sight w' ref_b ref_a \<and> \<not> mirror False (inbox ref_b events))"
  using mover_is_not_told [OF world_inv_demo valid_sorted_order demo_safe demo_players(2,1)]
  by (simp add: near_def cell_at_def demo_grid demo_sectors)

text \<open>
  C36. When a world operation is safe. With coordinates that are C++ ints, \<open>enter\<close> and \<open>move\<close> of a
  player in the world run into signed overflow exactly when a coordinate lies closer than one sector
  size to \<open>INT_MIN\<close>; the parser accepts such coordinates.
\<close>
theorem world_overflow_iff:
  assumes "world_inv w" and "valid_order ord" and "in_i32 x" and "in_i32 y"
    and "players w ref = Some p"
  shows "(world_move ord w ref x y = Inl Signed_Overflow \<longleftrightarrow>
      x < sector_size w - INT_MAX \<or> y < sector_size w - INT_MAX) \<and>
    (world_enter ord w ref account character x y = Inl Signed_Overflow \<longleftrightarrow>
      x < sector_size w - INT_MAX \<or> y < sector_size w - INT_MAX)"
proof -
  have "coords_ok w x y \<longleftrightarrow> \<not> (x < sector_size w - INT_MAX \<or> y < sector_size w - INT_MAX)"
    using assms(3,4) by (auto simp: coords_ok_def safe_coord_def)
  then show ?thesis
    using move_unsafe [OF assms(1,5,3,4), of ord] enter_unsafe [OF assms(1-4), of ref account character]
      move_present [OF assms(1,2,5), of x y] enter_any [OF assms(1,2), of x y ref account character]
    by auto
qed

lemma world_overflow_iff_witness:
  "world_move sorted_order demo_world ref_a (-2147483648) 0 = Inl Signed_Overflow"
  using world_overflow_iff [OF world_inv_demo valid_sorted_order _ _ demo_players(1),
      of "-2147483648" 0]
  by (simp add: demo_grid i32_simps)

end
