(* ===== verification/Protocol.thy ===== *)
theory Protocol
  imports Prelude
begin

text \<open>
  The line protocol (include/portfolio/protocol.h, src/protocol.cpp): the command types, a
  request, and \<open>parse_line\<close>. Stream extraction \<open>input >> token\<close> is \<open>stream_extract\<close>: skip white
  space, fail at the end, else read the longest run of non-space bytes.

  \<open>valid_request\<close> is the contract the rest of the server relies on: the arity of each command and
  the numeral arguments. The lemmas show that \<open>parse_line\<close> accepts exactly the lines whose tokens
  form a valid request, and that a valid request printed as a line parses back to itself.
\<close>

section \<open>Data\<close>

datatype command_type =
    KRegister
  | KLogin
  | KSaveCharacter
  | KLoadCharacters
  | KEnterWorld
  | KMove
  | KAttack
  | KSaveInventoryItem
  | KLoadInventory
  | KQuit
  | KUnknown

record request =
  req_type :: command_type
  req_command_name :: string
  req_args :: "string list"

record parse_result =
  ok :: bool
  parsed_request :: request
  parse_message :: string

definition default_request :: request where
  "default_request = \<lparr>req_type = KUnknown, req_command_name = '''', req_args = []\<rparr>"

section \<open>Helpers of the parser\<close>

definition upper :: "string \<Rightarrow> string" where
  "upper value = map to_upper value"

definition is_unsigned_number :: "string \<Rightarrow> bool" where
  "is_unsigned_number value \<longleftrightarrow> value \<noteq> [] \<and> list_all is_digit value"

definition is_signed_number :: "string \<Rightarrow> bool" where
  "is_signed_number value =
     (if value = [] then False
      else (let start = (if hd value = CHR ''-'' then 1 else 0)
            in start < length value \<and> list_all is_digit (drop start value)))"

definition parse_error :: "string \<Rightarrow> parse_result" where
  "parse_error message = \<lparr>ok = False, parsed_request = default_request, parse_message = message\<rparr>"

definition parse_ok :: "command_type \<Rightarrow> string \<Rightarrow> string list \<Rightarrow> parse_result" where
  "parse_ok type command_name args =
     \<lparr>ok = True,
      parsed_request = \<lparr>req_type = type, req_command_name = command_name, req_args = args\<rparr>,
      parse_message = ''''\<rparr>"

definition stream_extract :: "string \<Rightarrow> (string \<times> string) option" where
  "stream_extract input = (case dropWhile is_space input of
       [] \<Rightarrow> None
     | c # cs \<Rightarrow> Some (takeWhile (\<lambda>d. \<not> is_space d) (c # cs),
                      dropWhile (\<lambda>d. \<not> is_space d) (c # cs)))"

lemma extract_shrinks: "stream_extract input = Some (token, rest) \<Longrightarrow> length rest < length input"
proof -
  assume ex: "stream_extract input = Some (token, rest)"
  then obtain c cs where d: "dropWhile is_space input = c # cs"
    and r: "rest = dropWhile (\<lambda>d. \<not> is_space d) (c # cs)"
    by (auto simp: stream_extract_def split: list.splits)
  have "\<not> is_space c" using d by (metis dropWhile_eq_Cons_conv)
  then have "length rest \<le> length cs" using r by (simp add: length_dropWhile_le)
  also have "length cs < length input"
    using length_dropWhile_le [of is_space input] d by simp
  finally show ?thesis .
qed

text \<open>The loop \<open>while (input >> token) args.push_back(token)\<close>.\<close>

function read_tokens :: "string \<Rightarrow> string list" where
  "read_tokens input = (case stream_extract input of
       None \<Rightarrow> []
     | Some (token, rest) \<Rightarrow> token # read_tokens rest)"
  by pat_completeness auto
termination
  by (relation "measure length") (auto dest: extract_shrinks)

declare read_tokens.simps [simp del]

section \<open>parse_line\<close>

definition strip_cr :: "string \<Rightarrow> string" where
  "strip_cr original_line =
     (if original_line \<noteq> [] \<and> last original_line = CHR 0x0D then butlast original_line
      else original_line)"

text \<open>The chain of comparisons on the normalized command.\<close>

definition parse_command :: "string \<Rightarrow> string list \<Rightarrow> parse_result" where
  "parse_command command args =
    (let normalized = upper command in
     if normalized = ''REGISTER'' then
       (if length args \<noteq> 2 then parse_error ''usage: REGISTER <account> <display_name>''
        else parse_ok KRegister normalized args)
     else if normalized = ''LOGIN'' then
       (if length args \<noteq> 1 then parse_error ''usage: LOGIN <account>''
        else parse_ok KLogin normalized args)
     else if normalized = ''SAVE'' then
       (if length args \<noteq> 4 then parse_error ''usage: SAVE <account> <character> <level> <gold>''
        else if \<not> is_unsigned_number (args ! 2) \<or> \<not> is_unsigned_number (args ! 3)
        then parse_error ''level and gold must be unsigned integers''
        else parse_ok KSaveCharacter normalized args)
     else if normalized = ''LOAD'' then
       (if length args \<noteq> 1 then parse_error ''usage: LOAD <account>''
        else parse_ok KLoadCharacters normalized args)
     else if normalized = ''ENTER'' then
       (if length args \<noteq> 4 then parse_error ''usage: ENTER <account> <character> <x> <y>''
        else if \<not> is_signed_number (args ! 2) \<or> \<not> is_signed_number (args ! 3)
        then parse_error ''x and y must be signed integers''
        else parse_ok KEnterWorld normalized args)
     else if normalized = ''MOVE'' then
       (if length args \<noteq> 2 then parse_error ''usage: MOVE <x> <y>''
        else if \<not> is_signed_number (args ! 0) \<or> \<not> is_signed_number (args ! 1)
        then parse_error ''x and y must be signed integers''
        else parse_ok KMove normalized args)
     else if normalized = ''ATTACK'' then
       (if length args \<noteq> 2 then parse_error ''usage: ATTACK <skill> <target>''
        else parse_ok KAttack normalized args)
     else if normalized = ''SAVE_ITEM'' then
       (if length args \<noteq> 4 then parse_error ''usage: SAVE_ITEM <account> <slot> <item_id> <count>''
        else if \<not> is_unsigned_number (args ! 1) \<or> \<not> is_unsigned_number (args ! 2) \<or>
                \<not> is_unsigned_number (args ! 3)
        then parse_error ''slot, item_id, and count must be unsigned integers''
        else parse_ok KSaveInventoryItem normalized args)
     else if normalized = ''LOAD_INVENTORY'' then
       (if length args \<noteq> 1 then parse_error ''usage: LOAD_INVENTORY <account>''
        else parse_ok KLoadInventory normalized args)
     else if normalized = ''QUIT'' then
       (if args \<noteq> [] then parse_error ''usage: QUIT''
        else parse_ok KQuit normalized [])
     else parse_error (''unknown command: '' @ command))"

definition parse_line :: "string \<Rightarrow> parse_result" where
  "parse_line original_line =
    (case stream_extract (strip_cr original_line) of
       None \<Rightarrow> parse_error ''empty command''
     | Some (command, rest) \<Rightarrow> parse_command command (read_tokens rest))"

section \<open>The contract of a parsed request\<close>

text \<open>The command word of each type, and the arguments it promises.\<close>

fun keyword :: "command_type \<Rightarrow> string" where
  "keyword KRegister = ''REGISTER''"
| "keyword KLogin = ''LOGIN''"
| "keyword KSaveCharacter = ''SAVE''"
| "keyword KLoadCharacters = ''LOAD''"
| "keyword KEnterWorld = ''ENTER''"
| "keyword KMove = ''MOVE''"
| "keyword KAttack = ''ATTACK''"
| "keyword KSaveInventoryItem = ''SAVE_ITEM''"
| "keyword KLoadInventory = ''LOAD_INVENTORY''"
| "keyword KQuit = ''QUIT''"
| "keyword KUnknown = ''''"

fun args_allowed :: "command_type \<Rightarrow> string list \<Rightarrow> bool" where
  "args_allowed KRegister [account, display_name] = True"
| "args_allowed KLogin [account] = True"
| "args_allowed KSaveCharacter [account, character, level, gold] =
     (is_unsigned_number level \<and> is_unsigned_number gold)"
| "args_allowed KLoadCharacters [account] = True"
| "args_allowed KEnterWorld [account, character, x, y] = (is_signed_number x \<and> is_signed_number y)"
| "args_allowed KMove [x, y] = (is_signed_number x \<and> is_signed_number y)"
| "args_allowed KAttack [skill, target] = True"
| "args_allowed KSaveInventoryItem [account, slot, item_id, count] =
     (is_unsigned_number slot \<and> is_unsigned_number item_id \<and> is_unsigned_number count)"
| "args_allowed KLoadInventory [account] = True"
| "args_allowed KQuit [] = True"
| "args_allowed _ _ = False"

text \<open>A token is what extraction can yield: not empty and free of white space.\<close>

definition is_token :: "string \<Rightarrow> bool" where
  "is_token t \<longleftrightarrow> t \<noteq> [] \<and> (\<forall>c \<in> set t. \<not> is_space c)"

definition valid_request :: "request \<Rightarrow> bool" where
  "valid_request r \<longleftrightarrow>
     req_type r \<noteq> KUnknown \<and> req_command_name r = keyword (req_type r) \<and>
     args_allowed (req_type r) (req_args r) \<and> (\<forall>a \<in> set (req_args r). is_token a)"

text \<open>A request written as a line, the arguments separated by single spaces.\<close>

definition print_request :: "request \<Rightarrow> string" where
  "print_request r = req_command_name r @ concat (map (\<lambda>a. CHR '' '' # a) (req_args r))"

section \<open>Lemmas on extraction\<close>

lemma extract_token:
  assumes "stream_extract input = Some (token, rest)"
  shows "is_token token"
proof -
  from assms obtain c cs where d: "dropWhile is_space input = c # cs"
    and t: "token = takeWhile (\<lambda>d. \<not> is_space d) (c # cs)"
    by (auto simp: stream_extract_def split: list.splits)
  from d have "\<not> is_space c" by (metis dropWhile_eq_Cons_conv)
  with t show ?thesis by (auto simp: is_token_def dest: set_takeWhileD)
qed

lemma read_tokens_are_tokens: "t \<in> set (read_tokens input) \<Longrightarrow> is_token t"
proof (induction input rule: read_tokens.induct)
  case (1 input)
  show ?case
  proof (cases "stream_extract input")
    case None
    with "1.prems" show ?thesis by (simp add: read_tokens.simps [of input])
  next
    case (Some p)
    then obtain token rest where ex: "stream_extract input = Some (token, rest)"
      by (cases p) auto
    with "1.prems" have "t = token \<or> t \<in> set (read_tokens rest)"
      by (simp add: read_tokens.simps [of input])
    then show ?thesis using "1.IH" [OF ex refl] extract_token [OF ex] by auto
  qed
qed

lemma extract_space: "is_space c \<Longrightarrow> stream_extract (c # input) = stream_extract input"
  by (simp add: stream_extract_def)

lemma read_tokens_space: "is_space c \<Longrightarrow> read_tokens (c # input) = read_tokens input"
  by (subst (1 2) read_tokens.simps) (simp add: extract_space)

lemma extract_token_then:
  assumes "is_token t" and "rest = [] \<or> is_space (hd rest)"
  shows "stream_extract (t @ rest) = Some (t, rest)"
proof -
  obtain c cs where t: "t = c # cs" and nc: "\<not> is_space c"
    using assms(1) by (cases t) (auto simp: is_token_def)
  have all: "\<forall>d \<in> set t. \<not> is_space d" using assms(1) by (simp add: is_token_def)
  have "takeWhile (\<lambda>d. \<not> is_space d) (t @ rest) = t"
    using all assms(2) by (cases rest) (auto simp: takeWhile_append2 takeWhile_tail)
  moreover have "dropWhile (\<lambda>d. \<not> is_space d) (t @ rest) = rest"
    using all assms(2) by (cases rest) (auto simp: dropWhile_append2)
  ultimately show ?thesis by (simp add: stream_extract_def t nc)
qed

lemma read_tokens_print:
  assumes "\<forall>a \<in> set args. is_token a"
  shows "read_tokens (concat (map (\<lambda>a. CHR '' '' # a) args)) = args"
  using assms
proof (induction args)
  case Nil
  show ?case by (subst read_tokens.simps) (simp add: stream_extract_def)
next
  case (Cons a args)
  let ?rest = "concat (map (\<lambda>a. CHR '' '' # a) args)"
  have "?rest = [] \<or> is_space (hd ?rest)" by (cases args) (simp_all add: is_space_def)
  with Cons.prems have "stream_extract (a @ ?rest) = Some (a, ?rest)"
    by (simp add: extract_token_then)
  then have "read_tokens (a @ ?rest) = a # read_tokens ?rest"
    by (simp add: read_tokens.simps [of "a @ _"])
  also have "read_tokens ?rest = args"
    using Cons by simp
  finally have "read_tokens (a @ ?rest) = a # args" .
  then show ?case by (simp add: read_tokens_space is_space_def)
qed

text \<open>Dropping a final carriage return changes no token, since it is white space.\<close>

lemma dropWhile_snoc_space:
  assumes "is_space c"
  shows "dropWhile is_space (xs @ [c]) =
    (if \<forall>x \<in> set xs. is_space x then [] else dropWhile is_space xs @ [c])"
  using assms by (induction xs) auto

lemma extract_snoc_space:
  assumes "is_space c"
  shows "stream_extract (xs @ [c]) = (case stream_extract xs of None \<Rightarrow> None
           | Some (t, r) \<Rightarrow> Some (t, r @ [c]))"
proof (cases "\<forall>x \<in> set xs. is_space x")
  case True
  then have "dropWhile is_space xs = []" "dropWhile is_space (xs @ [c]) = []"
    using assms by (simp_all add: dropWhile_snoc_space)
  then show ?thesis by (simp only: stream_extract_def list.case option.case)
next
  case False
  then obtain d ds where d: "dropWhile is_space xs = d # ds"
    by (cases "dropWhile is_space xs") auto
  have nd: "\<not> is_space d" using d by (metis dropWhile_eq_Cons_conv)
  have "takeWhile (\<lambda>d. \<not> is_space d) (ds @ [c]) = takeWhile (\<lambda>d. \<not> is_space d) ds"
    using assms by (induction ds) auto
  moreover have "dropWhile (\<lambda>d. \<not> is_space d) (ds @ [c]) = dropWhile (\<lambda>d. \<not> is_space d) ds @ [c]"
    using assms by (induction ds) auto
  ultimately show ?thesis using False assms d nd by (simp add: stream_extract_def dropWhile_snoc_space)
qed

lemma read_tokens_snoc_space: "is_space c \<Longrightarrow> read_tokens (xs @ [c]) = read_tokens xs"
proof (induction xs rule: read_tokens.induct)
  case (1 xs)
  then show ?case
    by (subst (1 2) read_tokens.simps) (auto simp: extract_snoc_space split: option.splits)
qed

section \<open>Lemmas on parse_line\<close>

lemma parse_ok_sel [simp]:
  "ok (parse_ok t n args)" "req_type (parsed_request (parse_ok t n args)) = t"
  "req_command_name (parsed_request (parse_ok t n args)) = n"
  "req_args (parsed_request (parse_ok t n args)) = args"
  by (simp_all add: parse_ok_def)

lemma parse_error_sel [simp]:
  "\<not> ok (parse_error m)" "parse_message (parse_error m) = m"
  by (simp_all add: parse_error_def)

lemma parse_line_eq:
  "parse_line l = (case read_tokens l of [] \<Rightarrow> parse_error ''empty command''
                    | command # args \<Rightarrow> parse_command command args)"
proof (cases "l \<noteq> [] \<and> last l = CHR 0x0D")
  case True
  then have l: "l = butlast l @ [CHR 0x0D]" by (metis append_butlast_last_id)
  have "read_tokens l = read_tokens (butlast l)"
    by (subst l) (simp add: read_tokens_snoc_space is_space_def)
  with True show ?thesis
    by (auto simp: parse_line_def strip_cr_def read_tokens.simps [of "butlast l"] split: option.splits)
next
  case False
  then show ?thesis
    by (auto simp: parse_line_def strip_cr_def read_tokens.simps [of l] split: option.splits)
qed

lemma length_4: "length xs = 4 \<Longrightarrow> \<exists>a b c d. xs = [a, b, c, d]"
  by (auto simp: length_Suc_conv eval_nat_numeral)

lemma length_2: "length xs = 2 \<Longrightarrow> \<exists>a b. xs = [a, b]"
  by (auto simp: length_Suc_conv eval_nat_numeral)

lemma length_1: "length xs = Suc 0 \<Longrightarrow> \<exists>a. xs = [a]"
  by (auto simp: length_Suc_conv)

text \<open>\<open>parse_command\<close> accepts the arguments of a command exactly when they are allowed.\<close>

lemma parse_command_accepts:
  assumes "upper command = keyword t" and "t \<noteq> KUnknown" and "args_allowed t args"
  shows "parse_command command args = parse_ok t (keyword t) args"
  using assms(3) assms(1,2)
  by (cases "(t, args)" rule: args_allowed.cases) (auto simp: parse_command_def)

lemma parse_command_known:
  assumes "ok (parse_command command args)"
  shows "\<exists>t. t \<noteq> KUnknown \<and> upper command = keyword t"
proof (rule ccontr)
  assume "\<not> ?thesis"
  then have no: "upper command \<noteq> keyword t" if "t \<noteq> KUnknown" for t
    using that by blast
  have "parse_command command args = parse_error (''unknown command: '' @ command)"
    using no [of KRegister] no [of KLogin] no [of KSaveCharacter] no [of KLoadCharacters]
      no [of KEnterWorld] no [of KMove] no [of KAttack] no [of KSaveInventoryItem]
      no [of KLoadInventory] no [of KQuit]
    by (simp add: parse_command_def)
  with assms show False by simp
qed

lemma parse_command_ok:
  assumes "ok (parse_command command args)"
  shows "\<exists>t. t \<noteq> KUnknown \<and> upper command = keyword t \<and> args_allowed t args \<and>
    parse_command command args = parse_ok t (keyword t) args"
proof -
  from parse_command_known [OF assms] obtain t
    where t: "t \<noteq> KUnknown" "upper command = keyword t" by blast
  have "args_allowed t args"
    using assms t
    by (cases t) (auto simp: parse_command_def Let_def split: if_splits dest!: length_1 length_2 length_4)
  with t show ?thesis using parse_command_accepts by blast
qed

lemma ok_valid:
  assumes "ok (parse_line l)"
  shows "valid_request (parsed_request (parse_line l))"
proof -
  obtain command args where l: "read_tokens l = command # args"
    using assms by (cases "read_tokens l") (auto simp: parse_line_eq)
  then have eq: "parse_line l = parse_command command args" by (simp add: parse_line_eq)
  with assms parse_command_ok obtain t where "t \<noteq> KUnknown" "args_allowed t args"
    "parse_line l = parse_ok t (keyword t) args" by metis
  moreover have "\<forall>a \<in> set args. is_token a" using read_tokens_are_tokens [of _ l] l by simp
  ultimately show ?thesis by (simp add: valid_request_def)
qed

text \<open>The number a signed numeral denotes, and what \<open>stoi\<close> makes of it.\<close>

definition signed_value :: "string \<Rightarrow> int" where
  "signed_value str = (if hd str = CHR ''-'' then - int (nat_val (tl str)) else int (nat_val str))"

lemma stoi_signed:
  assumes "is_signed_number str"
  shows "stoi str = (if in_i32 (signed_value str) then Inr (signed_value str)
    else Inl (Out_Of_Range ''stoi''))"
proof (cases "hd str = CHR ''-''")
  case True
  then obtain ds where str: "str = CHR ''-'' # ds" and ds: "ds \<noteq> []" "list_all is_digit ds"
    using assms by (cases str) (auto simp: is_signed_number_def)
  then have "numeral_prefix str = (True, ds)"
    using numeral_prefix_minus [of ds] by (simp add: list_all_iff)
  then show ?thesis using ds by (simp add: stoi_def signed_value_def str Let_def)
next
  case False
  then have "str \<noteq> []" "list_all is_digit str"
    using assms by (auto simp: is_signed_number_def split: if_splits)
  then have "numeral_prefix str = (False, str)"
    using numeral_prefix_digits [of str] by (simp add: list_all_iff)
  then show ?thesis using \<open>str \<noteq> []\<close> False by (simp add: stoi_def signed_value_def Let_def)
qed

lemma parse_ok_inject:
  "parse_ok t n args = \<lparr>ok = True, parsed_request = r, parse_message = ''''\<rparr> \<longleftrightarrow>
     req_type r = t \<and> req_command_name r = n \<and> req_args r = args"
  by (cases r) (auto simp: parse_ok_def)

lemma is_token_keyword: "t \<noteq> KUnknown \<Longrightarrow> is_token (keyword t)"
  by (cases t) (simp_all add: is_token_def is_space_def)

lemma upper_keyword: "upper (keyword t) = keyword t"
  by (cases t) (simp_all add: upper_def to_upper_def)

lemma read_tokens_print_request:
  assumes "is_token (req_command_name r)" and "\<forall>a \<in> set (req_args r). is_token a"
  shows "read_tokens (print_request r) = req_command_name r # req_args r"
proof -
  let ?rest = "concat (map (\<lambda>a. CHR '' '' # a) (req_args r))"
  have "?rest = [] \<or> is_space (hd ?rest)" by (cases "req_args r") (simp_all add: is_space_def)
  with assms have "stream_extract (print_request r) = Some (req_command_name r, ?rest)"
    by (simp add: print_request_def extract_token_then)
  with assms(2) show ?thesis
    by (simp add: read_tokens.simps [of "print_request r"] read_tokens_print)
qed

section \<open>Properties\<close>

text \<open>
  C27. The parser accepts exactly the lines whose white-space separated words are a command word,
  in any letter case, followed by arguments of the arity and numeral shape that command
  promises, and it returns that very request: the type, the upper-case command name and the
  arguments in order.
\<close>
theorem parse_line_accepts_iff:
  "parse_line l = \<lparr>ok = True, parsed_request = r, parse_message = ''''\<rparr> \<longleftrightarrow>
     valid_request r \<and>
     (\<exists>command. read_tokens l = command # req_args r \<and> upper command = req_command_name r)"
  (is "?parsed \<longleftrightarrow> ?valid")
proof
  assume p: ?parsed
  then obtain command args where l: "read_tokens l = command # args"
      and pc: "parse_command command args = \<lparr>ok = True, parsed_request = r, parse_message = ''''\<rparr>"
    by (auto simp: parse_line_eq parse_error_def split: list.splits)
  then obtain t where "t \<noteq> KUnknown" "upper command = keyword t" "args_allowed t args"
      and "parse_ok t (keyword t) args = \<lparr>ok = True, parsed_request = r, parse_message = ''''\<rparr>"
    using parse_command_ok [of command args] by auto
  with l read_tokens_are_tokens [of _ l] show ?valid
    by (auto simp: parse_ok_inject valid_request_def)
next
  assume ?valid
  then obtain command where "read_tokens l = command # req_args r"
      and "upper command = keyword (req_type r)" and v: "valid_request r"
    by (auto simp: valid_request_def)
  then have "parse_line l = parse_ok (req_type r) (keyword (req_type r)) (req_args r)"
    by (simp add: parse_line_eq parse_command_accepts valid_request_def)
  with v show ?parsed by (simp add: parse_ok_inject valid_request_def)
qed

text \<open>
  C28. Printing a valid request as a line and parsing it gives the request back, also when the
  client ends its lines with a carriage return.
\<close>
theorem parse_print_roundtrip:
  assumes "valid_request r"
  shows "parse_line (print_request r) = \<lparr>ok = True, parsed_request = r, parse_message = ''''\<rparr> \<and>
    parse_line (print_request r @ [CHR 0x0D]) =
      \<lparr>ok = True, parsed_request = r, parse_message = ''''\<rparr>"
proof -
  from assms have t: "req_type r \<noteq> KUnknown" "req_command_name r = keyword (req_type r)"
      "args_allowed (req_type r) (req_args r)" and a: "\<forall>a \<in> set (req_args r). is_token a"
    by (simp_all add: valid_request_def)
  from t a have "read_tokens (print_request r) = keyword (req_type r) # req_args r"
    by (simp add: read_tokens_print_request is_token_keyword)
  with t show ?thesis
    by (simp add: parse_line_eq read_tokens_snoc_space is_space_def parse_command_accepts
        upper_keyword parse_ok_inject)
qed

lemma parse_print_roundtrip_witness:
  "parse_line ''ENTER fighter01 main -120 80'' =
     \<lparr>ok = True, parsed_request = \<lparr>req_type = KEnterWorld, req_command_name = ''ENTER'',
        req_args = [''fighter01'', ''main'', ''-120'', ''80'']\<rparr>, parse_message = ''''\<rparr>"
  using parse_print_roundtrip [of "\<lparr>req_type = KEnterWorld, req_command_name = ''ENTER'',
        req_args = [''fighter01'', ''main'', ''-120'', ''80'']\<rparr>"]
  by (simp add: valid_request_def is_token_def is_space_def is_signed_number_def is_digit_def
      print_request_def)

end
