(* ===== verification/Config.thy ===== *)
theory Config
  imports Prelude
begin

text \<open>
  The configuration (include/portfolio/config.h, src/config.cpp): the two structs with their
  defaults and the loader that reads the environment. \<open>getenv\<close> is the parameter \<open>env\<close>. The integers
  keep the width the code casts them to, so a value that does not fit is reduced silently.
\<close>

type_synonym environment = "string \<Rightarrow> string option"

record server_config =
  cfg_port :: "16 word"
  cfg_backlog :: int
  cfg_ring_entries :: "32 word"
  cfg_recv_buffer_size :: nat
  cfg_max_line_size :: nat

record database_config =
  db_host :: string
  db_port :: "32 word"
  db_user :: string
  db_password :: string
  db_schema :: string
  db_pool_size :: "32 word"

record app_config =
  app_server :: server_config
  app_database :: database_config

definition default_server_config :: server_config where
  "default_server_config = \<lparr>cfg_port = 9090, cfg_backlog = 512, cfg_ring_entries = 512,
     cfg_recv_buffer_size = 4096, cfg_max_line_size = 8192\<rparr>"

definition default_database_config :: database_config where
  "default_database_config = \<lparr>db_host = ''127.0.0.1'', db_port = 3306, db_user = ''root'',
     db_password = '''', db_schema = ''dungeon_portfolio'', db_pool_size = 4\<rparr>"

definition env_string :: "environment \<Rightarrow> string \<Rightarrow> string \<Rightarrow> string" where
  "env_string env name fallback = (case env name of
       None \<Rightarrow> fallback
     | Some value \<Rightarrow> if value = [] then fallback else value)"

definition env_uint :: "environment \<Rightarrow> string \<Rightarrow> 32 word \<Rightarrow> exn + 32 word" where
  "env_uint env name fallback = (case env name of
       None \<Rightarrow> Inr fallback
     | Some value \<Rightarrow>
         if value = [] then Inr fallback
         else (case stoul value of
                 Inr v \<Rightarrow> Inr (ucast v)
               | Inl _ \<Rightarrow> Inl (Runtime_Error (''invalid unsigned integer in '' @ name))))"

definition load_config_from_env :: "environment \<Rightarrow> exn + app_config" where
  "load_config_from_env env =
    (let server = default_server_config; database = default_database_config in
     bind_result (env_uint env ''SERVER_PORT'' (ucast (cfg_port server))) (\<lambda>port.
     bind_result (env_uint env ''SERVER_BACKLOG'' (word_of_int (cfg_backlog server))) (\<lambda>backlog.
     bind_result (env_uint env ''URING_ENTRIES'' (cfg_ring_entries server)) (\<lambda>entries.
     let host = env_string env ''MYSQL_HOST'' (db_host database) in
     bind_result (env_uint env ''MYSQL_PORT'' (db_port database)) (\<lambda>mysql_port.
     let user = env_string env ''MYSQL_USER'' (db_user database);
         password = env_string env ''MYSQL_PASSWORD'' (db_password database);
         schema = env_string env ''MYSQL_DATABASE'' (db_schema database) in
     bind_result (env_uint env ''MYSQL_POOL_SIZE'' (db_pool_size database)) (\<lambda>pool_size.
     if pool_size = 0 then Inl (Runtime_Error ''MYSQL_POOL_SIZE must be greater than zero'')
     else if entries < 32 then Inl (Runtime_Error ''URING_ENTRIES must be at least 32'')
     else Inr \<lparr>app_server = server\<lparr>cfg_port := ucast port, cfg_backlog := sint backlog,
                                   cfg_ring_entries := entries\<rparr>,
               app_database = \<lparr>db_host = host, db_port = mysql_port, db_user = user,
                 db_password = password, db_schema = schema, db_pool_size = pool_size\<rparr>\<rparr>))))))"

section \<open>Properties\<close>

lemma env_uint_unset: "env name = None \<or> env name = Some [] \<Longrightarrow> env_uint env name d = Inr d"
  by (auto simp: env_uint_def)

lemma env_string_unset: "env name = None \<or> env name = Some [] \<Longrightarrow> env_string env name d = d"
  by (auto simp: env_string_def)



text \<open>
  C39. An integer setting is not checked against the width it is stored in: a numeral of decimal digits
  below \<open>2 ^ 64\<close> is accepted whatever its size, the port keeps its low 16 bits, and the pool size its
  low 32 bits. So \<open>SERVER_PORT=70000\<close> listens on port 4464.
\<close>
theorem port_is_truncated:
  assumes "env ''SERVER_PORT'' = Some (dec_nat n)" and "n < 2 ^ 64"
    and "\<forall>name. name \<noteq> ''SERVER_PORT'' \<longrightarrow> env name = None"
  shows "returns (load_config_from_env env) (\<lambda>c. unat (cfg_port (app_server c)) = n mod 2 ^ 16)"
proof -
  have "stoul (dec_nat n) = Inr (of_nat n)"
    using assms(2) dec_nat_digits [of n] by (simp add: stou_def numeral_prefix_digits)
  then have "env_uint env ''SERVER_PORT'' d = Inr (ucast (of_nat n :: 64 word))" for d
    using assms(1) by (simp add: env_uint_def)
  moreover have "unat (ucast (ucast (of_nat n :: 64 word) :: 32 word) :: 16 word) = n mod 2 ^ 16"
    by (simp only: unsigned_ucast_eq unsigned_of_nat take_bit_take_bit) (simp add: take_bit_eq_mod)
  ultimately show ?thesis using assms(3)
    by (simp add: load_config_from_env_def env_uint_unset env_string_unset Let_def
        default_server_config_def default_database_config_def)
qed

lemma port_is_truncated_witness:
  "returns (load_config_from_env [''SERVER_PORT'' \<mapsto> ''70000''])
     (\<lambda>c. unat (cfg_port (app_server c)) = 4464)"
  using port_is_truncated [of "[''SERVER_PORT'' \<mapsto> ''70000'']" 70000] by (simp add: dec_nat.simps)

end
