(* ===== verification/Database.thy ===== *)
theory Database
  imports Config
begin

text \<open>
  The database side of a job (include/portfolio/database.h, src/database.cpp): the job and
  completion structs, the prepared statements of \<open>MysqlStatement\<close> and \<open>MysqlConnection\<close>, one
  definition per operation with the SQL text of the source, and \<open>execute_job\<close>.

  The MySQL client library and the server behind it are a parameter: a record \<open>'db mysql\<close> whose
  fields are the calls the code makes, on a state \<open>'db\<close> of one connection and its server. A call that
  can fail gives the text of \<open>mysql_error\<close>; nothing is assumed of it here. An operation is a function
  of the state to a result and the new state (\<open>db_bind\<close> stops at the first exception and keeps the
  state it left). Reading a column into a bound buffer (\<open>fetch_text\<close>, \<open>fetch_u32\<close>, ...) follows the
  documented behaviour of \<open>MYSQL_BIND\<close>: a value that does not fit sets the error flag.
\<close>

section \<open>Jobs and completions\<close>

datatype db_operation =
    DbRegisterPlayer
  | DbLoginPlayer
  | DbSaveCharacter
  | DbLoadCharacters
  | DbSaveInventoryItem
  | DbLoadInventory
  | DbSavePosition

record db_job =
  job_client_fd :: int
  job_client_generation :: "64 word"
  job_request_id :: "64 word"
  job_operation :: db_operation
  job_command_name :: string
  job_args :: "string list"
  job_notify_client :: bool

record db_completion =
  dc_client_fd :: int
  dc_client_generation :: "64 word"
  dc_request_id :: "64 word"
  dc_ok :: bool
  dc_line :: string
  dc_notify_client :: bool

section \<open>The MySQL interface\<close>

datatype mysql_param =
    P_String string
  | P_UInt32 "32 word"
  | P_UInt64 "64 word"
  | P_Int32 int

datatype sql_value = SQL_Null | SQL_Int int | SQL_Text string

type_synonym sql_row = "sql_value list"

record 'db mysql =
  my_init :: "'db \<Rightarrow> bool \<times> 'db"
  my_connect :: "database_config \<Rightarrow> 'db \<Rightarrow> string option \<times> 'db"
  my_close :: "'db \<Rightarrow> 'db"
  my_stmt_init :: "'db \<Rightarrow> string option \<times> 'db"
  my_stmt_prepare :: "string \<Rightarrow> 'db \<Rightarrow> string option"
  my_stmt_close :: "'db \<Rightarrow> 'db"
  my_bind_param :: "string \<Rightarrow> mysql_param list \<Rightarrow> 'db \<Rightarrow> string option"
  my_execute :: "string \<Rightarrow> mysql_param list \<Rightarrow> 'db \<Rightarrow> ((nat \<times> string) + sql_row list) \<times> 'db"
  my_bind_result :: "string \<Rightarrow> 'db \<Rightarrow> string option"
  my_store_result :: "string \<Rightarrow> 'db \<Rightarrow> string option"
  my_fetch_error :: "string \<Rightarrow> nat \<Rightarrow> 'db \<Rightarrow> string option"
  my_query :: "string \<Rightarrow> 'db \<Rightarrow> string option \<times> 'db"

definition ER_DUP_ENTRY :: nat where "ER_DUP_ENTRY = 1062"

section \<open>Operations with state and exceptions\<close>

type_synonym ('db, 'a) db_op = "'db \<Rightarrow> (exn + 'a) \<times> 'db"

definition db_return :: "'a \<Rightarrow> ('db, 'a) db_op" where
  "db_return x db = (Inr x, db)"

definition db_result :: "exn + 'a \<Rightarrow> ('db, 'a) db_op" where
  "db_result r db = (r, db)"

definition db_bind :: "('db, 'a) db_op \<Rightarrow> ('a \<Rightarrow> ('db, 'b) db_op) \<Rightarrow> ('db, 'b) db_op" where
  "db_bind m f db = (case m db of
       (Inl e, db') \<Rightarrow> (Inl e, db')
     | (Inr x, db') \<Rightarrow> f x db')"

text \<open>A call that only reports failure: throw \<open>runtime_error(context + ": " + message)\<close>.\<close>

definition db_check :: "('db \<Rightarrow> string option) \<Rightarrow> string \<Rightarrow> ('db, unit) db_op" where
  "db_check call context db = (case call db of
       None \<Rightarrow> (Inr (), db)
     | Some message \<Rightarrow> (Inl (Runtime_Error (context @ '': '' @ message)), db))"

section \<open>MysqlStatement\<close>

text \<open>The constructor; it closes the handle itself when it throws after it has got one.\<close>

definition stmt_new :: "'db mysql \<Rightarrow> string \<Rightarrow> ('db, unit) db_op" where
  "stmt_new my sql db = (case my_stmt_init my db of
       (Some message, db') \<Rightarrow> (Inl (Runtime_Error (''mysql_stmt_init failed: '' @ message)), db')
     | (None, db') \<Rightarrow> (case my_stmt_prepare my sql db' of
           Some message \<Rightarrow>
             (Inl (Runtime_Error (''mysql_stmt_prepare failed: '' @ message)), my_stmt_close my db')
         | None \<Rightarrow> (Inr (), db')))"

text \<open>
  A scope that begins with the declaration of a statement. Its destructor closes the handle when the scope is left,
  also by an exception.
\<close>

definition with_statement :: "'db mysql \<Rightarrow> string \<Rightarrow> ('db, 'a) db_op \<Rightarrow> ('db, 'a) db_op" where
  "with_statement my sql body =
     db_bind (stmt_new my sql) (\<lambda>_ db. (case body db of (r, db') \<Rightarrow> (r, my_stmt_close my db')))"

definition bind_params :: "'db mysql \<Rightarrow> string \<Rightarrow> mysql_param list \<Rightarrow> ('db, unit) db_op" where
  "bind_params my sql params =
     (if params = [] then db_return ()
      else db_check (my_bind_param my sql params) ''mysql_stmt_bind_param failed'')"

definition stmt_execute ::
  "'db mysql \<Rightarrow> string \<Rightarrow> mysql_param list \<Rightarrow> ('db, sql_row list) db_op" where
  "stmt_execute my sql params db = (case my_execute my sql params db of
       (Inl (_, message), db') \<Rightarrow>
         (Inl (Runtime_Error (''mysql_stmt_execute failed: '' @ message)), db')
     | (Inr rows, db') \<Rightarrow> (Inr rows, db'))"

definition store_rows :: "'db mysql \<Rightarrow> string \<Rightarrow> ('db, unit) db_op" where
  "store_rows my sql =
     db_bind (db_check (my_bind_result my sql) ''bind result failed'') (\<lambda>_.
     db_check (my_store_result my sql) ''store result failed'')"

section \<open>Reading a row\<close>

record 'a fetched =
  f_value :: 'a
  f_null :: bool
  f_error :: bool

definition column :: "sql_row \<Rightarrow> nat \<Rightarrow> sql_value" where
  "column row i = (if i < length row then row ! i else SQL_Null)"

text \<open>
  A text column bound to a buffer of \<open>capacity\<close> bytes: the buffer holds the first bytes, and the
  error flag tells that the value was longer.
\<close>

definition fetch_text :: "nat \<Rightarrow> sql_value \<Rightarrow> string fetched" where
  "fetch_text capacity v = (case v of
       SQL_Null \<Rightarrow> \<lparr>f_value = '''', f_null = True, f_error = False\<rparr>
     | SQL_Int i \<Rightarrow> \<lparr>f_value = take capacity (to_string_int i), f_null = False,
                    f_error = capacity < length (to_string_int i)\<rparr>
     | SQL_Text s \<Rightarrow> \<lparr>f_value = take capacity s, f_null = False, f_error = capacity < length s\<rparr>)"

text \<open>
  An integer column bound to an unsigned buffer of the width of the word, or to an \<open>int\<close>. The
  columns read this way are integers in the schema; any other value is flagged.
\<close>

definition fetch_word :: "sql_value \<Rightarrow> 'w::len word fetched" where
  "fetch_word v = (case v of
       SQL_Null \<Rightarrow> \<lparr>f_value = 0, f_null = True, f_error = False\<rparr>
     | SQL_Int i \<Rightarrow> \<lparr>f_value = word_of_int i, f_null = False,
                    f_error = \<not> (0 \<le> i \<and> i < 2 ^ LENGTH('w))\<rparr>
     | SQL_Text s \<Rightarrow> \<lparr>f_value = 0, f_null = False, f_error = True\<rparr>)"

definition fetch_int :: "sql_value \<Rightarrow> int fetched" where
  "fetch_int v = (case v of
       SQL_Null \<Rightarrow> \<lparr>f_value = 0, f_null = True, f_error = False\<rparr>
     | SQL_Int i \<Rightarrow> \<lparr>f_value = sint (word_of_int i :: 32 word), f_null = False,
                    f_error = \<not> in_i32 i\<rparr>
     | SQL_Text s \<Rightarrow> \<lparr>f_value = 0, f_null = False, f_error = True\<rparr>)"

section \<open>MysqlConnection\<close>

definition connection_new :: "'db mysql \<Rightarrow> database_config \<Rightarrow> ('db, unit) db_op" where
  "connection_new my config db =
     (case my_init my db of
        (False, db') \<Rightarrow> (Inl (Runtime_Error ''mysql_init failed''), db')
      | (True, db') \<Rightarrow> (case my_connect my config db' of
              (None, db'') \<Rightarrow> (Inr (), db'')
            | (Some message, db'') \<Rightarrow>
                (Inl (Runtime_Error (''mysql_real_connect failed: '' @ message)), my_close my db'')))"

definition sql_exec :: "'db mysql \<Rightarrow> string \<Rightarrow> ('db, unit) db_op" where
  "sql_exec my sql db = (case my_query my sql db of
       (None, db') \<Rightarrow> (Inr (), db')
     | (Some message, db') \<Rightarrow> (Inl (Runtime_Error (sql @ '': '' @ message)), db'))"

definition execute_prepared :: "'db mysql \<Rightarrow> string \<Rightarrow> mysql_param list \<Rightarrow> ('db, unit) db_op" where
  "execute_prepared my sql params =
     with_statement my sql (
     db_bind (bind_params my sql params) (\<lambda>_.
     db_bind (stmt_execute my sql params) (\<lambda>_. db_return ())))"

definition begin_txn :: "'db mysql \<Rightarrow> ('db, unit) db_op" where
  "begin_txn my = sql_exec my ''BEGIN''"

definition commit_txn :: "'db mysql \<Rightarrow> ('db, unit) db_op" where
  "commit_txn my = sql_exec my ''COMMIT''"

definition rollback_noexcept :: "'db mysql \<Rightarrow> 'db \<Rightarrow> 'db" where
  "rollback_noexcept my db = snd (my_query my ''ROLLBACK'' db)"

text \<open>\<open>try { body } catch (...) { rollback_noexcept(); throw; }\<close>\<close>

definition with_rollback :: "'db mysql \<Rightarrow> ('db, 'a) db_op \<Rightarrow> ('db, 'a) db_op" where
  "with_rollback my body db = (case body db of
       (Inl e, db') \<Rightarrow> (Inl e, rollback_noexcept my db')
     | (Inr x, db') \<Rightarrow> (Inr x, db'))"

definition select_player_id_impl :: "'db mysql \<Rightarrow> string \<Rightarrow> string \<Rightarrow> ('db, 64 word) db_op" where
  "select_player_id_impl my sql account =
     with_statement my sql (
     db_bind (bind_params my sql [P_String account]) (\<lambda>_.
     db_bind (stmt_execute my sql [P_String account]) (\<lambda>rows.
     db_bind (store_rows my sql) (\<lambda>_.
     case rows of
       [] \<Rightarrow> db_result (Inl (Runtime_Error (''unknown account: '' @ account)))
     | row # _ \<Rightarrow>
         db_bind (db_check (my_fetch_error my sql 0) ''fetch player failed'') (\<lambda>_.
         let id = (fetch_word (column row 0) :: 64 word fetched) in
         if f_null id \<or> f_error id
         then db_result (Inl (Runtime_Error (''invalid player id for account: '' @ account)))
         else db_return (f_value id))))))"

definition select_player_id_for_update :: "'db mysql \<Rightarrow> string \<Rightarrow> ('db, 64 word) db_op" where
  "select_player_id_for_update my account =
     select_player_id_impl my ''SELECT id FROM players WHERE account = ? FOR UPDATE'' account"

definition select_player_id :: "'db mysql \<Rightarrow> string \<Rightarrow> ('db, 64 word) db_op" where
  "select_player_id my account =
     select_player_id_impl my ''SELECT id FROM players WHERE account = ?'' account"

definition base_completion :: "db_job \<Rightarrow> db_completion" where
  "base_completion job = \<lparr>dc_client_fd = job_client_fd job,
     dc_client_generation = job_client_generation job, dc_request_id = job_request_id job,
     dc_ok = False, dc_line = '''', dc_notify_client = job_notify_client job\<rparr>"

definition ok_completion :: "db_job \<Rightarrow> string \<Rightarrow> db_completion" where
  "ok_completion job line = (base_completion job)\<lparr>dc_ok := True, dc_line := line\<rparr>"

definition register_player :: "'db mysql \<Rightarrow> db_job \<Rightarrow> ('db, db_completion) db_op" where
  "register_player my job =
     (let sql = ''INSERT INTO players(account, display_name) VALUES (?, ?)'' in
     db_bind (db_result (vector_at (job_args job) 0)) (\<lambda>account.
     db_bind (db_result (vector_at (job_args job) 1)) (\<lambda>display_name.
     let params = [P_String account, P_String display_name] in
     with_statement my sql (
     db_bind (bind_params my sql params) (\<lambda>_ db.
     case my_execute my sql params db of
       (Inl (errno, message), db') \<Rightarrow>
         (Inl (Runtime_Error (if errno = ER_DUP_ENTRY then ''account already exists: '' @ account
            else ''mysql_stmt_execute failed: '' @ message)), db')
     | (Inr _, db') \<Rightarrow>
         (Inr (ok_completion job (''OK REGISTER account='' @ account @
            '' display_name='' @ display_name)), db'))))))"

definition login_player :: "'db mysql \<Rightarrow> db_job \<Rightarrow> ('db, db_completion) db_op" where
  "login_player my job =
     (let sql = ''SELECT id, display_name FROM players WHERE account = ?'' in
     db_bind (db_result (vector_at (job_args job) 0)) (\<lambda>account.
     with_statement my sql (
     db_bind (bind_params my sql [P_String account]) (\<lambda>_.
     db_bind (stmt_execute my sql [P_String account]) (\<lambda>rows.
     db_bind (store_rows my sql) (\<lambda>_.
     case rows of
       [] \<Rightarrow> db_result (Inl (Runtime_Error (''unknown account: '' @ account)))
     | row # _ \<Rightarrow>
         db_bind (db_check (my_fetch_error my sql 0) ''fetch player failed'') (\<lambda>_.
         let id = (fetch_word (column row 0) :: 64 word fetched);
             name = fetch_text 128 (column row 1) in
         if f_null id \<or> f_null name \<or> f_error id \<or> f_error name
         then db_result (Inl (Runtime_Error (''invalid player row for account: '' @ account)))
         else
           db_bind (execute_prepared my ''UPDATE players SET last_login_at = NOW() WHERE id = ?''
             [P_UInt64 (f_value id)]) (\<lambda>_.
           db_return (ok_completion job (''OK LOGIN player_id='' @ to_string_word (f_value id) @
             '' account='' @ account @ '' display_name='' @ f_value name))))))))))"

definition save_character :: "'db mysql \<Rightarrow> db_job \<Rightarrow> ('db, db_completion) db_op" where
  "save_character my job =
     db_bind (db_result (vector_at (job_args job) 0)) (\<lambda>account.
     db_bind (db_result (vector_at (job_args job) 1)) (\<lambda>character.
     db_bind (db_result (bind_result (vector_at (job_args job) 2) stoul)) (\<lambda>level_long.
     let level = (ucast level_long :: 32 word) in
     db_bind (db_result (bind_result (vector_at (job_args job) 3) stoull)) (\<lambda>gold.
     db_bind (begin_txn my) (\<lambda>_.
     db_bind (with_rollback my (
       db_bind (select_player_id_for_update my account) (\<lambda>player_id.
       db_bind (execute_prepared my
         (''INSERT INTO characters(player_id, name, level, gold) VALUES (?, ?, ?, ?) '' @
          ''ON DUPLICATE KEY UPDATE level = VALUES(level), gold = VALUES(gold)'')
         [P_UInt64 player_id, P_String character, P_UInt32 level, P_UInt64 gold]) (\<lambda>_.
       commit_txn my)))) (\<lambda>_.
     db_return (ok_completion job (''OK SAVE account='' @ account @ '' character='' @ character @
       '' level='' @ to_string_word level @ '' gold='' @ to_string_word gold))))))))"

definition save_position :: "'db mysql \<Rightarrow> db_job \<Rightarrow> ('db, db_completion) db_op" where
  "save_position my job =
     db_bind (db_result (vector_at (job_args job) 0)) (\<lambda>account.
     db_bind (db_result (vector_at (job_args job) 1)) (\<lambda>character.
     db_bind (db_result (bind_result (vector_at (job_args job) 2) stoi)) (\<lambda>x.
     db_bind (db_result (bind_result (vector_at (job_args job) 3) stoi)) (\<lambda>y.
     db_bind (begin_txn my) (\<lambda>_.
     db_bind (with_rollback my (
       db_bind (select_player_id_for_update my account) (\<lambda>player_id.
       db_bind (execute_prepared my
         (''INSERT INTO characters(player_id, name, level, gold, x, y) VALUES (?, ?, 1, 0, ?, ?) '' @
          ''ON DUPLICATE KEY UPDATE x = VALUES(x), y = VALUES(y)'')
         [P_UInt64 player_id, P_String character, P_Int32 x, P_Int32 y]) (\<lambda>_.
       commit_txn my)))) (\<lambda>_.
     db_return (ok_completion job (''OK SAVE_POSITION account='' @ account @ '' character='' @
       character @ '' x='' @ to_string_int x @ '' y='' @ to_string_int y))))))))"

text \<open>The loop that fetches the rows of a result set, decoding each into one string.\<close>

primrec fetch_rows ::
  "'db mysql \<Rightarrow> string \<Rightarrow> string \<Rightarrow> string \<Rightarrow> (sql_row \<Rightarrow> string option) \<Rightarrow> nat \<Rightarrow> sql_row list
     \<Rightarrow> ('db, string list) db_op" where
  "fetch_rows my sql context invalid decode n [] = db_return []"
| "fetch_rows my sql context invalid decode n (row # rows) =
     db_bind (db_check (my_fetch_error my sql n) context) (\<lambda>_.
     case decode row of
       None \<Rightarrow> db_result (Inl (Runtime_Error invalid))
     | Some text \<Rightarrow>
         db_bind (fetch_rows my sql context invalid decode (Suc n) rows) (\<lambda>texts.
         db_return (text # texts)))"

definition decode_character :: "sql_row \<Rightarrow> string option" where
  "decode_character row =
     (let name = fetch_text 128 (column row 0);
          level = (fetch_word (column row 1) :: 32 word fetched);
          gold = (fetch_word (column row 2) :: 64 word fetched);
          x = fetch_int (column row 3);
          y = fetch_int (column row 4) in
      if f_null name \<or> f_null level \<or> f_null gold \<or> f_null x \<or> f_null y \<or> f_error name \<or>
         f_error level \<or> f_error gold \<or> f_error x \<or> f_error y
      then None
      else Some (f_value name @ '':'' @ to_string_word (f_value level) @ '':'' @
        to_string_word (f_value gold) @ '':'' @ to_string_int (f_value x) @ '':'' @
        to_string_int (f_value y)))"

definition decode_item :: "sql_row \<Rightarrow> string option" where
  "decode_item row =
     (let slot = (fetch_word (column row 0) :: 32 word fetched);
          item = (fetch_word (column row 1) :: 64 word fetched);
          count = (fetch_word (column row 2) :: 32 word fetched) in
      if f_null slot \<or> f_null item \<or> f_null count \<or> f_error slot \<or> f_error item \<or> f_error count
      then None
      else Some (to_string_word (f_value slot) @ '':'' @ to_string_word (f_value item) @ '':'' @
        to_string_word (f_value count)))"

fun join_commas :: "string list \<Rightarrow> string" where
  "join_commas [] = []"
| "join_commas [t] = t"
| "join_commas (t # ts) = t @ '','' @ join_commas ts"

definition load_characters :: "'db mysql \<Rightarrow> db_job \<Rightarrow> ('db, db_completion) db_op" where
  "load_characters my job =
     (let sql = ''SELECT c.name, c.level, c.gold, c.x, c.y '' @
                ''FROM players p JOIN characters c ON c.player_id = p.id '' @
                ''WHERE p.account = ? ORDER BY c.updated_at DESC, c.id DESC'' in
     db_bind (db_result (vector_at (job_args job) 0)) (\<lambda>account.
     db_bind (select_player_id my account) (\<lambda>_.
     with_statement my sql (
     db_bind (bind_params my sql [P_String account]) (\<lambda>_.
     db_bind (stmt_execute my sql [P_String account]) (\<lambda>rows.
     db_bind (store_rows my sql) (\<lambda>_.
     db_bind (fetch_rows my sql ''fetch character failed''
        (''invalid character row for account: '' @ account) decode_character 0 rows) (\<lambda>characters.
     db_return (ok_completion job (''OK LOAD account='' @ account @ '' character_count='' @
       dec_nat (length characters) @
       (if characters \<noteq> [] then '' characters='' @ join_commas characters else '''')))))))))))"

definition save_inventory_item :: "'db mysql \<Rightarrow> db_job \<Rightarrow> ('db, db_completion) db_op" where
  "save_inventory_item my job =
     db_bind (db_result (vector_at (job_args job) 0)) (\<lambda>account.
     db_bind (db_result (bind_result (vector_at (job_args job) 1) stoul)) (\<lambda>slot_long.
     db_bind (db_result (bind_result (vector_at (job_args job) 2) stoull)) (\<lambda>item_id.
     db_bind (db_result (bind_result (vector_at (job_args job) 3) stoul)) (\<lambda>count_long.
     let slot = (ucast slot_long :: 32 word); count = (ucast count_long :: 32 word) in
     db_bind (begin_txn my) (\<lambda>_.
     db_bind (with_rollback my (
       db_bind (select_player_id_for_update my account) (\<lambda>player_id.
       db_bind (if count = 0
         then execute_prepared my ''DELETE FROM inventory_items WHERE player_id = ? AND slot = ?''
           [P_UInt64 player_id, P_UInt32 slot]
         else execute_prepared my
           (''INSERT INTO inventory_items(player_id, slot, item_id, stack_count) '' @
            ''VALUES (?, ?, ?, ?) '' @
            ''ON DUPLICATE KEY UPDATE item_id = VALUES(item_id), '' @
            ''stack_count = VALUES(stack_count)'')
           [P_UInt64 player_id, P_UInt32 slot, P_UInt64 item_id, P_UInt32 count]) (\<lambda>_.
       commit_txn my)))) (\<lambda>_.
     db_return (ok_completion job (''OK SAVE_ITEM account='' @ account @ '' slot='' @
       to_string_word slot @ '' item_id='' @ to_string_word item_id @ '' count='' @
       to_string_word count))))))))"

definition load_inventory :: "'db mysql \<Rightarrow> db_job \<Rightarrow> ('db, db_completion) db_op" where
  "load_inventory my job =
     (let sql = ''SELECT i.slot, i.item_id, i.stack_count '' @
                ''FROM players p JOIN inventory_items i ON i.player_id = p.id '' @
                ''WHERE p.account = ? ORDER BY i.slot'' in
     db_bind (db_result (vector_at (job_args job) 0)) (\<lambda>account.
     db_bind (select_player_id my account) (\<lambda>_.
     with_statement my sql (
     db_bind (bind_params my sql [P_String account]) (\<lambda>_.
     db_bind (stmt_execute my sql [P_String account]) (\<lambda>rows.
     db_bind (store_rows my sql) (\<lambda>_.
     db_bind (fetch_rows my sql ''fetch inventory failed''
        (''invalid inventory row for account: '' @ account) decode_item 0 rows) (\<lambda>items.
     db_return (ok_completion job (''OK LOAD_INVENTORY account='' @ account @ '' item_count='' @
       dec_nat (length items) @
       (if items \<noteq> [] then '' items='' @ join_commas items else '''')))))))))))"

section \<open>Running a job\<close>

definition error_completion :: "db_job \<Rightarrow> exn \<Rightarrow> db_completion" where
  "error_completion job error = \<lparr>dc_client_fd = job_client_fd job,
     dc_client_generation = job_client_generation job, dc_request_id = job_request_id job,
     dc_ok = False, dc_line = ''ERR '' @ job_command_name job @ '' '' @ what error,
     dc_notify_client = job_notify_client job\<rparr>"

definition execute_job :: "'db mysql \<Rightarrow> db_job \<Rightarrow> ('db, db_completion) db_op" where
  "execute_job my job = (case job_operation job of
       DbRegisterPlayer \<Rightarrow> register_player my job
     | DbLoginPlayer \<Rightarrow> login_player my job
     | DbSaveCharacter \<Rightarrow> save_character my job
     | DbLoadCharacters \<Rightarrow> load_characters my job
     | DbSaveInventoryItem \<Rightarrow> save_inventory_item my job
     | DbLoadInventory \<Rightarrow> load_inventory my job
     | DbSavePosition \<Rightarrow> save_position my job)"

text \<open>
  The body of the loop of \<open>worker_loop\<close>: connect if there is no connection yet, run the job, and turn
  an exception into an error completion. The first component tells whether the worker has a
  connection afterwards.
\<close>

definition run_job ::
  "'db mysql \<Rightarrow> database_config \<Rightarrow> bool \<Rightarrow> db_job \<Rightarrow> 'db \<Rightarrow> bool \<times> db_completion \<times> 'db" where
  "run_job my config connected job db =
     (case (if connected then (Inr (), db) else connection_new my config db) of
        (Inl e, db') \<Rightarrow> (False, error_completion job e, db')
      | (Inr _, db') \<Rightarrow>
          (case execute_job my job db' of
             (Inl e, db'') \<Rightarrow> (True, error_completion job e, db'')
           | (Inr completion, db'') \<Rightarrow> (True, completion, db'')))"

end
