(* ===== verification/Blocking_Queue.thy ===== *)
theory Blocking_Queue
  imports Prelude
begin

text \<open>
  The job queue between the event loop and the database workers
  (include/portfolio/blocking_queue.h). Each method holds the mutex for its whole effect, so a call
  is one step on the state. \<open>pop\<close> waits on the condition variable until the queue is closed or not
  empty: its model returns \<open>None\<close> while the caller would wait, and otherwise the result of the call,
  \<open>None\<close> for \<open>false\<close> and \<open>Some v\<close> for \<open>true\<close> with the value.

  \<open>blocking_fifo\<close> is the contract the dispatcher relies on; its consequences are proved in the locale
  once and the interpretation discharges the contract for the code.
\<close>

record 'a blocking_queue =
  bq_queue :: "'a list"
  bq_closed :: bool

definition bq_empty :: "'a blocking_queue" where
  "bq_empty = \<lparr>bq_queue = [], bq_closed = False\<rparr>"

definition bq_push :: "'a \<Rightarrow> 'a blocking_queue \<Rightarrow> 'a blocking_queue" where
  "bq_push value q = (if bq_closed q then q else q\<lparr>bq_queue := bq_queue q @ [value]\<rparr>)"

definition bq_pop :: "'a blocking_queue \<Rightarrow> ('a option \<times> 'a blocking_queue) option" where
  "bq_pop q =
     (if bq_closed q \<or> bq_queue q \<noteq> [] then
        (case bq_queue q of
           [] \<Rightarrow> Some (None, q)
         | value # rest \<Rightarrow> Some (Some value, q\<lparr>bq_queue := rest\<rparr>))
      else None)"

definition bq_close :: "'a blocking_queue \<Rightarrow> 'a blocking_queue" where
  "bq_close q = q\<lparr>bq_closed := True\<rparr>"

section \<open>The contract\<close>

locale blocking_fifo =
  fixes push :: "'a \<Rightarrow> 'q \<Rightarrow> 'q"
    and pop :: "'q \<Rightarrow> ('a option \<times> 'q) option"
    and close :: "'q \<Rightarrow> 'q"
    and contents :: "'q \<Rightarrow> 'a list"
    and is_closed :: "'q \<Rightarrow> bool"
  assumes contents_push: "contents (push v q) = (if is_closed q then contents q else contents q @ [v])"
    and closed_push: "is_closed (push v q) = is_closed q"
    and contents_close: "contents (close q) = contents q"
    and closed_close: "is_closed (close q)"
    and pop_waits: "pop q = None \<longleftrightarrow> \<not> is_closed q \<and> contents q = []"
    and pop_value: "pop q = Some (Some v, q') \<Longrightarrow>
      contents q = v # contents q' \<and> is_closed q' = is_closed q"
    and pop_end: "pop q = Some (None, q') \<Longrightarrow> is_closed q \<and> contents q = [] \<and> q' = q"
begin

text \<open>Taking values for as long as the calls neither wait nor report the end.\<close>

primrec take_values :: "nat \<Rightarrow> 'q \<Rightarrow> 'a list \<times> 'q" where
  "take_values 0 q = ([], q)"
| "take_values (Suc n) q = (case pop q of
      Some (Some v, q') \<Rightarrow> (case take_values n q' of (vs, q'') \<Rightarrow> (v # vs, q''))
    | _ \<Rightarrow> ([], q))"

lemma pop_nonempty: "contents q = v # vs \<Longrightarrow> \<exists>q'. pop q = Some (Some v, q') \<and> contents q' = vs"
proof -
  assume c: "contents q = v # vs"
  then obtain r q' where p: "pop q = Some (r, q')"
    using pop_waits [of q] by (cases "pop q") auto
  with c pop_end [of q q'] obtain u where "r = Some u" by (cases r) auto
  with p pop_value [of q u q'] c show ?thesis by auto
qed

lemma take_values_fifo:
  "fst (take_values n q) = take n (contents q) \<and>
   contents (snd (take_values n q)) = drop n (contents q)"
proof (induction n arbitrary: q)
  case (Suc n)
  show ?case
  proof (cases "contents q")
    case Nil
    then have "take_values (Suc n) q = ([], q)"
      using pop_value [of q] by (auto split: option.splits)
    then show ?thesis by (simp add: Nil)
  next
    case (Cons v vs)
    then obtain q' where "pop q = Some (Some v, q')" "contents q' = vs"
      using pop_nonempty by blast
    with Suc.IH [of q'] Cons show ?thesis by (auto split: prod.splits)
  qed
qed simp

lemma contents_fold_push:
  "\<not> is_closed q \<Longrightarrow> contents (fold push vs q) = contents q @ vs \<and> \<not> is_closed (fold push vs q)"
  by (induction vs arbitrary: q) (auto simp: contents_push closed_push)

lemma contents_fold_push_closed:
  "is_closed q \<Longrightarrow> contents (fold push vs q) = contents q \<and> is_closed (fold push vs q)"
  by (induction vs arbitrary: q) (auto simp: contents_push closed_push)

lemma pushed_then_taken:
  assumes "\<not> is_closed q" and "contents q = []"
  shows "fst (take_values (length vs) (fold push vs q)) = vs"
  using contents_fold_push [OF assms(1), of vs] assms(2) by (simp add: take_values_fifo)

end

interpretation bq: blocking_fifo bq_push bq_pop bq_close bq_queue bq_closed
  by unfold_locales
    (auto simp: bq_push_def bq_pop_def bq_close_def split: list.splits if_splits)



end
