(* ===== verification/Dispatcher.thy ===== *)
theory Dispatcher
  imports Database Blocking_Queue "HOL-Library.Multiset"
begin

text \<open>
  The dispatcher between the event loop and the database (class \<open>DbDispatcher\<close> in
  include/portfolio/database.h and src/database.cpp): the job queue, the worker threads, the
  completion queue and the eventfd that wakes the event loop.

  A worker thread is a record: whether it holds a connection, the job it is running, and whether
  its loop has ended. One step of one worker is a rule of \<open>worker_step\<close>: take a job, run it and
  push its completion, or end the loop, which closes its connection; the scheduler decides which worker moves. A job runs in one
  step on the database, so the interleaving of two transactions inside MySQL is not modelled.
  The counter of the eventfd is a number below \<open>2 ^ 64 - 1\<close>; a write that would pass the limit fails
  with EAGAIN and the code gives up, which leaves the counter positive.
\<close>

record worker =
  wk_connected :: bool
  wk_job :: "db_job option"
  wk_done :: bool

record dispatcher =
  dd_config :: database_config
  dd_event_count :: nat
  dd_jobs :: "db_job blocking_queue"
  dd_workers :: "worker list"
  dd_completions :: "db_completion list"
  dd_started :: bool

definition fresh_worker :: worker where
  "fresh_worker = \<lparr>wk_connected = False, wk_job = None, wk_done = False\<rparr>"

definition dispatcher_new :: "database_config \<Rightarrow> dispatcher" where
  "dispatcher_new config = \<lparr>dd_config = config, dd_event_count = 0, dd_jobs = bq_empty,
     dd_workers = [], dd_completions = [], dd_started = False\<rparr>"

definition dispatcher_start :: "dispatcher \<Rightarrow> dispatcher" where
  "dispatcher_start d =
     (if dd_started d then d
      else d\<lparr>dd_started := True,
             dd_workers := dd_workers d @
               replicate (unat (db_pool_size (dd_config d))) fresh_worker\<rparr>)"

definition submit :: "db_job \<Rightarrow> dispatcher \<Rightarrow> dispatcher" where
  "submit job d = d\<lparr>dd_jobs := bq_push job (dd_jobs d)\<rparr>"

definition pop_completion :: "dispatcher \<Rightarrow> db_completion option \<times> dispatcher" where
  "pop_completion d = (case dd_completions d of
       [] \<Rightarrow> (None, d)
     | completion # rest \<Rightarrow> (Some completion, d\<lparr>dd_completions := rest\<rparr>))"

definition eventfd_limit :: nat where "eventfd_limit = 2 ^ 64 - 2"

definition eventfd_write :: "nat \<Rightarrow> nat \<Rightarrow> nat" where
  "eventfd_write increment counter =
     (if counter + increment \<le> eventfd_limit then counter + increment else counter)"

definition push_completion :: "db_completion \<Rightarrow> dispatcher \<Rightarrow> dispatcher" where
  "push_completion completion d =
     d\<lparr>dd_completions := dd_completions d @ [completion],
       dd_event_count := eventfd_write 1 (dd_event_count d)\<rparr>"

text \<open>
  The event loop reads the eventfd until a read fails; the first read returns the counter and resets
  it, the next fails with EAGAIN.
\<close>

definition event_read :: "dispatcher \<Rightarrow> dispatcher" where
  "event_read d = d\<lparr>dd_event_count := 0\<rparr>"

text \<open>\<open>stop\<close> closes the queue, then joins the workers: it returns once all their loops have ended.\<close>

definition stop_begin :: "dispatcher \<Rightarrow> dispatcher" where
  "stop_begin d = (if dd_started d then d\<lparr>dd_jobs := bq_close (dd_jobs d)\<rparr> else d)"

definition workers_joined :: "dispatcher \<Rightarrow> bool" where
  "workers_joined d \<longleftrightarrow> list_all wk_done (dd_workers d)"

definition stop_end :: "dispatcher \<Rightarrow> dispatcher option" where
  "stop_end d = (if \<not> dd_started d then Some d
     else if workers_joined d then Some (d\<lparr>dd_started := False\<rparr>) else None)"

section \<open>The worker threads\<close>

text \<open>The loop condition \<open>jobs_.pop(job)\<close>: wait, take a job, or end the loop.\<close>

definition worker_pop :: "nat \<Rightarrow> dispatcher \<Rightarrow> dispatcher option" where
  "worker_pop i d =
     (let w = dd_workers d ! i in
      if i < length (dd_workers d) \<and> \<not> wk_done w \<and> wk_job w = None then
        (case bq_pop (dd_jobs d) of
           None \<Rightarrow> None
         | Some (None, q) \<Rightarrow>
             Some (d\<lparr>dd_jobs := q, dd_workers := (dd_workers d)[i := w\<lparr>wk_done := True\<rparr>]\<rparr>)
         | Some (Some job, q) \<Rightarrow>
             Some (d\<lparr>dd_jobs := q, dd_workers := (dd_workers d)[i := w\<lparr>wk_job := Some job\<rparr>]\<rparr>))
      else None)"

text \<open>The loop body: run the job and push its completion.\<close>

definition worker_finish :: "'db mysql \<Rightarrow> nat \<Rightarrow> dispatcher \<Rightarrow> 'db \<Rightarrow> (dispatcher \<times> 'db) option" where
  "worker_finish my i d db =
     (let w = dd_workers d ! i in
      if i < length (dd_workers d) \<and> \<not> wk_done w then
        (case wk_job w of
           None \<Rightarrow> None
         | Some job \<Rightarrow>
             (case run_job my (dd_config d) (wk_connected w) job db of
                (connected, completion, db') \<Rightarrow>
                  Some (push_completion completion
                    (d\<lparr>dd_workers := (dd_workers d)[i := w\<lparr>wk_connected := connected,
                         wk_job := None\<rparr>]\<rparr>), db')))
      else None)"

text \<open>
  When the loop has ended, \<open>worker_loop\<close> returns, and the destructor of its \<open>connection\<close> closes the connection if
  there is one. A worker whose loop has ended keeps \<open>wk_connected\<close>: it tells that there was a connection to close.
\<close>

definition worker_release :: "'db mysql \<Rightarrow> nat \<Rightarrow> dispatcher \<Rightarrow> 'db \<Rightarrow> 'db" where
  "worker_release my i d db =
     (let w = dd_workers d ! i in if wk_done w \<and> wk_connected w then my_close my db else db)"

inductive worker_step :: "'db mysql \<Rightarrow> dispatcher \<times> 'db \<Rightarrow> dispatcher \<times> 'db \<Rightarrow> bool" for my where
  pop: "worker_pop i d = Some d' \<Longrightarrow> worker_step my (d, db) (d', worker_release my i d' db)"
| finish: "worker_finish my i d db = Some (d', db') \<Longrightarrow> worker_step my (d, db) (d', db')"

inductive_cases worker_stepE: "worker_step my (d, db) s"

text \<open>Taking a job does not touch the database.\<close>

lemma worker_step_pop:
  "worker_pop i d = Some d' \<Longrightarrow> \<not> wk_done (dd_workers d' ! i) \<Longrightarrow> worker_step my (d, db) (d', db)"
  using worker_step.pop [of i d d' my db] by (simp add: worker_release_def)

lemma worker_finish_running: "worker_finish my i d db = Some s \<Longrightarrow> \<not> wk_done (dd_workers d ! i)"
  by (auto simp: worker_finish_def Let_def split: if_splits)

section \<open>Every job gets one completion, to the right client\<close>

text \<open>The identity of a request: the client connection and the request number.\<close>

type_synonym request_key = "int \<times> 64 word \<times> 64 word \<times> bool"

definition job_key :: "db_job \<Rightarrow> request_key" where
  "job_key j = (job_client_fd j, job_client_generation j, job_request_id j, job_notify_client j)"

definition completion_key :: "db_completion \<Rightarrow> request_key" where
  "completion_key c = (dc_client_fd c, dc_client_generation c, dc_request_id c, dc_notify_client c)"

definition db_ensures :: "('db, 'a) db_op \<Rightarrow> ('a \<Rightarrow> bool) \<Rightarrow> bool" where
  "db_ensures m P \<longleftrightarrow> (\<forall>db. ensures (fst (m db)) P)"

lemma db_ensures_bind: "(\<And>x. db_ensures (f x) P) \<Longrightarrow> db_ensures (db_bind m f) P"
  by (auto simp: db_ensures_def db_bind_def split: prod.splits sum.splits)

lemma db_ensures_return: "P x \<Longrightarrow> db_ensures (db_return x) P"
  by (simp add: db_ensures_def db_return_def)

lemma db_ensures_throw: "db_ensures (db_result (Inl e)) P"
  by (simp add: db_ensures_def db_result_def)

lemma db_ensures_statement: "db_ensures m P \<Longrightarrow> db_ensures (with_statement my sql m) P"
  unfolding with_statement_def
  by (rule db_ensures_bind) (simp add: db_ensures_def split_beta)

lemmas db_ensures_rules = db_ensures_statement db_ensures_bind db_ensures_return db_ensures_throw

definition answers :: "db_job \<Rightarrow> db_completion \<Rightarrow> bool" where
  "answers job c \<longleftrightarrow> (\<exists>line. c = ok_completion job line \<and> take 3 line = ''OK '')"

lemma answersI: "take 3 line = ''OK '' \<Longrightarrow> answers job (ok_completion job line)"
  by (auto simp: answers_def)

lemma register_answers: "db_ensures (register_player my job) (answers job)"
  unfolding register_player_def Let_def
  by (intro db_ensures_statement db_ensures_bind) (auto simp: db_ensures_def intro!: answersI split: sum.splits prod.splits)

lemma login_answers: "db_ensures (login_player my job) (answers job)"
  unfolding login_player_def Let_def
  by (intro db_ensures_bind)
    (auto intro!: db_ensures_rules answersI split: list.splits)

lemma save_character_answers: "db_ensures (save_character my job) (answers job)"
  unfolding save_character_def Let_def by (intro db_ensures_rules answersI) simp

lemma save_position_answers: "db_ensures (save_position my job) (answers job)"
  unfolding save_position_def Let_def by (intro db_ensures_rules answersI) simp

lemma load_characters_answers: "db_ensures (load_characters my job) (answers job)"
  unfolding load_characters_def Let_def by (intro db_ensures_rules answersI) simp

lemma save_inventory_answers: "db_ensures (save_inventory_item my job) (answers job)"
  unfolding save_inventory_item_def Let_def by (intro db_ensures_rules answersI) simp

lemma load_inventory_answers: "db_ensures (load_inventory my job) (answers job)"
  unfolding load_inventory_def Let_def by (intro db_ensures_rules answersI) simp

lemmas operation_answers = register_answers login_answers save_character_answers
  save_position_answers load_characters_answers save_inventory_answers load_inventory_answers

lemma execute_job_answers: "db_ensures (execute_job my job) (answers job)"
  by (cases "job_operation job")
    (simp_all add: execute_job_def db_ensures_def operation_answers [unfolded db_ensures_def])

lemma run_job_cases:
  assumes "run_job my config connected job db = (connected', c, db')"
  shows "answers job c \<or> (\<exists>e. c = error_completion job e)"
proof -
  have "answers job c'" if "execute_job my job db1 = (Inr c', db2)" for db1 db2 c'
    using execute_job_answers [of my job] that unfolding db_ensures_def
    by (metis ensures_Inr fst_conv)
  with assms show ?thesis
    by (auto simp: run_job_def split: prod.splits sum.splits if_splits)
qed

lemma run_job_key:
  "run_job my config connected job db = (connected', c, db') \<Longrightarrow> completion_key c = job_key job"
  by (auto dest!: run_job_cases simp: answers_def completion_key_def job_key_def ok_completion_def
      base_completion_def error_completion_def)

end
