(* ===== verification/Server.thy ===== *)
theory Server
  imports Protocol World Dispatcher
begin

text \<open>
  The event loop (class \<open>IoUringGameServer\<close> in include/portfolio/server.h and src/server.cpp).

  The state is the object of the source: the sessions by descriptor, the world, the dispatcher, the
  counters, and the ring with the tokens of the operations. A token is in the submission queue
  (\<open>ring_sq\<close>) until \<open>io_uring_submit\<close> hands it to the kernel (\<open>ring_inflight\<close>), and leaves there when
  its completion is handled. Every operation is a function of the state to a fault or the new
  state: an exception leaves \<open>run\<close> and ends the process, so the state it leaves does not matter.

  What comes from outside is a parameter of type \<open>platform\<close>: how many entries an
  \<open>io_uring_submit\<close> accepts (or its error), the text of an errno, and the iteration order of the hash
  sets. The result of a completion and the bytes received are arguments of the handlers.
  \<open>sv_closed\<close> and \<open>sv_log\<close> record the \<open>close\<close> calls and the lines written to \<open>std::cerr\<close>.
\<close>

section \<open>Data\<close>

datatype completion_type = KAccept | KRecv | KSend | KDatabaseEvent

record completion_token =
  t_type :: completion_type
  t_fd :: int
  t_generation :: "64 word"
  t_buffer :: nat
  t_payload :: string

record session =
  s_fd :: int
  s_generation :: "64 word"
  s_input :: string
  s_outbox :: "string list"
  s_write_in_flight :: bool
  s_close_after_flush :: bool
  s_pending_db :: "64 word"

record io_ring =
  ring_entries :: nat
  ring_sq :: "completion_token list"
  ring_inflight :: "completion_token list"

record server =
  sv_config :: server_config
  sv_database :: dispatcher
  sv_world :: sector_world
  sv_ring :: io_ring
  sv_listen_fd :: int
  sv_stopping :: bool
  sv_next_request_id :: "64 word"
  sv_next_session_generation :: "64 word"
  sv_sessions :: "int \<rightharpoonup> session"
  sv_closed :: "int list"
  sv_log :: "string list"

record platform =
  pf_submit :: "io_ring \<Rightarrow> int"
  pf_strerror :: "int \<Rightarrow> string"
  pf_order :: iter_order

type_synonym server_result = "fault + server"

definition new_session :: session where
  "new_session = \<lparr>s_fd = -1, s_generation = 0, s_input = '''', s_outbox = [],
     s_write_in_flight = False, s_close_after_flush = False, s_pending_db = 0\<rparr>"

definition new_token :: completion_token where
  "new_token = \<lparr>t_type = KAccept, t_fd = -1, t_generation = 0, t_buffer = 0, t_payload = ''''\<rparr>"

section \<open>Commands\<close>

definition operation_for :: "command_type \<Rightarrow> exn + db_operation" where
  "operation_for command = (case command of
       KRegister \<Rightarrow> Inr DbRegisterPlayer
     | KLogin \<Rightarrow> Inr DbLoginPlayer
     | KSaveCharacter \<Rightarrow> Inr DbSaveCharacter
     | KLoadCharacters \<Rightarrow> Inr DbLoadCharacters
     | KSaveInventoryItem \<Rightarrow> Inr DbSaveInventoryItem
     | KLoadInventory \<Rightarrow> Inr DbLoadInventory
     | _ \<Rightarrow> Inl (Runtime_Error ''command is not backed by a database operation''))"

definition is_database_command :: "command_type \<Rightarrow> bool" where
  "is_database_command command \<longleftrightarrow>
     command \<in> {KRegister, KLogin, KSaveCharacter, KLoadCharacters, KSaveInventoryItem, KLoadInventory}"

definition is_world_command :: "command_type \<Rightarrow> bool" where
  "is_world_command command \<longleftrightarrow> command \<in> {KEnterWorld, KMove, KAttack}"

section \<open>The submission queue\<close>

definition ring_tokens :: "io_ring \<Rightarrow> completion_token multiset" where
  "ring_tokens r = mset (ring_sq r) + mset (ring_inflight r)"

text \<open>The kernel takes the first \<open>n\<close> entries of the submission queue.\<close>

definition kernel_takes :: "nat \<Rightarrow> io_ring \<Rightarrow> io_ring" where
  "kernel_takes n r = r\<lparr>ring_sq := drop n (ring_sq r),
     ring_inflight := ring_inflight r @ take n (ring_sq r)\<rparr>"

definition get_sqe :: "platform \<Rightarrow> io_ring \<Rightarrow> fault + io_ring" where
  "get_sqe pf r =
     (if length (ring_sq r) < ring_entries r then Inr r
      else (let submitted = pf_submit pf r in
        if submitted < 0 then Inl (Exn (Runtime_Error
          (''io_uring_submit failed while reclaiming SQEs: '' @ pf_strerror pf (- submitted))))
        else (let r' = kernel_takes (nat submitted) r in
          if length (ring_sq r') < ring_entries r' then Inr r'
          else Inl (Exn (Runtime_Error ''io_uring submission queue is full'')))))"

definition push_sqe :: "platform \<Rightarrow> completion_token \<Rightarrow> server \<Rightarrow> server_result" where
  "push_sqe pf token sv =
     bind_result (get_sqe pf (sv_ring sv)) (\<lambda>r.
     Inr (sv\<lparr>sv_ring := r\<lparr>ring_sq := ring_sq r @ [token]\<rparr>\<rparr>))"

definition post_accept :: "platform \<Rightarrow> server \<Rightarrow> server_result" where
  "post_accept pf sv = push_sqe pf (new_token\<lparr>t_type := KAccept\<rparr>) sv"

definition post_recv :: "platform \<Rightarrow> int \<Rightarrow> 64 word \<Rightarrow> server \<Rightarrow> server_result" where
  "post_recv pf fd generation sv =
     push_sqe pf (new_token\<lparr>t_type := KRecv, t_fd := fd, t_generation := generation,
       t_buffer := cfg_recv_buffer_size (sv_config sv)\<rparr>) sv"

definition update_session :: "int \<Rightarrow> (session \<Rightarrow> session) \<Rightarrow> server \<Rightarrow> server" where
  "update_session fd f sv =
     sv\<lparr>sv_sessions := (sv_sessions sv)(fd := map_option f (sv_sessions sv fd))\<rparr>"

definition post_send :: "platform \<Rightarrow> int \<Rightarrow> server \<Rightarrow> server_result" where
  "post_send pf fd sv = (case sv_sessions sv fd of
       None \<Rightarrow> Inr sv
     | Some session \<Rightarrow>
         if s_write_in_flight session \<or> s_outbox session = [] then Inr sv
         else push_sqe pf (new_token\<lparr>t_type := KSend, t_fd := fd,
                t_generation := s_generation session, t_payload := hd (s_outbox session)\<rparr>)
              (update_session fd (s_write_in_flight_update (\<lambda>_. True)) sv))"

definition post_eventfd_poll :: "platform \<Rightarrow> server \<Rightarrow> server_result" where
  "post_eventfd_poll pf sv = push_sqe pf (new_token\<lparr>t_type := KDatabaseEvent\<rparr>) sv"

section \<open>Replies\<close>

definition session_matches :: "server \<Rightarrow> int \<Rightarrow> 64 word \<Rightarrow> bool" where
  "session_matches sv fd generation \<longleftrightarrow> (case sv_sessions sv fd of
       None \<Rightarrow> False
     | Some session \<Rightarrow> s_generation session = generation)"

definition terminated :: "string \<Rightarrow> string" where
  "terminated line =
     (if line = [] \<or> last line \<noteq> CHR 0x0A then line @ [CHR 0x0A] else line)"

definition queue_response :: "platform \<Rightarrow> int \<Rightarrow> 64 word \<Rightarrow> string \<Rightarrow> server \<Rightarrow> server_result" where
  "queue_response pf fd generation line sv =
     (if \<not> session_matches sv fd generation then Inr sv
      else post_send pf fd
        (update_session fd (s_outbox_update (\<lambda>outbox. outbox @ [terminated line])) sv))"

definition deliver_world_events :: "platform \<Rightarrow> world_event list \<Rightarrow> server \<Rightarrow> server_result" where
  "deliver_world_events pf =
     fold_result (\<lambda>event. queue_response pf (sr_fd (receiver event)) (sr_generation (receiver event))
       (event_line event))"

text \<open>The last line to a client: queue it, then let the session close once it is flushed.\<close>

definition farewell :: "platform \<Rightarrow> int \<Rightarrow> 64 word \<Rightarrow> string \<Rightarrow> server \<Rightarrow> server_result" where
  "farewell pf fd generation line sv =
     bind_result (queue_response pf fd generation line sv) (\<lambda>sv1.
     Inr (update_session fd (s_close_after_flush_update (\<lambda>_. True)) sv1))"

section \<open>Database jobs\<close>

definition submit_job :: "db_job \<Rightarrow> server \<Rightarrow> server" where
  "submit_job job sv = sv\<lparr>sv_database := submit job (sv_database sv)\<rparr>"

definition submit_position_save ::
  "int \<Rightarrow> 64 word \<Rightarrow> string \<Rightarrow> string \<Rightarrow> int \<Rightarrow> int \<Rightarrow> server \<Rightarrow> server" where
  "submit_position_save fd generation account character x y sv =
     submit_job \<lparr>job_client_fd = fd, job_client_generation = generation,
         job_request_id = sv_next_request_id sv, job_operation = DbSavePosition,
         job_command_name = ''SAVE_POSITION'',
         job_args = [account, character, to_string_int x, to_string_int y],
         job_notify_client = False\<rparr>
       (sv\<lparr>sv_next_request_id := sv_next_request_id sv + 1\<rparr>)"

text \<open>The lines shared by QUIT and \<open>close_session\<close>: leave the world, then save the position.\<close>

definition leave_and_save :: "platform \<Rightarrow> int \<Rightarrow> 64 word \<Rightarrow> server \<Rightarrow> server_result" where
  "leave_and_save pf fd generation sv =
     bind_result (world_leave (pf_order pf) (sv_world sv)
       \<lparr>sr_fd = fd, sr_generation = generation\<rparr> no_snapshot) (\<lambda>(world, events, snapshot).
     bind_result (deliver_world_events pf events (sv\<lparr>sv_world := world\<rparr>)) (\<lambda>sv1.
     Inr (if snap_account snapshot \<noteq> '''' then
            submit_position_save fd generation (snap_account snapshot) (snap_character snapshot)
              (snap_x snapshot) (snap_y snapshot) sv1
          else sv1)))"

section \<open>A line of a client\<close>

definition handle_quit :: "platform \<Rightarrow> int \<Rightarrow> 64 word \<Rightarrow> server \<Rightarrow> server_result" where
  "handle_quit pf fd generation sv =
     bind_result (leave_and_save pf fd generation sv) (farewell pf fd generation ''BYE'')"

definition handle_enter ::
  "platform \<Rightarrow> int \<Rightarrow> 64 word \<Rightarrow> string list \<Rightarrow> server \<Rightarrow> server_result" where
  "handle_enter pf fd generation args sv =
     bind_result (lift_exn (vector_at args 0)) (\<lambda>account.
     bind_result (lift_exn (vector_at args 1)) (\<lambda>character.
     bind_result (lift_exn (bind_result (vector_at args 2) stoi)) (\<lambda>x.
     bind_result (lift_exn (bind_result (vector_at args 3) stoi)) (\<lambda>y.
     bind_result (world_enter (pf_order pf) (sv_world sv) \<lparr>sr_fd = fd, sr_generation = generation\<rparr>
       account character x y) (\<lambda>(world, events).
     bind_result (deliver_world_events pf events (sv\<lparr>sv_world := world\<rparr>)) (\<lambda>sv1.
     Inr (submit_position_save fd generation account character x y sv1)))))))"

text \<open>
  The arguments of a call are not sequenced in C++: the two conversions of \<open>MOVE\<close> may run in either
  order. Both throw the same exception, so the order cannot be seen.
\<close>

definition handle_move ::
  "platform \<Rightarrow> int \<Rightarrow> 64 word \<Rightarrow> string list \<Rightarrow> server \<Rightarrow> server_result" where
  "handle_move pf fd generation args sv =
     bind_result (lift_exn (bind_result (vector_at args 0) stoi)) (\<lambda>x.
     bind_result (lift_exn (bind_result (vector_at args 1) stoi)) (\<lambda>y.
     bind_result (world_move (pf_order pf) (sv_world sv) \<lparr>sr_fd = fd, sr_generation = generation\<rparr>
       x y) (\<lambda>(world, events).
     deliver_world_events pf events (sv\<lparr>sv_world := world\<rparr>))))"

definition handle_attack ::
  "platform \<Rightarrow> int \<Rightarrow> 64 word \<Rightarrow> string list \<Rightarrow> server \<Rightarrow> server_result" where
  "handle_attack pf fd generation args sv =
     bind_result (lift_exn (vector_at args 0)) (\<lambda>skill.
     bind_result (lift_exn (vector_at args 1)) (\<lambda>target.
     bind_result (world_attack (pf_order pf) (sv_world sv) \<lparr>sr_fd = fd, sr_generation = generation\<rparr>
       skill target) (\<lambda>(world, events).
     deliver_world_events pf events (sv\<lparr>sv_world := world\<rparr>))))"

definition handle_database ::
  "platform \<Rightarrow> int \<Rightarrow> 64 word \<Rightarrow> request \<Rightarrow> server \<Rightarrow> server_result" where
  "handle_database pf fd generation req sv =
     (let request_id = sv_next_request_id sv;
          sv1 = sv\<lparr>sv_next_request_id := request_id + 1\<rparr> in
      bind_result (lift_exn (operation_for (req_type req))) (\<lambda>operation.
      let job = \<lparr>job_client_fd = fd, job_client_generation = generation,
                 job_request_id = request_id, job_operation = operation,
                 job_command_name = req_command_name req, job_args = req_args req,
                 job_notify_client = True\<rparr>;
          sv2 = update_session fd (s_pending_db_update (\<lambda>n. n + 1)) sv1 in
      bind_result (queue_response pf fd generation
        (''PENDING '' @ to_string_word request_id @ '' '' @ job_command_name job) sv2) (\<lambda>sv3.
      Inr (submit_job job sv3))))"

definition handle_client_line ::
  "platform \<Rightarrow> int \<Rightarrow> 64 word \<Rightarrow> string \<Rightarrow> server \<Rightarrow> server_result" where
  "handle_client_line pf fd generation line sv =
     (let parsed = parse_line line; req = parsed_request parsed in
      if \<not> ok parsed then queue_response pf fd generation (''ERR '' @ parse_message parsed) sv
      else if req_type req = KQuit then handle_quit pf fd generation sv
      else
        (let otherwise = (if \<not> is_database_command (req_type req)
               then queue_response pf fd generation ''ERR unsupported command'' sv
               else handle_database pf fd generation req sv) in
         if is_world_command (req_type req) then
           (case req_type req of
              KEnterWorld \<Rightarrow> handle_enter pf fd generation (req_args req) sv
            | KMove \<Rightarrow> handle_move pf fd generation (req_args req) sv
            | KAttack \<Rightarrow> handle_attack pf fd generation (req_args req) sv
            | _ \<Rightarrow> otherwise)
         else otherwise))"

section \<open>Closing\<close>

definition close_session :: "platform \<Rightarrow> int \<Rightarrow> server \<Rightarrow> server_result" where
  "close_session pf fd sv = (case sv_sessions sv fd of
       None \<Rightarrow> Inr sv
     | Some session \<Rightarrow>
         bind_result (if sv_stopping sv then Inr sv
           else leave_and_save pf (s_fd session) (s_generation session) sv) (\<lambda>sv1.
         Inr (sv1\<lparr>sv_closed := sv_closed sv1 @ [s_fd session],
                  sv_sessions := (sv_sessions sv1)(fd := None)\<rparr>)))"

definition maybe_close_after_flush :: "platform \<Rightarrow> int \<Rightarrow> server \<Rightarrow> server_result" where
  "maybe_close_after_flush pf fd sv = (case sv_sessions sv fd of
       None \<Rightarrow> Inr sv
     | Some session \<Rightarrow>
         if s_close_after_flush session \<and> \<not> s_write_in_flight session \<and> s_outbox session = []
         then close_session pf fd sv else Inr sv)"


section \<open>Frames: what every operation keeps\<close>

text \<open>
  Most facts about the handlers have one shape: a reflexive and transitive relation \<open>R\<close> between the
  state before and after that every operation respects. The locales below ask for it on the
  primitive steps only and derive it for the handlers: \<open>server_frame\<close> for replies and database
  jobs, \<open>reply_frame\<close> with changes of the world, \<open>line_frame\<close> for a line of the session \<open>fd\<close> (the
  farewell may rely on a condition \<open>ready\<close> that \<open>R\<close> keeps), and \<open>closing_frame\<close> for closing sessions.
\<close>

locale server_frame =
  fixes pf :: platform and R :: "server \<Rightarrow> server \<Rightarrow> bool"
  assumes refl: "R sv sv"
    and trans: "R sv sv1 \<Longrightarrow> R sv1 sv2 \<Longrightarrow> R sv sv2"
    and respond: "ensures (queue_response pf fd' generation' line sv) (R sv)"
    and request: "R sv (sv\<lparr>sv_next_request_id := n\<rparr>)"
    and job: "R sv (submit_job j sv)"
begin

lemma then_ensures:
  "ensures r (R sv) \<Longrightarrow> (\<And>sv1. R sv sv1 \<Longrightarrow> ensures (f sv1) (R sv1)) \<Longrightarrow>
   ensures (bind_result r f) (R sv)"
  by (cases r) (auto simp: ensures_iff intro: trans)

lemma deliver: "ensures (deliver_world_events pf events sv) (R sv)"
  unfolding deliver_world_events_def
proof (rule ensures_fold_result)
  fix event sv1 assume "R sv sv1"
  then show "ensures (queue_response pf (sr_fd (receiver event)) (sr_generation (receiver event))
      (event_line event) sv1) (R sv)"
    by (rule ensures_mono [OF respond trans])
qed (rule refl)

lemma then_job: "R sv sv1 \<Longrightarrow> R sv (submit_job j sv1)"
  by (rule trans [OF _ job])

lemma then_save: "R sv sv1 \<Longrightarrow> R sv (submit_position_save fd' generation' account character x y sv1)"
  unfolding submit_position_save_def by (rule trans [OF _ trans [OF request job]])

end

locale reply_frame = server_frame +
  assumes world: "R sv (sv\<lparr>sv_world := w\<rparr>)"
begin

lemma deliver_in: "ensures (deliver_world_events pf events (sv\<lparr>sv_world := w\<rparr>)) (R sv)"
  by (rule ensures_mono [OF deliver trans [OF world]])

lemma leave_and_save: "ensures (leave_and_save pf fd' generation' sv) (R sv)"
  unfolding leave_and_save_def
proof (rule ensures_bind, unfold ensures_iff, intro allI impI)
  fix p sv'
  assume "(case p of (world, events, snapshot) \<Rightarrow>
      bind_result (deliver_world_events pf events (sv\<lparr>sv_world := world\<rparr>)) (\<lambda>sv1.
      Inr (if snap_account snapshot \<noteq> '''' then
            submit_position_save fd' generation' (snap_account snapshot) (snap_character snapshot)
              (snap_x snapshot) (snap_y snapshot) sv1
          else sv1))) = Inr sv'"
  then show "R sv sv'"
    using ensuresD [OF deliver_in]
    by (auto simp: bind_result_Inr_iff split: prod.splits intro!: then_save)
qed

end

locale line_frame = reply_frame +
  fixes fd :: int and generation :: "64 word" and ready :: "server \<Rightarrow> bool"
  assumes pending: "R sv (update_session fd (s_pending_db_update f) sv)"
    and stays_ready: "R sv sv' \<Longrightarrow> ready sv \<Longrightarrow> ready sv'"
    and farewell: "ready sv \<Longrightarrow> ensures (farewell pf fd generation line sv) (R sv)"
begin

lemma quit:
  "ready sv \<Longrightarrow> ensures (handle_quit pf fd generation sv) (R sv)"
  unfolding handle_quit_def
  by (rule then_ensures [OF leave_and_save]) (blast intro: farewell stays_ready)

lemma enter: "ensures (handle_enter pf fd generation args sv) (R sv)"
  unfolding handle_enter_def
  using deliver_in [where sv = sv] by (auto simp: ensures_iff bind_result_Inr_iff intro!: then_save)

lemma move_line: "ensures (handle_move pf fd generation args sv) (R sv)"
  unfolding handle_move_def
  using deliver_in [where sv = sv] by (auto simp: ensures_iff bind_result_Inr_iff)

lemma attack_line: "ensures (handle_attack pf fd generation args sv) (R sv)"
  unfolding handle_attack_def
  using deliver_in [where sv = sv] by (auto simp: ensures_iff bind_result_Inr_iff)

lemma database: "ensures (handle_database pf fd generation req sv) (R sv)"
proof -
  have "R sv sv3" if "queue_response pf fd generation line
      (update_session fd (s_pending_db_update f) (sv\<lparr>sv_next_request_id := n\<rparr>)) = Inr sv3" for line f n sv3
    using ensuresD [OF respond that] trans [OF request pending] trans by blast
  then show ?thesis
    unfolding handle_database_def Let_def
    by (auto simp: ensures_iff bind_result_Inr_iff intro!: then_job)
qed

lemma client_line:
  "ready sv \<Longrightarrow> ensures (handle_client_line pf fd generation line sv) (R sv)"
  unfolding handle_client_line_def Let_def
  by (simp add: quit enter move_line attack_line database respond split: command_type.split)

end

locale closing_frame = reply_frame +
  assumes drop: "R sv (sv\<lparr>sv_closed := fds, sv_sessions := (sv_sessions sv)(fd := None)\<rparr>)"
begin

lemma then_drop: "R sv sv1 \<Longrightarrow>
    R sv (sv1\<lparr>sv_closed := fds, sv_sessions := (sv_sessions sv1)(fd := None)\<rparr>)"
  by (rule trans [OF _ drop])

lemma close: "ensures (close_session pf fd sv) (R sv)"
  using leave_and_save [of _ _ sv] refl [of sv]
  by (auto simp: close_session_def ensures_iff bind_result_Inr_iff intro!: then_drop
      split: option.splits if_splits)

lemma maybe_close: "ensures (maybe_close_after_flush pf fd sv) (R sv)"
  using close refl by (auto simp: maybe_close_after_flush_def split: option.splits)

end


section \<open>The primitive steps\<close>

definition send_token :: "int \<Rightarrow> 64 word \<Rightarrow> string \<Rightarrow> completion_token" where
  "send_token fd generation payload =
     new_token\<lparr>t_type := KSend, t_fd := fd, t_generation := generation, t_payload := payload\<rparr>"

lemma ring_tokens_kernel_takes [simp]: "ring_tokens (kernel_takes n r) = ring_tokens r"
proof -
  have "mset (take n (ring_sq r)) + mset (drop n (ring_sq r)) = mset (ring_sq r)"
    by (metis append_take_drop_id mset_append)
  then show ?thesis by (simp add: ring_tokens_def kernel_takes_def add.commute add.left_commute)
qed

lemma get_sqe_cases:
  "get_sqe pf r = Inr r' \<Longrightarrow> r' = r \<or> (\<exists>n. r' = kernel_takes n r)"
  by (auto simp: get_sqe_def Let_def split: if_splits)

lemma push_sqe_cases:
  assumes "push_sqe pf token sv = Inr sv'"
  obtains r where "sv' = sv\<lparr>sv_ring := r\<rparr>"
    and "ring_tokens r = add_mset token (ring_tokens (sv_ring sv))"
proof -
  from assms obtain r where "get_sqe pf (sv_ring sv) = Inr r"
    and sv': "sv' = sv\<lparr>sv_ring := r\<lparr>ring_sq := ring_sq r @ [token]\<rparr>\<rparr>"
    by (auto simp: push_sqe_def bind_result_Inr_iff)
  then have "ring_tokens r = ring_tokens (sv_ring sv)" using get_sqe_cases by fastforce
  then show ?thesis using that [OF sv'] by (simp add: ring_tokens_def)
qed

text \<open>Every reply to a live session ends with a send in flight for it.\<close>

lemma post_send_cases:
  assumes "post_send pf fd sv = Inr sv'"
  obtains (none) "sv_sessions sv fd = None" "sv' = sv"
  | (idle) s where "sv_sessions sv fd = Some s" "s_write_in_flight s \<or> s_outbox s = []" "sv' = sv"
  | (posted) s r where "sv_sessions sv fd = Some s" "\<not> s_write_in_flight s" "s_outbox s \<noteq> []"
      "sv' = sv\<lparr>sv_sessions := (sv_sessions sv)(fd \<mapsto> s\<lparr>s_write_in_flight := True\<rparr>), sv_ring := r\<rparr>"
      "ring_tokens r = add_mset (send_token fd (s_generation s) (hd (s_outbox s)))
         (ring_tokens (sv_ring sv))"
proof (cases "sv_sessions sv fd")
  case None
  with assms show ?thesis by (intro none) (simp_all add: post_send_def)
next
  case (Some s)
  show ?thesis
  proof (cases "s_write_in_flight s \<or> s_outbox s = []")
    case True
    with assms Some show ?thesis by (intro idle [of s]) (auto simp: post_send_def)
  next
    case False
    with assms Some have "push_sqe pf (send_token fd (s_generation s) (hd (s_outbox s)))
        (update_session fd (s_write_in_flight_update (\<lambda>_. True)) sv) = Inr sv'"
      by (simp add: post_send_def send_token_def)
    then obtain r where "sv' = (update_session fd (s_write_in_flight_update (\<lambda>_. True)) sv)\<lparr>sv_ring := r\<rparr>"
      and "ring_tokens r = add_mset (send_token fd (s_generation s) (hd (s_outbox s)))
         (ring_tokens (sv_ring sv))"
      by (auto elim!: push_sqe_cases simp: update_session_def)
    with False Some show ?thesis by (intro posted [of s r]) (simp_all add: update_session_def)
  qed
qed

definition queued :: "string \<Rightarrow> session \<Rightarrow> session" where
  "queued line s = s\<lparr>s_outbox := s_outbox s @ [terminated line], s_write_in_flight := True\<rparr>"

lemma queued_in_flight:
  "s_write_in_flight s \<Longrightarrow> s_outbox_update (\<lambda>outbox. outbox @ [terminated line]) s = queued line s"
  by (cases s) (simp add: queued_def)

lemma queued_posted:
  "(s_outbox_update (\<lambda>outbox. outbox @ [terminated line]) s)\<lparr>s_write_in_flight := True\<rparr> = queued line s"
  by (cases s) (simp add: queued_def)

lemma queue_response_cases:
  assumes "queue_response pf fd generation line sv = Inr sv'"
  obtains (dropped) "\<not> session_matches sv fd generation" "sv' = sv"
  | (queued) s r where "sv_sessions sv fd = Some s" "s_generation s = generation"
      "sv' = sv\<lparr>sv_sessions := (sv_sessions sv)(fd \<mapsto> queued line s), sv_ring := r\<rparr>"
      "ring_tokens r = (if s_write_in_flight s then ring_tokens (sv_ring sv)
         else add_mset (send_token fd generation (hd (s_outbox s @ [terminated line])))
           (ring_tokens (sv_ring sv)))"
proof (cases "session_matches sv fd generation")
  case False
  with assms show ?thesis by (intro dropped) (auto simp: queue_response_def)
next
  case True
  then obtain s where s: "sv_sessions sv fd = Some s" "s_generation s = generation"
    by (auto simp: session_matches_def split: option.splits)
  let ?f = "s_outbox_update (\<lambda>outbox. outbox @ [terminated line])"
  have up: "update_session fd ?f sv = sv\<lparr>sv_sessions := (sv_sessions sv)(fd \<mapsto> ?f s)\<rparr>"
    using s by (simp add: update_session_def)
  have "post_send pf fd (update_session fd ?f sv) = Inr sv'"
    using assms True by (simp add: queue_response_def)
  then show ?thesis
  proof (cases rule: post_send_cases)
    case none
    then show ?thesis by (simp add: up)
  next
    case (idle s')
    then have "s' = ?f s" "sv' = update_session fd ?f sv" "s_write_in_flight s" by (auto simp: up)
    then show ?thesis using s
      by (intro queued [of s "sv_ring sv"]) (simp_all add: up queued_in_flight)
  next
    case (posted s' r)
    then have "s' = ?f s" by (simp add: up)
    with posted s show ?thesis
      by (intro queued [of s r]) (simp_all add: up queued_posted)
  qed
qed

section \<open>Sessions only grow while a line is handled\<close>

definition kept :: "server \<Rightarrow> server \<Rightarrow> bool" where
  "kept sv sv' \<longleftrightarrow> sv_config sv' = sv_config sv \<and> sv_listen_fd sv' = sv_listen_fd sv \<and>
     sv_stopping sv' = sv_stopping sv \<and>
     sv_next_session_generation sv' = sv_next_session_generation sv \<and> sv_log sv' = sv_log sv \<and>
     dd_completions (sv_database sv') = dd_completions (sv_database sv) \<and>
     dd_event_count (sv_database sv') = dd_event_count (sv_database sv) \<and>
     dd_workers (sv_database sv') = dd_workers (sv_database sv)"

definition session_grows :: "session \<Rightarrow> session \<Rightarrow> bool" where
  "session_grows s s' \<longleftrightarrow> s_fd s' = s_fd s \<and> s_generation s' = s_generation s \<and>
     s_input s' = s_input s \<and> (\<exists>lines. s_outbox s' = s_outbox s @ lines) \<and>
     (s_close_after_flush s \<longrightarrow> s_close_after_flush s')"

definition evolves :: "server \<Rightarrow> server \<Rightarrow> bool" where
  "evolves sv sv' \<longleftrightarrow> kept sv sv' \<and>
     (\<forall>fd s'. sv_sessions sv' fd = Some s' \<longrightarrow>
        (\<exists>s. sv_sessions sv fd = Some s \<and> session_grows s s'))"

definition steady :: "server \<Rightarrow> server \<Rightarrow> bool" where
  "steady sv sv' \<longleftrightarrow> evolves sv sv' \<and> dom (sv_sessions sv') = dom (sv_sessions sv)"

lemma session_grows_refl [simp]: "session_grows s s"
  by (simp add: session_grows_def)

lemma session_grows_trans: "session_grows s s1 \<Longrightarrow> session_grows s1 s2 \<Longrightarrow> session_grows s s2"
  by (auto simp: session_grows_def)

lemma evolves_refl [simp]: "evolves sv sv"
  by (simp add: evolves_def kept_def)

lemma evolves_trans: "evolves sv sv1 \<Longrightarrow> evolves sv1 sv2 \<Longrightarrow> evolves sv sv2"
proof -
  assume first: "evolves sv sv1" and second: "evolves sv1 sv2"
  have "kept sv sv2" using first second by (simp add: evolves_def kept_def)
  moreover have "\<exists>s. sv_sessions sv fd = Some s \<and> session_grows s s2"
    if s2: "sv_sessions sv2 fd = Some s2" for fd s2
  proof -
    obtain s1 where s1: "sv_sessions sv1 fd = Some s1" "session_grows s1 s2"
      using second s2 by (auto simp: evolves_def)
    obtain s where "sv_sessions sv fd = Some s" "session_grows s s1"
      using first s1(1) by (auto simp: evolves_def)
    with s1(2) show ?thesis using session_grows_trans by blast
  qed
  ultimately show ?thesis by (simp add: evolves_def)
qed

lemma session_grows_queued [simp]: "session_grows s (queued line s)"
  by (simp add: session_grows_def queued_def)

lemma steady_update_session:
  "(\<And>s. session_grows s (f s)) \<Longrightarrow> steady sv (update_session fd f sv)"
  by (auto simp: steady_def evolves_def kept_def update_session_def split: if_splits)

lemma steady_refl [simp]: "steady sv sv"
  by (simp add: steady_def)

lemma steady_trans: "steady sv sv1 \<Longrightarrow> steady sv1 sv2 \<Longrightarrow> steady sv sv2"
  unfolding steady_def using evolves_trans [of sv sv1 sv2] by simp

lemma steady_respond: "ensures (queue_response pf fd generation line sv) (steady sv)"
  unfolding ensures_iff
proof (intro allI impI)
  fix sv' assume "queue_response pf fd generation line sv = Inr sv'"
  then show "steady sv sv'"
    by (cases rule: queue_response_cases)
      (auto simp: steady_def evolves_def kept_def split: if_splits)
qed

lemma steady_request: "steady sv (sv\<lparr>sv_next_request_id := n\<rparr>)"
  by (auto simp: steady_def evolves_def kept_def)

lemma steady_job: "steady sv (submit_job j sv)"
  by (auto simp: steady_def evolves_def kept_def submit_job_def submit_def)

lemma steady_world: "steady sv (sv\<lparr>sv_world := w\<rparr>)"
  by (auto simp: steady_def evolves_def kept_def)

lemma steady_matches:
  "steady sv sv' \<Longrightarrow> session_matches sv fd generation \<Longrightarrow> session_matches sv' fd generation"
  by (auto simp: steady_def evolves_def session_matches_def session_grows_def dom_def set_eq_iff
      split: option.splits) (metis not_None_eq option.inject)

lemma steady_session:
  assumes "steady sv sv'" and "sv_sessions sv fd = Some s"
  obtains s' where "sv_sessions sv' fd = Some s'" and "session_grows s s'"
proof -
  have "fd \<in> dom (sv_sessions sv')" using assms by (simp add: steady_def domI)
  then obtain s' where s': "sv_sessions sv' fd = Some s'" by auto
  then obtain s1 where "sv_sessions sv fd = Some s1" "session_grows s1 s'"
    using assms(1) unfolding steady_def evolves_def by blast
  with assms(2) s' show ?thesis by (intro that) auto
qed

lemma steady_farewell: "ensures (farewell pf fd generation line sv) (steady sv)"
  unfolding farewell_def
  using steady_respond [of pf fd generation line sv]
    steady_update_session [of "s_close_after_flush_update (\<lambda>_. True)" _ fd]
  by (auto simp: ensures_iff bind_result_Inr_iff session_grows_def intro: steady_trans)

interpretation steady: line_frame pf steady fd generation "\<lambda>_. True" for pf fd generation
  by unfold_locales
    (auto intro: steady_trans steady_respond steady_request steady_job steady_world steady_matches
      steady_farewell steady_update_session simp: session_grows_def)

lemma evolves_drop:
  "evolves sv (sv\<lparr>sv_closed := fds, sv_sessions := (sv_sessions sv)(fd := None)\<rparr>)"
  by (auto simp: evolves_def kept_def split: if_splits)

interpretation evolves: closing_frame pf evolves for pf
proof unfold_locales
  show "ensures (queue_response pf fd generation line sv) (evolves sv)" for fd generation line sv
    by (rule ensures_mono [OF steady_respond]) (simp add: steady_def)
qed (use steady_request steady_job steady_world in \<open>auto simp: steady_def intro: evolves_trans evolves_drop\<close>)

end
