(* ===== verification/Event_Loop.thy ===== *)
theory Event_Loop
  imports Server
begin

text \<open>
  The handlers of the four completions in \<open>IoUringGameServer::run\<close> (src/server.cpp), the start of the
  loop, \<open>stop\<close>, and the loop itself as a step relation \<open>loop_step\<close> on the state of Server.thy.

  The environment of the loop is the kernel. It takes entries of the submission queue at any moment
  and completes any operation in flight, in any order, with any result \<open>outcome_ok\<close> allows: what is
  received fits the buffer, no more is sent than was given, and a new connection gets a descriptor
  no live session uses. The generations are 64 bits; \<open>outcome_ok\<close> bounds a run to fewer than
  \<open>2 ^ 64 - 1\<close> connections. The reads of the eventfd and the pops of one database event are one step here;
  Dispatcher_Properties.thy treats their interleaving with the workers.
\<close>

section \<open>Receiving\<close>

definition take_line :: "string \<Rightarrow> (string \<times> string) option" where
  "take_line input = (case dropWhile (\<lambda>c. c \<noteq> CHR 0x0A) input of
       [] \<Rightarrow> None
     | _ # rest \<Rightarrow> Some (takeWhile (\<lambda>c. c \<noteq> CHR 0x0A) input, rest))"

lemma take_line_shrinks: "take_line input = Some (line, rest) \<Longrightarrow> length rest < length input"
  using length_dropWhile_le [of "\<lambda>c. c \<noteq> CHR 0x0A" input]
  by (auto simp: take_line_def split: list.splits)

definition input_length :: "int \<Rightarrow> server \<Rightarrow> nat" where
  "input_length fd sv = (case sv_sessions sv fd of None \<Rightarrow> 0 | Some s \<Rightarrow> length (s_input s))"

definition is_closing :: "server \<Rightarrow> int \<Rightarrow> bool" where
  "is_closing sv fd \<longleftrightarrow> (case sv_sessions sv fd of None \<Rightarrow> False | Some s \<Rightarrow> s_close_after_flush s)"

text \<open>The loop over the complete lines of the input buffer.\<close>

function process_lines :: "platform \<Rightarrow> int \<Rightarrow> 64 word \<Rightarrow> server \<Rightarrow> server_result" where
  "process_lines pf fd generation sv = (case sv_sessions sv fd of
       None \<Rightarrow> Inr sv
     | Some session \<Rightarrow> (case take_line (s_input session) of
           None \<Rightarrow> Inr sv
         | Some (line, rest) \<Rightarrow>
             bind_result (handle_client_line pf (s_fd session) (s_generation session) line
               (update_session fd (s_input_update (\<lambda>_. rest)) sv)) (\<lambda>sv1.
             if \<not> session_matches sv1 fd generation \<or> is_closing sv1 fd then Inr sv1
             else process_lines pf fd generation sv1)))"
  by pat_completeness auto
termination
proof (relation "measure (\<lambda>(pf, fd, generation, sv). input_length fd sv)")
  fix pf fd generation sv session pair line rest sv1
  assume here: "sv_sessions sv fd = Some session" and line: "take_line (s_input session) = Some pair"
    and pair: "(line, rest) = pair"
    and handled: "handle_client_line pf (s_fd session) (s_generation session) line
      (update_session fd (s_input_update (\<lambda>_. rest)) sv) = Inr sv1"
  let ?sv0 = "update_session fd (s_input_update (\<lambda>_. rest)) sv"
  have "steady ?sv0 sv1" using ensuresD [OF steady.client_line handled] by simp
  moreover have "sv_sessions ?sv0 fd = Some (session\<lparr>s_input := rest\<rparr>)"
    using here by (simp add: update_session_def)
  ultimately have "input_length fd sv1 = length rest"
    by (auto elim!: steady_session simp: session_grows_def input_length_def)
  then show "((pf, fd, generation, sv1), pf, fd, generation, sv) \<in>
      measure (\<lambda>(pf, fd, generation, sv). input_length fd sv)"
    using take_line_shrinks [of "s_input session" line rest] line pair here
    by (simp add: input_length_def)
qed simp

declare process_lines.simps [simp del]

lemma matches_update:
  "(\<And>s. s_generation (f s) = s_generation s) \<Longrightarrow>
   session_matches (update_session fd f sv) fd2 generation = session_matches sv fd2 generation"
  by (auto simp: session_matches_def update_session_def split: option.splits)

lemma matches_session:
  assumes "session_matches sv fd generation"
  obtains s where "sv_sessions sv fd = Some s" and "s_generation s = generation"
  using assms by (auto simp: session_matches_def split: option.splits)

text \<open>What holds for every line of a session holds for the loop over its lines.\<close>

lemma process_lines_rule:
  assumes input: "\<And>sv f. I sv \<Longrightarrow> I (update_session fd (s_input_update f) sv)"
    and line: "\<And>sv line. I sv \<Longrightarrow> session_matches sv fd generation \<Longrightarrow>
      ensures (handle_client_line pf fd generation line sv) I"
    and key: "\<And>sv s. I sv \<Longrightarrow> sv_sessions sv fd = Some s \<Longrightarrow> s_fd s = fd"
    and "I sv" and "session_matches sv fd generation"
  shows "ensures (process_lines pf fd generation sv) I"
  using \<open>I sv\<close> \<open>session_matches sv fd generation\<close>
proof (induction "input_length fd sv" arbitrary: sv rule: less_induct)
  case less
  from \<open>session_matches sv fd generation\<close> obtain s
    where s: "sv_sessions sv fd = Some s" and gen: "s_generation s = generation"
    by (rule matches_session)
  have fd: "s_fd s = fd" using key \<open>I sv\<close> s by blast
  show ?case
  proof (cases "take_line (s_input s)")
    case None
    have "process_lines pf fd generation sv = Inr sv"
      unfolding process_lines.simps [of pf fd generation sv] s option.case None ..
    then show ?thesis using \<open>I sv\<close> by simp
  next
    case (Some pair)
    then obtain l rest where l: "take_line (s_input s) = Some (l, rest)" by (cases pair) auto
    let ?sv0 = "update_session fd (s_input_update (\<lambda>_. rest)) sv"
    have I0: "I ?sv0" using \<open>I sv\<close> by (rule input)
    have m0: "session_matches ?sv0 fd generation"
      using \<open>session_matches sv fd generation\<close> by (simp add: matches_update)
    have eq: "process_lines pf fd generation sv =
        bind_result (handle_client_line pf fd generation l ?sv0) (\<lambda>sv1.
          if \<not> session_matches sv1 fd generation \<or> is_closing sv1 fd then Inr sv1
          else process_lines pf fd generation sv1)"
      unfolding process_lines.simps [of pf fd generation sv] s option.case l prod.case fd gen ..
    have rest: "ensures (if \<not> session_matches sv1 fd generation \<or> is_closing sv1 fd then Inr sv1
          else process_lines pf fd generation sv1) I"
      if handled: "handle_client_line pf fd generation l ?sv0 = Inr sv1" for sv1
    proof -
      have I1: "I sv1" using ensuresD [OF line [OF I0 m0] handled] .
      have "steady ?sv0 sv1" using ensuresD [OF steady.client_line handled] by simp
      moreover have "sv_sessions ?sv0 fd = Some (s\<lparr>s_input := rest\<rparr>)"
        using s by (simp add: update_session_def)
      ultimately have "input_length fd sv1 = length rest"
        by (auto elim!: steady_session simp: session_grows_def input_length_def)
      then have "input_length fd sv1 < input_length fd sv"
        using take_line_shrinks [OF l] s by (simp add: input_length_def)
      then show ?thesis using less.hyps I1 by simp
    qed
    show ?thesis
      unfolding eq
      by (rule ensures_bind, subst ensures_iff, intro allI impI, rule rest)
  qed
qed

text \<open>A relation that every line respects is respected by the loop over the lines.\<close>

lemma process_lines_frame:
  assumes refl: "\<And>sv. R sv sv" and trans: "\<And>sv sv1 sv2. R sv sv1 \<Longrightarrow> R sv1 sv2 \<Longrightarrow> R sv sv2"
    and input: "\<And>fd f sv. R sv (update_session fd f sv)"
    and line: "\<And>fd g l sv. ensures (handle_client_line pf fd g l sv) (R sv)"
  shows "ensures (process_lines pf fd g sv) (R sv)"
  using line
proof (induction pf fd g sv rule: process_lines.induct)
  case (1 pf fd g sv)
  show ?case
  proof (cases "sv_sessions sv fd")
    case None
    then show ?thesis by (simp add: process_lines.simps [of pf fd g sv] refl)
  next
    case (Some s)
    show ?thesis
    proof (cases "take_line (s_input s)")
      case None
      then show ?thesis by (simp add: process_lines.simps [of pf fd g sv] Some refl)
    next
      case here: (Some pair)
      obtain l rest where pair: "pair = (l, rest)" by (cases pair)
      let ?sv0 = "update_session fd (s_input_update (\<lambda>_. rest)) sv"
      have eq: "process_lines pf fd g sv =
          bind_result (handle_client_line pf (s_fd s) (s_generation s) l ?sv0) (\<lambda>sv1.
            if \<not> session_matches sv1 fd g \<or> is_closing sv1 fd then Inr sv1
            else process_lines pf fd g sv1)"
        unfolding process_lines.simps [of pf fd g sv] Some option.case here pair prod.case ..
      have "R ?sv0 sv2"
        if h: "handle_client_line pf (s_fd s) (s_generation s) l ?sv0 = Inr sv1"
          and r: "(if \<not> session_matches sv1 fd g \<or> is_closing sv1 fd then Inr sv1
            else process_lines pf fd g sv1) = Inr sv2" for sv1 sv2
      proof -
        have "R ?sv0 sv1" using ensuresD [OF "1.prems" h] .
        moreover have "R sv1 sv2"
          using r "1.IH" [OF Some here pair [symmetric] h _ "1.prems"] by (auto simp: ensures_iff refl split: if_splits)
        ultimately show ?thesis by (rule trans)
      qed
      then have "R sv sv2" if "process_lines pf fd g sv = Inr sv2" for sv2
        using that trans [OF input] unfolding eq bind_result_Inr_iff by blast
      then show ?thesis by (simp add: ensures_iff)
    qed
  qed
qed

definition too_long :: "server \<Rightarrow> int \<Rightarrow> bool" where
  "too_long sv fd \<longleftrightarrow> cfg_max_line_size (sv_config sv) < input_length fd sv"

definition on_recv ::
  "platform \<Rightarrow> completion_token \<Rightarrow> int \<Rightarrow> string \<Rightarrow> server \<Rightarrow> server_result" where
  "on_recv pf token result data sv =
     (let fd = t_fd token; generation = t_generation token in
      if \<not> session_matches sv fd generation then Inr sv
      else if result \<le> 0 then close_session pf fd sv
      else
        bind_result (process_lines pf fd generation
          (update_session fd (s_input_update (\<lambda>input. input @ data)) sv)) (\<lambda>sv1.
        if \<not> session_matches sv1 fd generation then Inr sv1
        else
          bind_result (if too_long sv1 fd
            then farewell pf fd generation ''ERR line too long'' sv1 else Inr sv1) (\<lambda>sv2.
          if \<not> is_closing sv2 fd then post_recv pf fd generation sv2
          else maybe_close_after_flush pf fd sv2)))"

section \<open>Accepting\<close>

definition ECANCELED :: int where "ECANCELED = 125"
definition EINVAL :: int where "EINVAL = 22"

definition hello_line :: string where
  "hello_line = ''HELLO commands=REGISTER,LOGIN,SAVE,LOAD,ENTER,MOVE,ATTACK,'' @
     ''SAVE_ITEM,LOAD_INVENTORY,QUIT''"

text \<open>\<open>emplace\<close> keeps an entry that is already there.\<close>

definition add_session :: "session \<Rightarrow> server \<Rightarrow> server" where
  "add_session session sv = (case sv_sessions sv (s_fd session) of
       None \<Rightarrow> sv\<lparr>sv_sessions := (sv_sessions sv)(s_fd session \<mapsto> session)\<rparr>
     | Some _ \<Rightarrow> sv)"

definition open_session :: "platform \<Rightarrow> int \<Rightarrow> server \<Rightarrow> server_result" where
  "open_session pf fd sv =
     (let generation = sv_next_session_generation sv;
          session = new_session\<lparr>s_fd := fd, s_generation := generation\<rparr> in
      bind_result (queue_response pf fd generation hello_line
        (add_session session (sv\<lparr>sv_next_session_generation := generation + 1\<rparr>)))
        (post_recv pf fd generation))"

definition on_accept :: "platform \<Rightarrow> int \<Rightarrow> server \<Rightarrow> server_result" where
  "on_accept pf result sv =
     bind_result (if 0 \<le> result then open_session pf result sv
       else if result \<noteq> - ECANCELED \<and> result \<noteq> - EINVAL
       then Inr (sv\<lparr>sv_log := sv_log sv @ [''accept failed: '' @ pf_strerror pf (- result)]\<rparr>)
       else Inr sv) (\<lambda>sv1.
     if \<not> sv_stopping sv1 then post_accept pf sv1 else Inr sv1)"

section \<open>Sending\<close>

text \<open>What was sent leaves the front of the outbox.\<close>

definition flush_front :: "nat \<Rightarrow> string list \<Rightarrow> string list" where
  "flush_front sent outbox = (case outbox of
       [] \<Rightarrow> []
     | front # rest \<Rightarrow> if length front \<le> sent then rest else drop sent front # rest)"

definition on_send :: "platform \<Rightarrow> completion_token \<Rightarrow> int \<Rightarrow> server \<Rightarrow> server_result" where
  "on_send pf token result sv =
     (let fd = t_fd token in
      if \<not> session_matches sv fd (t_generation token) then Inr sv
      else
        (let sv1 = update_session fd (s_write_in_flight_update (\<lambda>_. False)) sv;
             session = the (sv_sessions sv1 fd) in
         if result \<le> 0 \<or> s_outbox session = [] then close_session pf fd sv1
         else
           bind_result (post_send pf fd
             (update_session fd (s_outbox_update (flush_front (nat result))) sv1))
             (maybe_close_after_flush pf fd)))"

section \<open>Completed database jobs\<close>

definition on_completion :: "platform \<Rightarrow> db_completion \<Rightarrow> server \<Rightarrow> server_result" where
  "on_completion pf completion sv =
     (let fd = dc_client_fd completion; generation = dc_client_generation completion in
      if \<not> dc_notify_client completion then
        Inr (if \<not> dc_ok completion
             then sv\<lparr>sv_log := sv_log sv @ [''background db job failed: '' @ dc_line completion]\<rparr>
             else sv)
      else if \<not> session_matches sv fd generation then Inr sv
      else
        (let sv1 = update_session fd (s_pending_db_update (\<lambda>n. if 0 < n then n - 1 else n)) sv;
             prefix = (if dc_ok completion then ''DONE '' else ''FAIL '') in
         bind_result (queue_response pf fd generation
           (prefix @ to_string_word (dc_request_id completion) @ '' '' @ dc_line completion) sv1)
           (maybe_close_after_flush pf fd)))"

lemma on_completion_keeps:
  "ensures (on_completion pf completion sv)
     (\<lambda>sv'. dd_completions (sv_database sv') = dd_completions (sv_database sv))"
proof -
  have "evolves sv sv'" if "bind_result (queue_response pf fd generation line
      (update_session fd (s_pending_db_update f) sv)) (maybe_close_after_flush pf fd) = Inr sv'"
    for fd generation line f sv'
  proof -
    have "evolves sv (update_session fd (s_pending_db_update f) sv)"
      using steady.pending [of sv fd f] by (simp add: steady_def)
    moreover have "ensures (bind_result (queue_response pf fd generation line
        (update_session fd (s_pending_db_update f) sv)) (maybe_close_after_flush pf fd))
        (evolves (update_session fd (s_pending_db_update f) sv))"
      by (rule evolves.then_ensures [OF evolves.respond evolves.maybe_close])
    ultimately show ?thesis using that by (blast intro: evolves_trans dest: ensuresD)
  qed
  then show ?thesis
    by (auto simp: on_completion_def ensures_iff Let_def evolves_def kept_def split: if_splits)
qed

function drain_completions :: "platform \<Rightarrow> server \<Rightarrow> server_result" where
  "drain_completions pf sv = (case pop_completion (sv_database sv) of
       (None, _) \<Rightarrow> Inr sv
     | (Some completion, database) \<Rightarrow>
         bind_result (on_completion pf completion (sv\<lparr>sv_database := database\<rparr>))
           (drain_completions pf))"
  by pat_completeness auto
termination
proof (relation "measure (\<lambda>(pf, sv). length (dd_completions (sv_database sv)))")
  fix pf sv result database completion sv1
  assume popped: "(result, database) = pop_completion (sv_database sv)" "result = Some completion"
    and handled: "on_completion pf completion (sv\<lparr>sv_database := database\<rparr>) = Inr sv1"
  have "length (dd_completions database) < length (dd_completions (sv_database sv))"
    using popped by (auto simp: pop_completion_def split: list.splits)
  with ensuresD [OF on_completion_keeps handled]
  show "((pf, sv1), pf, sv) \<in> measure (\<lambda>(pf, sv). length (dd_completions (sv_database sv)))"
    by simp
qed simp

declare drain_completions.simps [simp del]

definition on_database_event :: "platform \<Rightarrow> server \<Rightarrow> server_result" where
  "on_database_event pf sv =
     bind_result (drain_completions pf (sv\<lparr>sv_database := event_read (sv_database sv)\<rparr>)) (\<lambda>sv1.
     if \<not> sv_stopping sv1 then post_eventfd_poll pf sv1 else Inr sv1)"

section \<open>The loop\<close>

definition dispatch ::
  "platform \<Rightarrow> completion_token \<Rightarrow> int \<Rightarrow> string \<Rightarrow> server \<Rightarrow> server_result" where
  "dispatch pf token result data sv = (case t_type token of
       KAccept \<Rightarrow> on_accept pf result sv
     | KRecv \<Rightarrow> on_recv pf token result data sv
     | KSend \<Rightarrow> on_send pf token result sv
     | KDatabaseEvent \<Rightarrow> on_database_event pf sv)"

definition server_new :: "server_config \<Rightarrow> dispatcher \<Rightarrow> sector_world \<Rightarrow> server" where
  "server_new config database world = \<lparr>sv_config = config, sv_database = database,
     sv_world = world, sv_ring = \<lparr>ring_entries = 0, ring_sq = [], ring_inflight = []\<rparr>,
     sv_listen_fd = -1, sv_stopping = False, sv_next_request_id = 1,
     sv_next_session_generation = 1, sv_sessions = Map.empty, sv_closed = [], sv_log = []\<rparr>"

text \<open>
  The start of \<open>run\<close>, once the listening socket is open and the kernel has made a ring of \<open>entries\<close>
  entries (the configured number rounded up).
\<close>

definition run_begin :: "platform \<Rightarrow> int \<Rightarrow> nat \<Rightarrow> server \<Rightarrow> server_result" where
  "run_begin pf listen_fd entries sv =
     bind_result (post_accept pf (sv\<lparr>sv_listen_fd := listen_fd,
         sv_ring := \<lparr>ring_entries = entries, ring_sq = [], ring_inflight = []\<rparr>\<rparr>))
       (post_eventfd_poll pf)"

definition close_listen_socket :: "server \<Rightarrow> server" where
  "close_listen_socket sv =
     (if 0 \<le> sv_listen_fd sv
      then sv\<lparr>sv_closed := sv_closed sv @ [sv_listen_fd sv], sv_listen_fd := -1\<rparr> else sv)"

text \<open>\<open>fds\<close> are the keys of the session map in the order of its iteration.\<close>

definition server_stop :: "platform \<Rightarrow> int list \<Rightarrow> server \<Rightarrow> server_result" where
  "server_stop pf fds sv =
     fold_result (close_session pf) fds (close_listen_socket (sv\<lparr>sv_stopping := True\<rparr>))"

definition take_token :: "completion_token \<Rightarrow> server \<Rightarrow> server" where
  "take_token token sv =
     sv\<lparr>sv_ring := (sv_ring sv)\<lparr>ring_inflight := remove1 token (ring_inflight (sv_ring sv))\<rparr>\<rparr>"

definition outcome_ok :: "server \<Rightarrow> completion_token \<Rightarrow> int \<Rightarrow> string \<Rightarrow> bool" where
  "outcome_ok sv token result data = (case t_type token of
       KAccept \<Rightarrow> result < 0 \<or> (sv_sessions sv result = None \<and>
         sv_next_session_generation sv \<noteq> - 1)
     | KRecv \<Rightarrow> int (length data) = max 0 result \<and> length data \<le> t_buffer token
     | KSend \<Rightarrow> result \<le> int (length (t_payload token))
     | KDatabaseEvent \<Rightarrow> True)"

inductive loop_step :: "platform \<Rightarrow> server \<Rightarrow> server \<Rightarrow> bool" for pf where
  submitted: "loop_step pf sv (sv\<lparr>sv_ring := kernel_takes n (sv_ring sv)\<rparr>)"
| completed: "token \<in> set (ring_inflight (sv_ring sv)) \<Longrightarrow> outcome_ok sv token result data \<Longrightarrow>
    dispatch pf token result data (take_token token sv) = Inr sv' \<Longrightarrow> loop_step pf sv sv'"

inductive_cases loop_stepE: "loop_step pf sv sv'"

end
