(* ===== verification/Server_Invariant.thy ===== *)
theory Server_Invariant
  imports Event_Loop
begin

text \<open>
  The invariant of the event loop. For every live session: it is filed under its own descriptor,
  its generation is older than the next one, a send is in flight exactly while its outbox is not
  empty and that one token carries the front of the outbox, and exactly one receive is in flight
  unless the session is closing. A closing session has a send in flight. Tokens of closed sessions
  may linger, with generations no new session will get.

  \<open>server_inv S R\<close> is the invariant inside a handler: \<open>S\<close> are the descriptors whose outbox may be
  waiting for \<open>post_send\<close>, \<open>R\<close> the descriptor whose receive has completed and is not posted again.
\<close>

section \<open>Accounting of the tokens\<close>

definition sends_of :: "server \<Rightarrow> int \<Rightarrow> 64 word \<Rightarrow> completion_token multiset" where
  "sends_of sv fd generation = filter_mset (\<lambda>t. t_type t = KSend \<and> t_fd t = fd \<and>
     t_generation t = generation) (ring_tokens (sv_ring sv))"

definition recvs_of :: "server \<Rightarrow> int \<Rightarrow> 64 word \<Rightarrow> completion_token multiset" where
  "recvs_of sv fd generation = filter_mset (\<lambda>t. t_type t = KRecv \<and> t_fd t = fd \<and>
     t_generation t = generation) (ring_tokens (sv_ring sv))"

definition loop_tokens :: "server \<Rightarrow> completion_token multiset" where
  "loop_tokens sv = filter_mset (\<lambda>t. t_type t = KAccept \<or> t_type t = KDatabaseEvent)
     (ring_tokens (sv_ring sv))"

definition recv_token :: "server \<Rightarrow> int \<Rightarrow> 64 word \<Rightarrow> completion_token" where
  "recv_token sv fd generation = new_token\<lparr>t_type := KRecv, t_fd := fd, t_generation := generation,
     t_buffer := cfg_recv_buffer_size (sv_config sv)\<rparr>"

definition fresh_generations :: "server \<Rightarrow> bool" where
  "fresh_generations sv \<longleftrightarrow> (\<forall>t \<in># ring_tokens (sv_ring sv). t_type t = KSend \<or> t_type t = KRecv \<longrightarrow>
     t_generation t < sv_next_session_generation sv)"

definition session_ok :: "int set \<Rightarrow> int option \<Rightarrow> server \<Rightarrow> int \<Rightarrow> session \<Rightarrow> bool" where
  "session_ok S R sv fd s \<longleftrightarrow>
     s_fd s = fd \<and> s_generation s < sv_next_session_generation sv \<and> [] \<notin> set (s_outbox s) \<and>
     sends_of sv fd (s_generation s) =
       (if s_write_in_flight s then {#send_token fd (s_generation s) (hd (s_outbox s))#} else {#}) \<and>
     (s_write_in_flight s \<longrightarrow> s_outbox s \<noteq> []) \<and>
     (fd \<notin> S \<longrightarrow> s_outbox s \<noteq> [] \<or> s_close_after_flush s \<longrightarrow> s_write_in_flight s) \<and>
     recvs_of sv fd (s_generation s) =
       (if s_close_after_flush s \<or> R = Some fd then {#} else {#recv_token sv fd (s_generation s)#})"

definition server_inv :: "int set \<Rightarrow> int option \<Rightarrow> server \<Rightarrow> bool" where
  "server_inv S R sv \<longleftrightarrow> fresh_generations sv \<and>
     (\<forall>fd s. sv_sessions sv fd = Some s \<longrightarrow> session_ok S R sv fd s)"

lemma terminated_nonempty [simp]: "terminated line \<noteq> []" "[] \<noteq> terminated line"
  by (auto simp: terminated_def)

lemma send_token_simps [simp]:
  "t_type (send_token fd generation payload) = KSend"
  "t_fd (send_token fd generation payload) = fd"
  "t_generation (send_token fd generation payload) = generation"
  "t_payload (send_token fd generation payload) = payload"
  by (simp_all add: send_token_def)

lemma recv_token_simps [simp]:
  "t_type (recv_token sv fd generation) = KRecv"
  "t_fd (recv_token sv fd generation) = fd"
  "t_generation (recv_token sv fd generation) = generation"
  by (simp_all add: recv_token_def)

lemmas token_accounts = sends_of_def recvs_of_def loop_tokens_def

text \<open>Steps that change neither the sessions nor the tokens keep the invariant.\<close>

lemma server_inv_cong:
  assumes "sv_sessions sv' = sv_sessions sv" and "sv_ring sv' = sv_ring sv"
    and "sv_config sv' = sv_config sv"
    and "sv_next_session_generation sv' = sv_next_session_generation sv"
  shows "server_inv S R sv' = server_inv S R sv"
  using assms by (simp add: server_inv_def fresh_generations_def session_ok_def token_accounts
      recv_token_def)

text \<open>Replacing the session of one descriptor, with the send token it needs.\<close>

lemma server_inv_replace:
  assumes inv: "server_inv S R sv" and s: "sv_sessions sv fd = Some s"
    and gen: "s_generation s' = s_generation s"
    and tokens: "ring_tokens r = ring_tokens (sv_ring sv) + new"
    and new: "\<And>t. t \<in># new \<Longrightarrow> t_type t = KSend \<and> t_fd t = fd \<and> t_generation t = s_generation s"
    and ok: "session_ok S' R (sv\<lparr>sv_ring := r\<rparr>) fd s'" and "S' \<subseteq> S" "S \<subseteq> insert fd S'"
  shows "server_inv S' R (sv\<lparr>sv_sessions := (sv_sessions sv)(fd \<mapsto> s'), sv_ring := r\<rparr>)"
proof -
  let ?sv = "sv\<lparr>sv_sessions := (sv_sessions sv)(fd \<mapsto> s'), sv_ring := r\<rparr>"
  have old: "session_ok S R sv fd s" using inv s by (simp add: server_inv_def)
  have "fresh_generations ?sv"
    using inv old new tokens by (auto simp: server_inv_def fresh_generations_def session_ok_def)
  moreover have "session_ok S' R ?sv fd2 s2" if "sv_sessions ?sv fd2 = Some s2" for fd2 s2
  proof (cases "fd2 = fd")
    case True
    then show ?thesis using that ok
      by (simp add: session_ok_def token_accounts recv_token_def)
  next
    case False
    then have "session_ok S R sv fd2 s2" using that inv by (simp add: server_inv_def)
    moreover have "filter_mset (\<lambda>t. t_type t = k \<and> t_fd t = fd2 \<and> t_generation t = g) new = {#}" for k g
    proof -
      have "filter_mset (\<lambda>t. t_type t = k \<and> t_fd t = fd2 \<and> t_generation t = g) new =
          filter_mset (\<lambda>_. False) new"
        using new False by (intro filter_mset_cong) auto
      then show ?thesis by simp
    qed
    ultimately show ?thesis using False assms(7,8)
      by (auto simp: session_ok_def token_accounts recv_token_def tokens)
  qed
  ultimately show ?thesis by (simp add: server_inv_def)
qed

section \<open>Replies\<close>

lemma server_inv_respond:
  assumes "queue_response pf fd generation line sv = Inr sv'" and inv: "server_inv S R sv"
  shows "server_inv S R sv'"
  using assms(1)
proof (cases rule: queue_response_cases)
  case dropped
  then show ?thesis using inv by simp
next
  case (queued s r)
  then have ok: "session_ok S R sv fd s" using inv by (simp add: server_inv_def)
  let ?new = "if s_write_in_flight s then {#}
    else {#send_token fd generation (hd (s_outbox s @ [terminated line]))#}"
  have tokens: "ring_tokens r = ring_tokens (sv_ring sv) + ?new" using queued(4) by simp
  show ?thesis
    unfolding queued(3)
  proof (rule server_inv_replace [OF inv queued(1) _ tokens])
    show "session_ok S R (sv\<lparr>sv_ring := r\<rparr>) fd (queued line s)"
      using ok queued(2) by (auto simp: session_ok_def queued_def token_accounts recv_token_def tokens)
  qed (use queued in \<open>auto simp: queued_def split: if_splits\<close>)
qed

lemma loop_tokens_respond:
  assumes "queue_response pf fd generation line sv = Inr sv'"
  shows "loop_tokens sv' = loop_tokens sv"
  using assms by (cases rule: queue_response_cases) (auto simp: loop_tokens_def)

lemma server_inv_update:
  assumes inv: "server_inv S R sv" and "\<And>s. s_fd (f s) = s_fd s"
    and "\<And>s. s_generation (f s) = s_generation s" and "\<And>s. s_outbox (f s) = s_outbox s"
    and "\<And>s. s_write_in_flight (f s) = s_write_in_flight s"
    and "\<And>s. s_close_after_flush (f s) = s_close_after_flush s"
  shows "server_inv S R (update_session fd f sv)"
proof -
  let ?sv = "update_session fd f sv"
  have same: "sv_ring ?sv = sv_ring sv" "sv_config ?sv = sv_config sv"
      "sv_next_session_generation ?sv = sv_next_session_generation sv"
    by (simp_all add: update_session_def)
  have "session_ok S R ?sv fd2 s2" if at: "sv_sessions ?sv fd2 = Some s2" for fd2 s2
  proof -
    obtain s where s: "sv_sessions sv fd2 = Some s" and s2: "s2 = s \<or> s2 = f s"
      using at by (auto simp: update_session_def split: if_splits)
    have "session_ok S R sv fd2 s" using inv s by (simp add: server_inv_def)
    with s2 show ?thesis
      by (elim disjE) (simp_all add: session_ok_def token_accounts recv_token_def same assms(2-6))
  qed
  then show ?thesis using inv by (simp add: server_inv_def fresh_generations_def same)
qed

lemma farewell_cases:
  assumes "farewell pf fd generation line sv = Inr sv'" and "session_matches sv fd generation"
  obtains s sv1 where "sv_sessions sv1 fd = Some s" and "s_generation s = generation"
    and "s_write_in_flight s" and "queue_response pf fd generation line sv = Inr sv1"
    and "sv' = sv1\<lparr>sv_sessions := (sv_sessions sv1)(fd \<mapsto> s\<lparr>s_close_after_flush := True\<rparr>)\<rparr>"
proof -
  from assms(1) obtain sv1 where q: "queue_response pf fd generation line sv = Inr sv1"
    and sv': "sv' = update_session fd (s_close_after_flush_update (\<lambda>_. True)) sv1"
    by (auto simp: farewell_def bind_result_Inr_iff)
  from q show ?thesis
  proof (cases rule: queue_response_cases)
    case dropped
    with assms(2) show ?thesis by simp
  next
    case (queued s r)
    then show ?thesis using that [of sv1 "queued line s"] q sv'
      by (simp add: queued_def update_session_def)
  qed
qed

lemma server_inv_farewell:
  assumes "farewell pf fd generation line sv = Inr sv'" and "session_matches sv fd generation"
    and inv: "server_inv S (Some fd) sv"
  shows "server_inv S (Some fd) sv'"
  using assms(1,2)
proof (cases rule: farewell_cases)
  case (1 s sv1)
  have inv1: "server_inv S (Some fd) sv1" using server_inv_respond [OF 1(4) inv] .
  then have ok: "session_ok S (Some fd) sv1 fd s" using 1(1) by (simp add: server_inv_def)
  have "server_inv S (Some fd) (sv1\<lparr>sv_sessions := (sv_sessions sv1)(fd \<mapsto> s\<lparr>s_close_after_flush := True\<rparr>),
      sv_ring := sv_ring sv1\<rparr>)"
    by (rule server_inv_replace [OF inv1 1(1), where new = "{#}"])
      (use ok 1 in \<open>auto simp: session_ok_def token_accounts recv_token_def\<close>)
  then show ?thesis using 1(5) by simp
qed


section \<open>The invariant through the handlers\<close>

definition keeps :: "int set \<Rightarrow> int option \<Rightarrow> server \<Rightarrow> server \<Rightarrow> bool" where
  "keeps S R sv sv' \<longleftrightarrow> steady sv sv' \<and> loop_tokens sv' = loop_tokens sv \<and>
     (server_inv S R sv \<longrightarrow> server_inv S R sv')"

definition closes :: "int set \<Rightarrow> int option \<Rightarrow> server \<Rightarrow> server \<Rightarrow> bool" where
  "closes S R sv sv' \<longleftrightarrow> evolves sv sv' \<and> loop_tokens sv' = loop_tokens sv \<and>
     (server_inv S R sv \<longrightarrow> server_inv S R sv')"

lemma keeps_closes: "keeps S R sv sv' \<Longrightarrow> closes S R sv sv'"
  by (simp add: keeps_def closes_def steady_def)

lemma keeps_refl [simp]: "keeps S R sv sv"
  by (simp add: keeps_def)

lemma keeps_trans: "keeps S R sv sv1 \<Longrightarrow> keeps S R sv1 sv2 \<Longrightarrow> keeps S R sv sv2"
  by (auto simp: keeps_def intro: steady_trans)

lemma closes_refl [simp]: "closes S R sv sv"
  by (simp add: closes_def)

lemma closes_trans: "closes S R sv sv1 \<Longrightarrow> closes S R sv1 sv2 \<Longrightarrow> closes S R sv sv2"
  by (auto simp: closes_def intro: evolves_trans)

lemma keeps_respond: "ensures (queue_response pf fd generation line sv) (keeps S R sv)"
  using server_inv_respond loop_tokens_respond ensuresD [OF steady_respond]
  by (auto simp: ensures_iff keeps_def)

lemma loop_tokens_update [simp]: "loop_tokens (update_session fd f sv) = loop_tokens sv"
  by (simp add: loop_tokens_def update_session_def)

lemma keeps_request: "keeps S R sv (sv\<lparr>sv_next_request_id := n\<rparr>)"
  using steady_request [of sv n] server_inv_cong [of "sv\<lparr>sv_next_request_id := n\<rparr>" sv S R]
  by (simp add: keeps_def loop_tokens_def)

lemma keeps_job: "keeps S R sv (submit_job j sv)"
  using steady_job [of sv j] server_inv_cong [of "submit_job j sv" sv S R]
  by (simp add: keeps_def loop_tokens_def submit_job_def)

lemma keeps_world: "keeps S R sv (sv\<lparr>sv_world := w\<rparr>)"
  using steady_world [of sv w] server_inv_cong [of "sv\<lparr>sv_world := w\<rparr>" sv S R]
  by (simp add: keeps_def loop_tokens_def)

lemma keeps_pending: "keeps S R sv (update_session fd (s_pending_db_update f) sv)"
  using steady.pending [of sv fd f] server_inv_update [of S R sv "s_pending_db_update f" fd]
  by (simp add: keeps_def)

lemma keeps_farewell:
  assumes "session_matches sv fd generation"
  shows "ensures (farewell pf fd generation line sv) (keeps S (Some fd) sv)"
  unfolding ensures_iff
proof (intro allI impI)
  fix sv' assume f: "farewell pf fd generation line sv = Inr sv'"
  then have "loop_tokens sv' = loop_tokens sv"
    using loop_tokens_respond
    by (auto simp: farewell_def bind_result_Inr_iff)
  then show "keeps S (Some fd) sv sv'"
    using server_inv_farewell [OF f assms] ensuresD [OF steady_farewell f] by (simp add: keeps_def)
qed

interpretation keeps: line_frame pf "keeps S (Some fd)" fd generation
    "\<lambda>sv. session_matches sv fd generation"
  for pf S fd generation
proof unfold_locales
  show "keeps S (Some fd) sv sv' \<Longrightarrow> session_matches sv fd generation \<Longrightarrow> session_matches sv' fd generation"
    for sv sv' by (auto simp: keeps_def intro: steady_matches)
qed (auto intro: keeps_trans keeps_respond keeps_request keeps_job keeps_world keeps_pending keeps_farewell)

lemma closes_drop:
  "closes S R sv (sv\<lparr>sv_closed := fds, sv_sessions := (sv_sessions sv)(fd := None)\<rparr>)"
proof -
  let ?sv = "sv\<lparr>sv_closed := fds, sv_sessions := (sv_sessions sv)(fd := None)\<rparr>"
  have "server_inv S R ?sv" if "server_inv S R sv"
    using that by (auto simp: server_inv_def fresh_generations_def session_ok_def token_accounts
        recv_token_def split: if_splits)
  then show ?thesis using evolves_drop [of sv fd fds] by (simp add: closes_def loop_tokens_def)
qed

interpretation closes: closing_frame pf "closes S R" for pf S R
  by unfold_locales
    (auto intro: closes_trans closes_drop keeps_closes keeps_request keeps_job keeps_world
      ensures_mono [OF keeps_respond])


section \<open>Taking a token out of the ring\<close>

lemma ring_tokens_take:
  assumes "token \<in> set (ring_inflight (sv_ring sv))"
  shows "ring_tokens (sv_ring sv) = add_mset token (ring_tokens (sv_ring (take_token token sv)))"
  using assms by (simp add: ring_tokens_def take_token_def)

lemma take_token_simps [simp]:
  "sv_sessions (take_token token sv) = sv_sessions sv"
  "sv_config (take_token token sv) = sv_config sv"
  "sv_next_session_generation (take_token token sv) = sv_next_session_generation sv"
  "sv_world (take_token token sv) = sv_world sv"
  "sv_stopping (take_token token sv) = sv_stopping sv"
  "sv_database (take_token token sv) = sv_database sv"
  "session_matches (take_token token sv) = session_matches sv"
  by (auto simp: take_token_def session_matches_def fun_eq_iff)

lemma recv_token_take [simp]: "recv_token (take_token token sv) = recv_token sv"
  by (simp add: recv_token_def fun_eq_iff)

text \<open>Removing a token shows only in the account it belongs to.\<close>

lemma accounts_take:
  assumes "token \<in> set (ring_inflight (sv_ring sv))"
  shows "sends_of sv fd g = (if t_type token = KSend \<and> t_fd token = fd \<and> t_generation token = g
       then {#token#} else {#}) + sends_of (take_token token sv) fd g"
    and "recvs_of sv fd g = (if t_type token = KRecv \<and> t_fd token = fd \<and> t_generation token = g
       then {#token#} else {#}) + recvs_of (take_token token sv) fd g"
    and "loop_tokens sv = (if t_type token = KAccept \<or> t_type token = KDatabaseEvent
       then {#token#} else {#}) + loop_tokens (take_token token sv)"
  using ring_tokens_take [OF assms] by (simp_all add: token_accounts)

lemma fresh_take:
  "token \<in> set (ring_inflight (sv_ring sv)) \<Longrightarrow> fresh_generations sv \<Longrightarrow>
   fresh_generations (take_token token sv)"
  by (simp add: fresh_generations_def ring_tokens_take [of token sv])

lemma take_other:
  assumes inv: "server_inv {} None sv" and tok: "token \<in> set (ring_inflight (sv_ring sv))"
    and other: "t_type token = KSend \<or> t_type token = KRecv \<Longrightarrow>
      \<not> session_matches sv (t_fd token) (t_generation token)"
  shows "server_inv {} None (take_token token sv)"
proof -
  have "session_ok {} None (take_token token sv) fd s" if s: "sv_sessions sv fd = Some s" for fd s
  proof -
    have ok: "session_ok {} None sv fd s" using inv s by (simp add: server_inv_def)
    have "\<not> (t_type token = KSend \<and> t_fd token = fd \<and> t_generation token = s_generation s)"
      "\<not> (t_type token = KRecv \<and> t_fd token = fd \<and> t_generation token = s_generation s)"
      using other s by (auto simp: session_matches_def)
    then have "sends_of (take_token token sv) fd (s_generation s) = sends_of sv fd (s_generation s)"
      "recvs_of (take_token token sv) fd (s_generation s) = recvs_of sv fd (s_generation s)"
      using accounts_take(1,2) [OF tok, of fd "s_generation s"] by auto
    with ok show ?thesis by (simp add: session_ok_def)
  qed
  with inv tok show ?thesis by (simp add: server_inv_def fresh_take)
qed

lemma take_recv:
  assumes inv: "server_inv {} None sv" and tok: "token \<in> set (ring_inflight (sv_ring sv))"
    and type: "t_type token = KRecv" and matches: "session_matches sv (t_fd token) (t_generation token)"
  shows "server_inv {} (Some (t_fd token)) (take_token token sv)"
proof -
  have "session_ok {} (Some (t_fd token)) (take_token token sv) fd s"
    if s: "sv_sessions sv fd = Some s" for fd s
  proof -
    have ok: "session_ok {} None sv fd s" using inv s by (simp add: server_inv_def)
    have sends: "sends_of (take_token token sv) fd (s_generation s) = sends_of sv fd (s_generation s)"
      using accounts_take(1) [OF tok, of fd "s_generation s"] type by auto
    show ?thesis
    proof (cases "fd = t_fd token")
      case True
      then have "s_generation s = t_generation token"
        using s matches by (simp add: session_matches_def)
      then have "recvs_of sv fd (s_generation s) =
          add_mset token (recvs_of (take_token token sv) fd (s_generation s))"
        using accounts_take(2) [OF tok, of fd "s_generation s"] True type by simp
      with ok sends True show ?thesis by (simp add: session_ok_def split: if_splits)
    next
      case False
      then have "recvs_of (take_token token sv) fd (s_generation s) = recvs_of sv fd (s_generation s)"
        using accounts_take(2) [OF tok, of fd "s_generation s"] by simp
      with ok sends False show ?thesis by (simp add: session_ok_def)
    qed
  qed
  with inv tok show ?thesis by (simp add: server_inv_def fresh_take)
qed

lemma take_send_facts:
  assumes inv: "server_inv {} None sv" and tok: "token \<in> set (ring_inflight (sv_ring sv))"
    and type: "t_type token = KSend" and s: "sv_sessions sv fd = Some s"
    and fd: "t_fd token = fd" and gen: "t_generation token = s_generation s"
  shows "s_write_in_flight s" and "s_outbox s \<noteq> []"
    and "token = send_token fd (s_generation s) (hd (s_outbox s))"
    and "sends_of (take_token token sv) fd (s_generation s) = {#}"
proof -
  let ?X = "sends_of sv fd (s_generation s)" and ?Y = "sends_of (take_token token sv) fd (s_generation s)"
  have ok: "session_ok {} None sv fd s" using inv s by (simp add: server_inv_def)
  have sends: "?X = add_mset token ?Y"
    unfolding accounts_take(1) [OF tok, of fd "s_generation s"] by (simp add: type fd gen)
  then have mem: "token \<in># ?X" by (metis union_single_eq_member)
  have X: "?X = (if s_write_in_flight s
      then {#send_token fd (s_generation s) (hd (s_outbox s))#} else {#})"
    using ok unfolding session_ok_def by blast
  show wif: "s_write_in_flight s"
    using mem X by (metis empty_iff set_mset_empty)
  then show "s_outbox s \<noteq> []" using ok unfolding session_ok_def by blast
  have X1: "?X = {#send_token fd (s_generation s) (hd (s_outbox s))#}" using X wif by argo
  have "add_mset token ?Y = {#send_token fd (s_generation s) (hd (s_outbox s))#}"
    using sends X1 by argo
  then show "token = send_token fd (s_generation s) (hd (s_outbox s))" and "?Y = {#}"
    unfolding add_mset_eq_single by blast+
qed

definition sent_back :: "completion_token \<Rightarrow> string list \<Rightarrow> server \<Rightarrow> server" where
  "sent_back token outbox' sv = update_session (t_fd token)
     (\<lambda>s. s\<lparr>s_write_in_flight := False, s_outbox := outbox'\<rparr>) (take_token token sv)"

lemma sent_back_simps [simp]:
  "sv_ring (sent_back token outbox' sv) = sv_ring (take_token token sv)"
  "sv_config (sent_back token outbox' sv) = sv_config sv"
  "sv_next_session_generation (sent_back token outbox' sv) = sv_next_session_generation sv"
  by (simp_all add: sent_back_def update_session_def)

lemma sent_back_accounts [simp]:
  "sends_of (sent_back token outbox' sv) = sends_of (take_token token sv)"
  "recvs_of (sent_back token outbox' sv) = recvs_of (take_token token sv)"
  "loop_tokens (sent_back token outbox' sv) = loop_tokens (take_token token sv)"
  "recv_token (sent_back token outbox' sv) = recv_token sv"
  by (auto simp: fun_eq_iff token_accounts recv_token_def)

lemma fresh_sent_back:
  "fresh_generations (sent_back token outbox' sv) = fresh_generations (take_token token sv)"
  by (simp add: fresh_generations_def)

lemma take_send:
  assumes inv: "server_inv {} None sv" and tok: "token \<in> set (ring_inflight (sv_ring sv))"
    and type: "t_type token = KSend" and s: "sv_sessions sv (t_fd token) = Some s"
    and gen: "t_generation token = s_generation s" and out: "[] \<notin> set outbox'"
  shows "server_inv {t_fd token} None (sent_back token outbox' sv)"
proof -
  let ?fd = "t_fd token" and ?sv = "sent_back token outbox' sv"
  have ok: "session_ok {} None sv ?fd s" using inv s by (simp add: server_inv_def)
  note none = take_send_facts(4) [OF inv tok type s refl gen]
  have own: "session_ok {?fd} None ?sv ?fd (s\<lparr>s_write_in_flight := False, s_outbox := outbox'\<rparr>)"
  proof -
    have "recvs_of sv ?fd (s_generation s) = recvs_of (take_token token sv) ?fd (s_generation s)"
      using accounts_take(2) [OF tok, of ?fd "s_generation s"] by (simp add: type)
    then show ?thesis using ok none out by (simp add: session_ok_def)
  qed
  have others: "session_ok {?fd} None ?sv fd2 s2" if "sv_sessions sv fd2 = Some s2" "fd2 \<noteq> ?fd" for fd2 s2
  proof -
    have "session_ok {} None sv fd2 s2" using inv that by (simp add: server_inv_def)
    moreover have "sends_of sv fd2 (s_generation s2) = sends_of (take_token token sv) fd2 (s_generation s2)"
      using accounts_take(1) [OF tok, of fd2 "s_generation s2"] that by simp
    moreover have "recvs_of sv fd2 (s_generation s2) = recvs_of (take_token token sv) fd2 (s_generation s2)"
      using accounts_take(2) [OF tok, of fd2 "s_generation s2"] by (simp add: type)
    ultimately show ?thesis using that by (simp add: session_ok_def)
  qed
  have "session_ok {?fd} None ?sv fd2 s2" if "sv_sessions ?sv fd2 = Some s2" for fd2 s2
    using that own others s
    by (cases "fd2 = ?fd") (auto simp: sent_back_def update_session_def)
  moreover have "fresh_generations ?sv"
    unfolding fresh_sent_back using fresh_take [OF tok] inv unfolding server_inv_def by blast
  ultimately show ?thesis by (simp add: server_inv_def)
qed


section \<open>The handlers\<close>

text \<open>What a handler may do to the sessions that survive it: queue more lines.\<close>

definition talks :: "server \<Rightarrow> server \<Rightarrow> bool" where
  "talks sv sv' \<longleftrightarrow> (\<forall>fd s'. sv_sessions sv' fd = Some s' \<longrightarrow>
     (\<exists>s lines. sv_sessions sv fd = Some s \<and> s_generation s' = s_generation s \<and>
        s_outbox s' = s_outbox s @ lines))"

lemma talks_refl [simp]: "talks sv sv"
  by (simp add: talks_def)

lemma talks_trans:
  assumes "talks sv sv1" and "talks sv1 sv2"
  shows "talks sv sv2"
  unfolding talks_def
proof (intro allI impI)
  fix fd s2 assume "sv_sessions sv2 fd = Some s2"
  then obtain s1 l1 where 1: "sv_sessions sv1 fd = Some s1" "s_generation s2 = s_generation s1"
      "s_outbox s2 = s_outbox s1 @ l1"
    using assms(2) unfolding talks_def by blast
  then obtain s l where "sv_sessions sv fd = Some s" "s_generation s1 = s_generation s"
      "s_outbox s1 = s_outbox s @ l"
    using assms(1) unfolding talks_def by blast
  with 1 show "\<exists>s lines. sv_sessions sv fd = Some s \<and> s_generation s2 = s_generation s \<and>
      s_outbox s2 = s_outbox s @ lines" by simp
qed

lemma evolves_talks: "evolves sv sv' \<Longrightarrow> talks sv sv'"
  unfolding evolves_def talks_def session_grows_def by blast

lemma talks_update: "(\<And>s. s_generation (f s) = s_generation s) \<Longrightarrow> (\<And>s. s_outbox (f s) = s_outbox s) \<Longrightarrow>
    talks sv (update_session fd f sv)"
  by (auto simp: talks_def update_session_def split: if_splits)

definition tells :: "int set \<Rightarrow> int option \<Rightarrow> int set \<Rightarrow> int option \<Rightarrow> server \<Rightarrow> server \<Rightarrow> bool" where
  "tells S R S' R' sv sv' \<longleftrightarrow> talks sv sv' \<and> loop_tokens sv' = loop_tokens sv \<and>
     sv_stopping sv' = sv_stopping sv \<and> sv_config sv' = sv_config sv \<and> sv_next_session_generation sv' = sv_next_session_generation sv \<and>
     (server_inv S R sv \<longrightarrow> server_inv S' R' sv')"

lemma closes_tells: "closes S R sv sv' \<Longrightarrow> tells S R S R sv sv'"
  by (simp add: closes_def tells_def evolves_talks) (simp add: evolves_def kept_def)

lemma keeps_tells: "keeps S R sv sv' \<Longrightarrow> tells S R S R sv sv'"
  by (simp add: closes_tells keeps_closes)

lemma tells_trans:
  "tells S R S1 R1 sv sv1 \<Longrightarrow> tells S1 R1 S2 R2 sv1 sv2 \<Longrightarrow> tells S R S2 R2 sv sv2"
  by (auto simp: tells_def intro: talks_trans)

lemma tells_then:
  "ensures r (tells S R S1 R1 sv) \<Longrightarrow> (\<And>sv1. r = Inr sv1 \<Longrightarrow> tells S R S1 R1 sv sv1 \<Longrightarrow>
     ensures (f sv1) (tells S1 R1 S2 R2 sv1)) \<Longrightarrow> ensures (bind_result r f) (tells S R S2 R2 sv)"
  by (cases r) (auto simp: ensures_iff intro: tells_trans)

lemma tells_input: "tells S R S R sv (update_session fd (s_input_update f) sv)"
  using server_inv_update [of S R sv "s_input_update f" fd]
  by (simp add: tells_def talks_update) (simp add: update_session_def)

lemma process_lines_ok:
  assumes inv: "server_inv S (Some fd) sv" and matches: "session_matches sv fd generation"
  shows "ensures (process_lines pf fd generation sv) (\<lambda>sv'.
    tells S (Some fd) S (Some fd) sv sv' \<and> session_matches sv' fd generation)"
proof (rule process_lines_rule [OF _ _ _ _ matches])
  let ?I = "\<lambda>sv'. tells S (Some fd) S (Some fd) sv sv' \<and> session_matches sv' fd generation"
  show "?I (update_session fd (s_input_update f) sv1)" if "?I sv1" for sv1 f
  proof
    show "tells S (Some fd) S (Some fd) sv (update_session fd (s_input_update f) sv1)"
      using that tells_trans [OF _ tells_input] by blast
    show "session_matches (update_session fd (s_input_update f) sv1) fd generation"
      using that by (simp add: matches_update)
  qed
  show "ensures (handle_client_line pf fd generation line sv1) ?I" if "?I sv1" for sv1 line
    unfolding ensures_iff
  proof (intro allI impI)
    fix sv2 assume h: "handle_client_line pf fd generation line sv1 = Inr sv2"
    have m1: "session_matches sv1 fd generation" using that by blast
    have k: "keeps S (Some fd) sv1 sv2" using ensuresD [OF keeps.client_line [OF m1] h] .
    have "session_matches sv2 fd generation"
      using k m1 unfolding keeps_def by (blast intro: steady_matches)
    then show "?I sv2" using that tells_trans [OF _ keeps_tells [OF k]] by blast
  qed
  show "s_fd s = fd" if "?I sv1" and "sv_sessions sv1 fd = Some s" for sv1 s
  proof -
    have "server_inv S (Some fd) sv1" using that(1) inv unfolding tells_def by blast
    then show ?thesis using that(2) by (simp add: server_inv_def session_ok_def)
  qed
  show "?I sv" using matches by (simp add: tells_def)
qed

lemma tells_inv: "tells S R S' R' sv sv' \<Longrightarrow> server_inv S R sv \<Longrightarrow> server_inv S' R' sv'"
  by (simp add: tells_def)

lemma tells_id [simp]: "tells S R S R sv sv"
  by (simp add: tells_def)

text \<open>The holes in the invariant close when the session closes.\<close>

lemma receive_not_missed:
  assumes "server_inv S (Some fd) sv" and "\<And>s. sv_sessions sv fd = Some s \<Longrightarrow> s_close_after_flush s"
  shows "server_inv S None sv"
  using assms by (auto simp: server_inv_def session_ok_def)

lemma send_not_missed:
  assumes "server_inv {fd} R sv" and "\<And>s. sv_sessions sv fd = Some s \<Longrightarrow>
      s_outbox s \<noteq> [] \<or> s_close_after_flush s \<longrightarrow> s_write_in_flight s"
  shows "server_inv {} R sv"
  using assms by (auto simp: server_inv_def session_ok_def)

lemma close_gone: "ensures (close_session pf fd sv) (\<lambda>sv'. sv_sessions sv' fd = None)"
  by (auto simp: close_session_def ensures_iff bind_result_Inr_iff split: option.splits)

lemma close_tells:
  "ensures (close_session pf fd sv) (\<lambda>sv'. tells S R S R sv sv' \<and> sv_sessions sv' fd = None)"
  using closes.close [where pf = pf and S = S and R = R and fd = fd and sv = sv] close_gone [of pf fd sv]
  by (auto simp: ensures_iff closes_tells)

lemma maybe_close_tells:
  "ensures (maybe_close_after_flush pf fd sv) (\<lambda>sv'. tells S R S R sv sv' \<and> evolves sv sv')"
  using closes.maybe_close [where pf = pf and S = S and R = R and fd = fd and sv = sv]
  by (auto simp: ensures_iff closes_tells closes_def)

lemma post_recv_ok:
  assumes inv: "server_inv S (Some fd) sv" and s: "sv_sessions sv fd = Some s"
    and gen: "s_generation s = generation" and open_s: "\<not> s_close_after_flush s"
  shows "ensures (post_recv pf fd generation sv) (tells S (Some fd) S None sv)"
  unfolding ensures_iff
proof (intro allI impI)
  fix sv' assume "post_recv pf fd generation sv = Inr sv'"
  then have "push_sqe pf (recv_token sv fd generation) sv = Inr sv'"
    by (simp add: post_recv_def recv_token_def)
  then obtain r where sv': "sv' = sv\<lparr>sv_ring := r\<rparr>"
      and r: "ring_tokens r = add_mset (recv_token sv fd generation) (ring_tokens (sv_ring sv))"
    by (rule push_sqe_cases)
  have tok: "recv_token sv' = recv_token sv" by (simp add: sv' recv_token_def fun_eq_iff)
  have sends: "sends_of sv' fd2 g = sends_of sv fd2 g" for fd2 g
    by (simp add: token_accounts sv' r)
  have recvs: "recvs_of sv' fd2 g = (if fd2 = fd \<and> g = generation
      then {#recv_token sv fd generation#} else {#}) + recvs_of sv fd2 g" for fd2 g
    by (auto simp: token_accounts sv' r)
  have "session_ok S None sv' fd2 s2" if s2: "sv_sessions sv fd2 = Some s2" for fd2 s2
  proof -
    have ok: "session_ok S (Some fd) sv fd2 s2" using inv s2 by (simp add: server_inv_def)
    show ?thesis
    proof (cases "fd2 = fd")
      case True
      with ok s s2 gen open_s show ?thesis
        by (simp add: session_ok_def sends recvs tok) (simp add: sv')
    next
      case False
      with ok show ?thesis by (simp add: session_ok_def sends recvs tok) (simp add: sv')
    qed
  qed
  moreover have "fresh_generations sv'"
    using inv s gen by (auto simp: server_inv_def fresh_generations_def sv' r session_ok_def)
  ultimately have "server_inv S None sv'" by (simp add: server_inv_def sv')
  then show "tells S (Some fd) S None sv sv'"
    by (simp add: tells_def sv' talks_def loop_tokens_def r)
qed

definition handled :: "server \<Rightarrow> server \<Rightarrow> bool" where
  "handled sv sv' \<longleftrightarrow> talks sv sv' \<and> loop_tokens sv' = loop_tokens sv \<and>
     sv_stopping sv' = sv_stopping sv \<and> sv_config sv' = sv_config sv \<and> sv_next_session_generation sv' = sv_next_session_generation sv \<and> server_inv {} None sv'"

lemma handledI: "tells S R {} None sv sv' \<Longrightarrow> server_inv S R sv \<Longrightarrow> handled sv sv'"
  by (simp add: tells_def handled_def)

lemma is_closing_iff: "is_closing sv fd \<longleftrightarrow> (\<exists>s. sv_sessions sv fd = Some s \<and> s_close_after_flush s)"
  by (auto simp: is_closing_def split: option.splits)

text \<open>The last part of \<open>on_recv\<close>: post the next receive, or close.\<close>

lemma after_lines_ok:
  assumes inv: "server_inv {} (Some fd) sv" and matches: "session_matches sv fd generation"
  shows "ensures (if \<not> is_closing sv fd then post_recv pf fd generation sv
    else maybe_close_after_flush pf fd sv) (tells {} (Some fd) {} None sv)"
proof (cases "is_closing sv fd")
  case False
  from matches obtain s where s: "sv_sessions sv fd = Some s" "s_generation s = generation"
    by (rule matches_session)
  have "ensures (post_recv pf fd generation sv) (tells {} (Some fd) {} None sv)"
    using False s by (intro post_recv_ok [OF inv]) (simp_all add: is_closing_iff)
  with False show ?thesis by simp
next
  case True
  have "tells {} (Some fd) {} None sv sv'"
    if t: "tells {} (Some fd) {} (Some fd) sv sv'" and e: "evolves sv sv'" for sv'
  proof -
    have "server_inv {} (Some fd) sv'" using t inv by (rule tells_inv)
    moreover have "s_close_after_flush s'" if s': "sv_sessions sv' fd = Some s'" for s'
    proof -
      obtain s where "sv_sessions sv fd = Some s" "session_grows s s'"
        using e s' unfolding evolves_def by blast
      with True show ?thesis by (simp add: is_closing_iff session_grows_def)
    qed
    ultimately have "server_inv {} None sv'" by (rule receive_not_missed)
    with t show ?thesis by (simp add: tells_def)
  qed
  with True maybe_close_tells [where pf = pf and fd = fd and sv = sv and S = "{}" and R = "Some fd"] show ?thesis
    by (auto simp: ensures_iff)
qed

lemma on_recv_ok:
  assumes inv: "server_inv {} None sv" and tok: "token \<in> set (ring_inflight (sv_ring sv))"
    and type: "t_type token = KRecv"
  shows "ensures (on_recv pf token result data (take_token token sv)) (handled (take_token token sv))"
proof -
  let ?fd = "t_fd token" and ?g = "t_generation token" and ?sv0 = "take_token token sv"
  show ?thesis
  proof (cases "session_matches sv ?fd ?g")
    case False
    have "handled ?sv0 ?sv0"
      by (rule handledI [OF tells_id take_other [OF inv tok]]) (simp add: False)
    with False show ?thesis by (simp add: on_recv_def)
  next
    case True
    have inv0: "server_inv {} (Some ?fd) ?sv0" using take_recv [OF inv tok type True] .
    show ?thesis
    proof (cases "result \<le> 0")
      case True
      have "handled ?sv0 sv'" if "tells {} (Some ?fd) {} (Some ?fd) ?sv0 sv'"
          "sv_sessions sv' ?fd = None" for sv'
        using that receive_not_missed [OF tells_inv [OF that(1) inv0]]
        by (simp add: handled_def tells_def)
      then show ?thesis
        using True \<open>session_matches sv ?fd ?g\<close> close_tells [where pf = pf and fd = ?fd and sv = ?sv0 and S = "{}" and R = "Some ?fd"]
        by (auto simp: on_recv_def ensures_iff)
    next
      case False
      let ?sv1 = "update_session ?fd (s_input_update (\<lambda>input. input @ data)) ?sv0"
      have t1: "tells {} (Some ?fd) {} (Some ?fd) ?sv0 ?sv1" by (rule tells_input)
      have inv1: "server_inv {} (Some ?fd) ?sv1" using t1 inv0 by (rule tells_inv)
      have m1: "session_matches ?sv1 ?fd ?g" using True by (simp add: matches_update)
      have t5: "tells {} (Some ?fd) {} None ?sv1 sv4"
        if lines: "process_lines pf ?fd ?g ?sv1 = Inr sv2"
          and long: "(if too_long sv2 ?fd then farewell pf ?fd ?g ''ERR line too long'' sv2
            else Inr sv2) = Inr sv3"
          and last: "(if \<not> is_closing sv3 ?fd then post_recv pf ?fd ?g sv3
            else maybe_close_after_flush pf ?fd sv3) = Inr sv4" for sv2 sv3 sv4
      proof -
        have t2: "tells {} (Some ?fd) {} (Some ?fd) ?sv1 sv2" and m2: "session_matches sv2 ?fd ?g"
          using ensuresD [OF process_lines_ok [OF inv1 m1] lines] by auto
        have k: "keeps {} (Some ?fd) sv2 sv3"
          using long ensuresD [OF keeps_farewell [OF m2]] by (auto split: if_splits)
        have t3: "tells {} (Some ?fd) {} (Some ?fd) ?sv1 sv3"
          using tells_trans [OF t2 keeps_tells [OF k]] .
        have m3: "session_matches sv3 ?fd ?g"
          using k m2 by (auto simp: keeps_def intro: steady_matches)
        have "tells {} (Some ?fd) {} None sv3 sv4"
          using ensuresD [OF after_lines_ok [OF tells_inv [OF t3 inv1] m3] last] .
        then show ?thesis by (rule tells_trans [OF t3])
      qed
      have m2: "session_matches sv2 ?fd ?g" if "process_lines pf ?fd ?g ?sv1 = Inr sv2" for sv2
        using ensuresD [OF process_lines_ok [OF inv1 m1] that] by simp
      have eq: "on_recv pf token result data ?sv0 =
          bind_result (process_lines pf ?fd ?g ?sv1) (\<lambda>sv2.
            if \<not> session_matches sv2 ?fd ?g then Inr sv2
            else bind_result (if too_long sv2 ?fd
              then farewell pf ?fd ?g ''ERR line too long'' sv2 else Inr sv2) (\<lambda>sv3.
              if \<not> is_closing sv3 ?fd then post_recv pf ?fd ?g sv3
              else maybe_close_after_flush pf ?fd sv3))"
        using True False by (simp add: on_recv_def Let_def)
      show ?thesis
        unfolding eq ensures_iff bind_result_Inr_iff
      proof (intro allI impI, elim exE conjE)
        fix sv4 sv2 assume lines: "process_lines pf ?fd ?g ?sv1 = Inr sv2"
          and go: "(if \<not> session_matches sv2 ?fd ?g then Inr sv2
            else bind_result (if too_long sv2 ?fd
              then farewell pf ?fd ?g ''ERR line too long'' sv2 else Inr sv2) (\<lambda>sv3.
              if \<not> is_closing sv3 ?fd then post_recv pf ?fd ?g sv3
              else maybe_close_after_flush pf ?fd sv3)) = Inr sv4"
        then obtain sv3 where
            "(if too_long sv2 ?fd then farewell pf ?fd ?g ''ERR line too long'' sv2 else Inr sv2) = Inr sv3"
            "(if \<not> is_closing sv3 ?fd then post_recv pf ?fd ?g sv3
              else maybe_close_after_flush pf ?fd sv3) = Inr sv4"
          using m2 [OF lines] by (simp only: not_True_eq_False if_False bind_result_Inr_iff) blast
        then have "tells {} (Some ?fd) {} None ?sv1 sv4" by (rule t5 [OF lines])
        then show "handled ?sv0 sv4"
          using handledI [OF tells_trans [OF t1] inv0] by blast
      qed
    qed
  qed
qed


section \<open>Send completions\<close>

lemma post_send_ok:
  assumes "post_send pf fd sv = Inr sv'" and inv: "server_inv {fd} R sv"
  shows "server_inv {fd} R sv'" and "talks sv sv'" and "loop_tokens sv' = loop_tokens sv"
    and "sv_stopping sv' = sv_stopping sv" and "sv_config sv' = sv_config sv"
    and "sv_next_session_generation sv' = sv_next_session_generation sv"
    and "sv_sessions sv' fd = Some s' \<Longrightarrow> s_outbox s' \<noteq> [] \<Longrightarrow> s_write_in_flight s'"
proof -
  have "server_inv {fd} R sv' \<and> talks sv sv' \<and> loop_tokens sv' = loop_tokens sv \<and>
      sv_stopping sv' = sv_stopping sv \<and> sv_config sv' = sv_config sv \<and> sv_next_session_generation sv' = sv_next_session_generation sv \<and>
      (sv_sessions sv' fd = Some s' \<longrightarrow> s_outbox s' \<noteq> [] \<longrightarrow> s_write_in_flight s')"
    using assms(1)
  proof (cases rule: post_send_cases)
    case none
    then show ?thesis using inv by simp
  next
    case (idle s)
    then show ?thesis using inv by auto
  next
    case (posted s r)
    have ok: "session_ok {fd} R sv fd s" using inv posted(1) by (simp add: server_inv_def)
    have "session_ok {fd} R (sv\<lparr>sv_ring := r\<rparr>) fd (s\<lparr>s_write_in_flight := True\<rparr>)"
      using ok posted(2,3) by (simp add: session_ok_def token_accounts recv_token_def posted(5))
    then have "server_inv {fd} R sv'"
      unfolding posted(4)
      by (intro server_inv_replace [OF inv posted(1), where new =
            "{#send_token fd (s_generation s) (hd (s_outbox s))#}"]) (auto simp: posted(5))
    moreover have "talks sv sv'" using posted(1) by (auto simp: talks_def posted(4))
    moreover have "loop_tokens sv' = loop_tokens sv" using posted(5) by (simp add: posted(4) loop_tokens_def)
    ultimately show ?thesis by (auto simp: posted(4))
  qed
  then show "server_inv {fd} R sv'" "talks sv sv'" "loop_tokens sv' = loop_tokens sv"
    "sv_stopping sv' = sv_stopping sv" "sv_config sv' = sv_config sv" "sv_next_session_generation sv' = sv_next_session_generation sv"
    "sv_sessions sv' fd = Some s' \<Longrightarrow> s_outbox s' \<noteq> [] \<Longrightarrow> s_write_in_flight s'" by auto
qed

lemma after_send_ok:
  assumes inv: "server_inv {fd} None sv"
    and posted: "\<And>s. sv_sessions sv fd = Some s \<Longrightarrow> s_outbox s \<noteq> [] \<Longrightarrow> s_write_in_flight s"
  shows "ensures (maybe_close_after_flush pf fd sv) (tells {fd} None {} None sv)"
proof (cases "\<exists>s. sv_sessions sv fd = Some s \<and> s_close_after_flush s \<and> \<not> s_write_in_flight s \<and>
    s_outbox s = []")
  case True
  have "tells {fd} None {} None sv sv'"
    if "tells {fd} None {fd} None sv sv'" "sv_sessions sv' fd = None" for sv'
    using that send_not_missed [OF tells_inv [OF that(1) inv]] by (simp add: tells_def)
  with True close_tells [where pf = pf and fd = fd and sv = sv and S = "{fd}" and R = None]
  show ?thesis by (auto simp: maybe_close_after_flush_def ensures_iff)
next
  case False
  then have "maybe_close_after_flush pf fd sv = Inr sv"
    by (auto simp: maybe_close_after_flush_def split: option.splits)
  moreover have "server_inv {} None sv"
    using False posted by (intro send_not_missed [OF inv]) blast
  ultimately show ?thesis by (simp add: tells_def)
qed

lemma flush_front_nonempty: "[] \<notin> set outbox \<Longrightarrow> [] \<notin> set (flush_front n outbox)"
  by (auto simp: flush_front_def split: list.splits)

definition after_send :: "completion_token \<Rightarrow> int \<Rightarrow> server \<Rightarrow> server" where
  "after_send token result sv = sent_back token
     (let outbox = s_outbox (the (sv_sessions sv (t_fd token))) in
      if result \<le> 0 then outbox else flush_front (nat result) outbox) sv"

lemma sent_back_eqI:
  assumes "sv_sessions sv (t_fd token) = Some s"
    and "g s = s\<lparr>s_write_in_flight := False, s_outbox := outbox'\<rparr>"
  shows "update_session (t_fd token) g (take_token token sv) = sent_back token outbox' sv"
  using assms by (simp add: sent_back_def update_session_def)

lemma update_session_twice:
  "update_session fd f (update_session fd g sv) = update_session fd (\<lambda>s. f (g s)) sv"
  by (cases "sv_sessions sv fd") (simp_all add: update_session_def)

lemma on_send_eq:
  assumes s: "sv_sessions sv (t_fd token) = Some s" and gen: "s_generation s = t_generation token"
    and "s_outbox s \<noteq> []"
  shows "on_send pf token result (take_token token sv) =
    (if result \<le> 0 then close_session pf (t_fd token) (after_send token result sv)
     else bind_result (post_send pf (t_fd token) (after_send token result sv))
       (maybe_close_after_flush pf (t_fd token)))"
proof -
  let ?sv0 = "take_token token sv" and ?fd = "t_fd token"
  let ?sv1 = "update_session ?fd (s_write_in_flight_update (\<lambda>_. False)) ?sv0"
  have f1: "s_write_in_flight_update (\<lambda>_. False) s =
      s\<lparr>s_write_in_flight := False, s_outbox := s_outbox s\<rparr>"
    by (cases s) simp
  have f2: "s_outbox_update f (s_write_in_flight_update (\<lambda>_. False) s) =
      s\<lparr>s_write_in_flight := False, s_outbox := f (s_outbox s)\<rparr>" for f
    by (cases s) simp
  have m: "session_matches ?sv0 ?fd (t_generation token)"
    using s gen by (simp add: session_matches_def)
  have s1: "sv_sessions ?sv1 ?fd = Some (s_write_in_flight_update (\<lambda>_. False) s)"
    using s by (simp add: update_session_def)
  have sv1: "?sv1 = sent_back token (s_outbox s) sv"
    by (rule sent_back_eqI [where s = s and g = "s_write_in_flight_update (\<lambda>_. False)"])
      (rule s f1)+
  have sv2: "update_session ?fd (s_outbox_update f) ?sv1 = sent_back token (f (s_outbox s)) sv" for f
    unfolding update_session_twice
    by (rule sent_back_eqI [where s = s and
          g = "\<lambda>s. s_outbox_update f (s_write_in_flight_update (\<lambda>_. False) s)"]) (rule s f2)+
  have out: "s_outbox (the (sv_sessions ?sv1 ?fd)) = s_outbox s" by (simp add: s1)
  have "on_send pf token result ?sv0 =
      (if result \<le> 0 \<or> s_outbox s = [] then close_session pf ?fd ?sv1
       else bind_result (post_send pf ?fd
         (update_session ?fd (s_outbox_update (flush_front (nat result))) ?sv1))
         (maybe_close_after_flush pf ?fd))"
    unfolding on_send_def Let_def out using m by simp
  then show ?thesis
    unfolding sv2 unfolding sv1 using assms(3) by (simp add: after_send_def s)
qed

lemma after_send_accounts:
  "loop_tokens (after_send token result sv) = loop_tokens (take_token token sv)"
  "sv_stopping (after_send token result sv) = sv_stopping sv"
  "sv_config (after_send token result sv) = sv_config sv"
  "sv_next_session_generation (after_send token result sv) = sv_next_session_generation sv"
  by (simp_all add: after_send_def sent_back_def update_session_def loop_tokens_def)

lemma on_send_ok:
  assumes inv: "server_inv {} None sv" and tok: "token \<in> set (ring_inflight (sv_ring sv))"
    and type: "t_type token = KSend"
  shows "ensures (on_send pf token result (take_token token sv))
    (handled (if session_matches sv (t_fd token) (t_generation token)
       then after_send token result sv else take_token token sv))"
proof (cases "session_matches sv (t_fd token) (t_generation token)")
  case False
  have "handled (take_token token sv) (take_token token sv)"
    by (rule handledI [OF tells_id take_other [OF inv tok]]) (simp add: False)
  with False show ?thesis by (simp add: on_send_def)
next
  case True
  then obtain s where s: "sv_sessions sv (t_fd token) = Some s" "s_generation s = t_generation token"
    by (rule matches_session)
  let ?fd = "t_fd token" and ?sv1 = "after_send token result sv"
  note facts = take_send_facts [OF inv tok type s(1) refl s(2) [symmetric]]
  have "[] \<notin> set (s_outbox s)" using inv s by (simp add: server_inv_def session_ok_def)
  then have inv1: "server_inv {?fd} None ?sv1"
    unfolding after_send_def Let_def s option.sel
    by (intro take_send [OF inv tok type s(1) s(2) [symmetric]]) (simp add: flush_front_nonempty)
  have "handled ?sv1 sv2" if "tells {?fd} None {?fd} None ?sv1 sv2" "sv_sessions sv2 ?fd = None" for sv2
    using that send_not_missed [OF tells_inv [OF that(1) inv1]] by (simp add: handled_def tells_def)
  moreover have "handled ?sv1 sv3"
    if post: "post_send pf ?fd ?sv1 = Inr sv2" and last: "maybe_close_after_flush pf ?fd sv2 = Inr sv3"
    for sv2 sv3
  proof -
    note p = post_send_ok [OF post inv1]
    have "tells {?fd} None {?fd} None ?sv1 sv2" using p(1-6) by (simp add: tells_def)
    moreover have "tells {?fd} None {} None sv2 sv3"
      using ensuresD [OF after_send_ok [OF p(1) p(7)] last] .
    ultimately show ?thesis using handledI [OF tells_trans inv1] by blast
  qed
  ultimately show ?thesis
    using True close_tells [where pf = pf and fd = ?fd and sv = ?sv1 and S = "{?fd}" and R = None]
    unfolding on_send_eq [OF s facts(2)]
    by (auto simp: ensures_iff bind_result_Inr_iff)
qed


section \<open>New connections and database events\<close>

definition accept_token :: completion_token where
  "accept_token = new_token\<lparr>t_type := KAccept\<rparr>"

definition poll_token :: completion_token where
  "poll_token = new_token\<lparr>t_type := KDatabaseEvent\<rparr>"

lemma loop_token_types [simp]: "t_type accept_token = KAccept" "t_type poll_token = KDatabaseEvent"
  by (simp_all add: accept_token_def poll_token_def)

text \<open>Posting a token of the loop itself.\<close>

lemma push_loop_token:
  assumes "push_sqe pf token sv = Inr sv'" and inv: "server_inv S R sv"
    and type: "t_type token = KAccept \<or> t_type token = KDatabaseEvent"
  shows "server_inv S R sv'" and "loop_tokens sv' = add_mset token (loop_tokens sv)"
    and "sv_sessions sv' = sv_sessions sv" and "sv_stopping sv' = sv_stopping sv"
    and "sv_config sv' = sv_config sv"
    and "sv_next_session_generation sv' = sv_next_session_generation sv" and "sv_world sv' = sv_world sv"
proof -
  from assms(1) obtain r where sv': "sv' = sv\<lparr>sv_ring := r\<rparr>"
      and r: "ring_tokens r = add_mset token (ring_tokens (sv_ring sv))"
    by (rule push_sqe_cases)
  have "session_ok S R sv' fd s = session_ok S R sv fd s" for fd s
    using type by (auto simp: session_ok_def token_accounts recv_token_def sv' r)
  moreover have "fresh_generations sv' = fresh_generations sv"
    using type by (auto simp: fresh_generations_def sv' r)
  ultimately show "server_inv S R sv'" using inv by (simp add: server_inv_def) (simp add: sv')
  show "loop_tokens sv' = add_mset token (loop_tokens sv)"
    using type by (auto simp: loop_tokens_def sv' r)
qed (use assms(1) in \<open>auto elim: push_sqe_cases\<close>)

definition welcomes :: "int \<Rightarrow> server \<Rightarrow> server \<Rightarrow> bool" where
  "welcomes new sv sv' \<longleftrightarrow> (\<forall>fd s'. fd \<noteq> new \<longrightarrow> sv_sessions sv' fd = Some s' \<longrightarrow>
     (\<exists>s lines. sv_sessions sv fd = Some s \<and> s_generation s' = s_generation s \<and>
        s_outbox s' = s_outbox s @ lines))"

lemma add_session_ok:
  assumes inv: "server_inv {} None sv" and free: "sv_sessions sv fd = None"
    and bound: "sv_next_session_generation sv \<noteq> - 1"
  defines "g \<equiv> sv_next_session_generation sv"
  defines "sv1 \<equiv> add_session (new_session\<lparr>s_fd := fd, s_generation := g\<rparr>)
    (sv\<lparr>sv_next_session_generation := g + 1\<rparr>)"
  shows "server_inv {} (Some fd) sv1"
    and "sv1 = sv\<lparr>sv_next_session_generation := g + 1,
      sv_sessions := (sv_sessions sv)(fd \<mapsto> new_session\<lparr>s_fd := fd, s_generation := g\<rparr>)\<rparr>"
proof -
  let ?s = "new_session\<lparr>s_fd := fd, s_generation := g\<rparr>"
  show sv1: "sv1 = sv\<lparr>sv_next_session_generation := g + 1, sv_sessions := (sv_sessions sv)(fd \<mapsto> ?s)\<rparr>"
    using free by (simp add: sv1_def add_session_def)
  have "1 + g \<noteq> 0" using bound max_word_wrap [of g] by (auto simp: g_def add.commute)
  then have less: "g < g + 1" using unatSuc [of g] by (simp add: word_less_nat_alt add.commute)
  have fresh: "t_generation t < g" if "t \<in># ring_tokens (sv_ring sv)" "t_type t = KSend \<or> t_type t = KRecv" for t
    using inv that by (auto simp: server_inv_def fresh_generations_def g_def)
  have acc: "sends_of sv1 = sends_of sv" "recvs_of sv1 = recvs_of sv" "recv_token sv1 = recv_token sv"
    by (simp_all add: fun_eq_iff token_accounts recv_token_def sv1)
  have empty: "filter_mset P (ring_tokens (sv_ring sv)) = {#}"
    if "\<And>t. P t \<Longrightarrow> (t_type t = KSend \<or> t_type t = KRecv) \<and> t_generation t = g" for P
  proof -
    have "\<not> P t" if "t \<in># ring_tokens (sv_ring sv)" for t
      using \<open>\<And>t. P t \<Longrightarrow> _\<close> [of t] fresh [OF that] by auto
    then have "filter_mset P (ring_tokens (sv_ring sv)) = filter_mset (\<lambda>_. False) (ring_tokens (sv_ring sv))"
      by (intro filter_mset_cong) auto
    then show ?thesis by simp
  qed
  have none: "sends_of sv fd g = {#}" "recvs_of sv fd g = {#}"
    unfolding token_accounts by (rule empty, simp)+
  have own: "session_ok {} (Some fd) sv1 fd ?s"
    by (simp add: session_ok_def acc none new_session_def) (simp add: sv1 less)
  have others: "session_ok {} (Some fd) sv1 fd2 s2" if "sv_sessions sv fd2 = Some s2" "fd2 \<noteq> fd" for fd2 s2
  proof -
    have "session_ok {} None sv fd2 s2" using inv that by (simp add: server_inv_def)
    moreover have "s < sv_next_session_generation sv \<Longrightarrow> s < sv_next_session_generation sv1" for s
      using less by (simp add: sv1 g_def)
    ultimately show ?thesis using that by (simp add: session_ok_def acc)
  qed
  have "fresh_generations sv1"
    unfolding fresh_generations_def using fresh less by (auto simp: sv1 intro: less_trans)
  moreover have "session_ok {} (Some fd) sv1 fd2 s2" if "sv_sessions sv1 fd2 = Some s2" for fd2 s2
    using that own others by (cases "fd2 = fd") (auto simp: sv1)
  ultimately show "server_inv {} (Some fd) sv1" unfolding server_inv_def by blast
qed

lemma open_session_ok:
  assumes inv: "server_inv {} None sv" and free: "sv_sessions sv fd = None"
    and bound: "sv_next_session_generation sv \<noteq> - 1"
  shows "ensures (open_session pf fd sv) (\<lambda>sv'. server_inv {} None sv' \<and> welcomes fd sv sv' \<and>
    loop_tokens sv' = loop_tokens sv \<and> sv_stopping sv' = sv_stopping sv \<and> sv_config sv' = sv_config sv \<and> sv_next_session_generation sv' = sv_next_session_generation sv + 1)"
proof -
  let ?g = "sv_next_session_generation sv"
  let ?s = "new_session\<lparr>s_fd := fd, s_generation := ?g\<rparr>"
  let ?sv1 = "add_session ?s (sv\<lparr>sv_next_session_generation := ?g + 1\<rparr>)"
  note a = add_session_ok [OF inv free bound]
  have l1: "loop_tokens ?sv1 = loop_tokens sv" "sv_stopping ?sv1 = sv_stopping sv"
      "sv_config ?sv1 = sv_config sv"
      "sv_next_session_generation ?sv1 = sv_next_session_generation sv + 1"
    unfolding a(2) by (simp_all add: loop_tokens_def)
  have claim: "server_inv {} None sv3 \<and> welcomes fd sv sv3 \<and> loop_tokens sv3 = loop_tokens sv \<and>
      sv_stopping sv3 = sv_stopping sv \<and> sv_config sv3 = sv_config sv \<and>
      sv_next_session_generation sv3 = sv_next_session_generation sv + 1"
    if q: "queue_response pf fd ?g hello_line ?sv1 = Inr sv2"
      and p: "post_recv pf fd ?g sv2 = Inr sv3" for sv2 sv3
  proof -
    have k: "keeps {} (Some fd) ?sv1 sv2" using ensuresD [OF keeps_respond q] .
    have "sv_sessions ?sv1 fd = Some ?s" unfolding a(2) by simp
    then obtain s2 where s2: "sv_sessions sv2 fd = Some s2" "session_grows ?s s2"
      using k by (auto simp: keeps_def elim!: steady_session)
    have "\<not> s_close_after_flush s2"
      using q s2(1) unfolding a(2)
      by (cases rule: queue_response_cases) (auto simp: session_matches_def queued_def new_session_def)
    then have "tells {} (Some fd) {} None sv2 sv3"
      using s2 k a(1) by (intro ensuresD [OF post_recv_ok p]) (auto simp: keeps_def session_grows_def)
    then have t: "tells {} (Some fd) {} None ?sv1 sv3" using tells_trans [OF keeps_tells [OF k]] by blast
    have "welcomes fd sv sv3"
      unfolding welcomes_def
    proof (intro allI impI)
      fix fd2 s' assume "fd2 \<noteq> fd" "sv_sessions sv3 fd2 = Some s'"
      then obtain s lines where "sv_sessions ?sv1 fd2 = Some s" "s_generation s' = s_generation s"
          "s_outbox s' = s_outbox s @ lines"
        using t unfolding tells_def talks_def by blast
      with \<open>fd2 \<noteq> fd\<close> show "\<exists>s lines. sv_sessions sv fd2 = Some s \<and>
          s_generation s' = s_generation s \<and> s_outbox s' = s_outbox s @ lines"
        unfolding a(2) by auto
    qed
    moreover have "sv_next_session_generation sv3 = sv_next_session_generation ?sv1"
      "loop_tokens sv3 = loop_tokens ?sv1" "sv_stopping sv3 = sv_stopping ?sv1"
      "sv_config sv3 = sv_config ?sv1" "server_inv {} None sv3"
      using t a(1) unfolding tells_def by blast+
    ultimately show ?thesis unfolding l1 by blast
  qed
  show ?thesis
    unfolding open_session_def Let_def ensures_iff bind_result_Inr_iff
    by (intro allI impI, elim exE conjE, rule claim)
qed


lemma talks_cong: "talks sv sv1 \<Longrightarrow> sv_sessions sv2 = sv_sessions sv1 \<Longrightarrow> talks sv sv2"
  by (simp add: talks_def)

lemma welcomes_cong:
  "welcomes new sv sv1 \<Longrightarrow> sv_sessions sv2 = sv_sessions sv1 \<Longrightarrow> welcomes new sv sv2"
  by (simp add: welcomes_def)

lemma welcomes_refl [simp]: "welcomes new sv sv"
  by (simp add: welcomes_def)

text \<open>A handler that ends by posting its own token again.\<close>

lemma repost_ok:
  assumes inv: "server_inv {} None sv" and type: "t_type token = KAccept \<or> t_type token = KDatabaseEvent"
  shows "ensures (if \<not> sv_stopping sv then push_sqe pf token sv else Inr sv) (\<lambda>sv'.
    server_inv {} None sv' \<and> sv_sessions sv' = sv_sessions sv \<and>
    loop_tokens sv' = (if sv_stopping sv then {#} else {#token#}) + loop_tokens sv \<and>
    sv_stopping sv' = sv_stopping sv \<and> sv_config sv' = sv_config sv \<and> sv_next_session_generation sv' = sv_next_session_generation sv)"
proof (cases "sv_stopping sv")
  case False
  then show ?thesis
    using push_loop_token [OF _ inv type] by (simp add: ensures_iff)
qed (use inv in simp)

lemma on_accept_ok:
  assumes inv: "server_inv {} None sv"
    and outcome: "result < 0 \<or> sv_sessions sv result = None \<and> sv_next_session_generation sv \<noteq> - 1"
  shows "ensures (on_accept pf result sv) (\<lambda>sv'. server_inv {} None sv' \<and> welcomes result sv sv' \<and>
    loop_tokens sv' = (if sv_stopping sv then {#} else {#accept_token#}) + loop_tokens sv \<and>
    sv_stopping sv' = sv_stopping sv \<and> sv_config sv' = sv_config sv \<and>
    sv_next_session_generation sv' = sv_next_session_generation sv + (if 0 \<le> result then 1 else 0))"
proof -
  let ?P = "\<lambda>sv'. server_inv {} None sv' \<and> welcomes result sv sv' \<and> loop_tokens sv' = loop_tokens sv \<and>
    sv_stopping sv' = sv_stopping sv \<and> sv_config sv' = sv_config sv \<and>
    sv_next_session_generation sv' = sv_next_session_generation sv + (if 0 \<le> result then 1 else 0)"
  let ?r = "if 0 \<le> result then open_session pf result sv
       else if result \<noteq> - ECANCELED \<and> result \<noteq> - EINVAL
       then Inr (sv\<lparr>sv_log := sv_log sv @ [''accept failed: '' @ pf_strerror pf (- result)]\<rparr>)
       else Inr sv"
  have log: "?P (sv\<lparr>sv_log := l\<rparr>)" if "result < 0" for l
    using that inv server_inv_cong [of "sv\<lparr>sv_log := l\<rparr>" sv "{}" None]
    by (simp add: welcomes_def loop_tokens_def)
  have first: "ensures ?r ?P"
  proof (cases "0 \<le> result")
    case True
    with outcome have "sv_sessions sv result = None" "sv_next_session_generation sv \<noteq> - 1" by auto
    from open_session_ok [OF inv this] True have "ensures (open_session pf result sv) ?P"
      by (simp only: if_True)
    with True show ?thesis by (simp only: if_True)
  next
    case False
    then have "?P (sv\<lparr>sv_log := l\<rparr>)" for l using log by simp
    with False inv show ?thesis by simp
  qed
  show ?thesis
    unfolding on_accept_def post_accept_def accept_token_def [symmetric]
  proof (rule ensures_bind, rule ensures_mono [OF first])
    fix sv1 assume P: "?P sv1"
    then have "server_inv {} None sv1" by blast
    from repost_ok [OF this disjI1 [OF loop_token_types(1)], of pf] show "ensures
        (if \<not> sv_stopping sv1 then push_sqe pf accept_token sv1 else Inr sv1) (\<lambda>sv'.
        server_inv {} None sv' \<and> welcomes result sv sv' \<and>
        loop_tokens sv' = (if sv_stopping sv then {#} else {#accept_token#}) + loop_tokens sv \<and>
        sv_stopping sv' = sv_stopping sv \<and> sv_config sv' = sv_config sv \<and>
    sv_next_session_generation sv' = sv_next_session_generation sv + (if 0 \<le> result then 1 else 0))"
      by (rule ensures_mono) (use P in \<open>auto intro: welcomes_cong\<close>)
  qed
qed

lemma tells_database: "tells S R S R sv (sv\<lparr>sv_database := d\<rparr>)"
  using server_inv_cong [of "sv\<lparr>sv_database := d\<rparr>" sv S R]
  by (simp add: tells_def talks_def loop_tokens_def)

lemma tells_log: "tells S R S R sv (sv\<lparr>sv_log := l\<rparr>)"
  using server_inv_cong [of "sv\<lparr>sv_log := l\<rparr>" sv S R]
  by (simp add: tells_def talks_def loop_tokens_def)

lemma on_completion_ok: "ensures (on_completion pf completion sv) (tells {} None {} None sv)"
proof -
  have "tells {} None {} None sv sv'"
    if "bind_result (queue_response pf fd generation line
        (update_session fd (s_pending_db_update f) sv)) (maybe_close_after_flush pf fd) = Inr sv'"
    for fd generation line f sv'
  proof -
    from that obtain sv1 where
        q: "queue_response pf fd generation line (update_session fd (s_pending_db_update f) sv) = Inr sv1"
      and c: "maybe_close_after_flush pf fd sv1 = Inr sv'"
      by (auto simp: bind_result_Inr_iff)
    have "keeps {} None sv sv1"
      using keeps_trans [OF keeps_pending ensuresD [OF keeps_respond q]] .
    moreover have "tells {} None {} None sv1 sv'" using ensuresD [OF maybe_close_tells c] by simp
    ultimately show ?thesis using tells_trans keeps_tells by blast
  qed
  then show ?thesis
    by (auto simp: on_completion_def ensures_iff Let_def tells_log split: if_splits)
qed

lemma drain_completions_ok: "ensures (drain_completions pf sv) (tells {} None {} None sv)"
proof (induction pf sv rule: drain_completions.induct)
  case (1 pf sv)
  obtain popped database where pop: "pop_completion (sv_database sv) = (popped, database)"
    by (cases "pop_completion (sv_database sv)") auto
  show ?case
  proof (cases popped)
    case None
    then show ?thesis by (simp add: drain_completions.simps [of pf sv] pop)
  next
    case (Some completion)
    let ?sv0 = "sv\<lparr>sv_database := database\<rparr>"
    have "ensures (bind_result (on_completion pf completion ?sv0) (drain_completions pf))
        (tells {} None {} None ?sv0)"
    proof (rule tells_then [OF on_completion_ok])
      fix sv1 assume "on_completion pf completion ?sv0 = Inr sv1"
      then show "ensures (drain_completions pf sv1) (tells {} None {} None sv1)"
        using "1.IH" [OF pop [symmetric] Some] by blast
    qed
    then show ?thesis
      using tells_trans [OF tells_database]
      by (auto simp: drain_completions.simps [of pf sv] pop Some ensures_iff)
  qed
qed

lemma on_database_event_ok:
  assumes inv: "server_inv {} None sv"
  shows "ensures (on_database_event pf sv) (\<lambda>sv'. server_inv {} None sv' \<and> talks sv sv' \<and>
    loop_tokens sv' = (if sv_stopping sv then {#} else {#poll_token#}) + loop_tokens sv \<and>
    sv_stopping sv' = sv_stopping sv \<and> sv_config sv' = sv_config sv \<and> sv_next_session_generation sv' = sv_next_session_generation sv)"
  unfolding on_database_event_def post_eventfd_poll_def poll_token_def [symmetric]
proof (rule ensures_bind, rule ensures_mono [OF drain_completions_ok])
  fix sv1 assume "tells {} None {} None (sv\<lparr>sv_database := event_read (sv_database sv)\<rparr>) sv1"
  then have t: "tells {} None {} None sv sv1" by (rule tells_trans [OF tells_database])
  then have inv1: "server_inv {} None sv1" using inv by (rule tells_inv)
  from repost_ok [OF inv1 disjI2 [OF loop_token_types(2)], of pf]
  show "ensures (if \<not> sv_stopping sv1 then push_sqe pf poll_token sv1 else Inr sv1)
      (\<lambda>sv'. server_inv {} None sv' \<and> talks sv sv' \<and>
        loop_tokens sv' = (if sv_stopping sv then {#} else {#poll_token#}) + loop_tokens sv \<and>
        sv_stopping sv' = sv_stopping sv \<and> sv_config sv' = sv_config sv \<and> sv_next_session_generation sv' = sv_next_session_generation sv)"
    by (rule ensures_mono) (use t in \<open>auto simp: tells_def intro: talks_cong\<close>)
qed


section \<open>The loop\<close>

definition loop_inv :: "server \<Rightarrow> bool" where
  "loop_inv sv \<longleftrightarrow> server_inv {} None sv \<and> \<not> sv_stopping sv \<and>
     loop_tokens sv = {#accept_token, poll_token#}"

lemma loop_token_is:
  assumes "loop_inv sv" and "token \<in> set (ring_inflight (sv_ring sv))"
  shows "t_type token = KAccept \<Longrightarrow> token = accept_token"
    and "t_type token = KDatabaseEvent \<Longrightarrow> token = poll_token"
proof -
  have "token \<in># loop_tokens sv" if "t_type token = KAccept \<or> t_type token = KDatabaseEvent"
    using assms(2) that by (auto simp: loop_tokens_def ring_tokens_def)
  then show "t_type token = KAccept \<Longrightarrow> token = accept_token"
    "t_type token = KDatabaseEvent \<Longrightarrow> token = poll_token"
    using assms(1) by (auto simp: loop_inv_def)
qed

lemma loop_step_cases:
  assumes "loop_step pf sv sv'"
  obtains (submitted) n where "sv' = sv\<lparr>sv_ring := kernel_takes n (sv_ring sv)\<rparr>"
  | (accepted) token result where "token \<in> set (ring_inflight (sv_ring sv))" "t_type token = KAccept"
      "result < 0 \<or> sv_sessions sv result = None \<and> sv_next_session_generation sv \<noteq> - 1"
      "on_accept pf result (take_token token sv) = Inr sv'"
  | (received) token result data where "token \<in> set (ring_inflight (sv_ring sv))" "t_type token = KRecv"
      "int (length data) = max 0 result" "length data \<le> t_buffer token"
      "on_recv pf token result data (take_token token sv) = Inr sv'"
  | (sent) token result where "token \<in> set (ring_inflight (sv_ring sv))" "t_type token = KSend"
      "result \<le> int (length (t_payload token))"
      "on_send pf token result (take_token token sv) = Inr sv'"
  | (database) token where "token \<in> set (ring_inflight (sv_ring sv))" "t_type token = KDatabaseEvent"
      "on_database_event pf (take_token token sv) = Inr sv'"
  using assms
proof (rule loop_stepE)
  fix n assume "sv' = sv\<lparr>sv_ring := kernel_takes n (sv_ring sv)\<rparr>"
  then show ?thesis by (rule that(1))
next
  fix token result data
  assume "token \<in> set (ring_inflight (sv_ring sv))" and "outcome_ok sv token result data"
    and "dispatch pf token result data (take_token token sv) = Inr sv'"
  then show ?thesis
    using that(2) [of token result] that(3) [of token data result] that(4) [of token result] that(5) [of token]
    by (cases "t_type token") (auto simp: dispatch_def outcome_ok_def)
qed

lemma server_inv_submitted:
  "server_inv S R (sv\<lparr>sv_ring := kernel_takes n (sv_ring sv)\<rparr>) = server_inv S R sv"
  by (simp add: server_inv_def fresh_generations_def session_ok_def token_accounts recv_token_def)

lemma loop_step_inv:
  assumes "loop_step pf sv sv'" and inv: "loop_inv sv"
  shows "loop_inv sv'"
proof -
  have si: "server_inv {} None sv" and run: "\<not> sv_stopping sv" using inv by (simp_all add: loop_inv_def)
  from assms(1) show ?thesis
  proof (cases rule: loop_step_cases)
    case (submitted n)
    then show ?thesis using inv by (simp add: loop_inv_def server_inv_submitted loop_tokens_def)
  next
    case (accepted token result)
    have tok: "token = accept_token" using loop_token_is(1) [OF inv accepted(1,2)] .
    have "server_inv {} None (take_token token sv)"
      using accepted(2) by (intro take_other [OF si accepted(1)]) auto
    then have P: "server_inv {} None sv' \<and> loop_tokens sv' = add_mset accept_token (loop_tokens (take_token token sv))
        \<and> sv_stopping sv' = sv_stopping sv"
      using ensuresD [OF on_accept_ok accepted(4)] accepted(3) run by simp
    have "loop_tokens sv = add_mset accept_token (loop_tokens (take_token token sv))"
      using accounts_take(3) [OF accepted(1)] accepted(2) tok by simp
    with P inv show ?thesis by (simp add: loop_inv_def)
  next
    case (received token result data)
    have "handled (take_token token sv) sv'"
      using ensuresD [OF on_recv_ok [OF si received(1,2)] received(5)] .
    moreover have "loop_tokens (take_token token sv) = loop_tokens sv"
      using accounts_take(3) [OF received(1)] received(2) by simp
    ultimately show ?thesis using inv by (simp add: loop_inv_def handled_def)
  next
    case (sent token result)
    have "loop_tokens (take_token token sv) = loop_tokens sv"
      using accounts_take(3) [OF sent(1)] sent(2) by simp
    then show ?thesis
      using ensuresD [OF on_send_ok [OF si sent(1,2)] sent(4)] inv
      by (auto simp: loop_inv_def handled_def after_send_accounts split: if_splits)
  next
    case (database token)
    have tok: "token = poll_token" using loop_token_is(2) [OF inv database(1,2)] .
    have "server_inv {} None (take_token token sv)"
      using database(2) by (intro take_other [OF si database(1)]) auto
    then have P: "server_inv {} None sv' \<and> loop_tokens sv' = add_mset poll_token (loop_tokens (take_token token sv))
        \<and> sv_stopping sv' = sv_stopping sv"
      using ensuresD [OF on_database_event_ok database(3)] run by simp
    have "loop_tokens sv = add_mset poll_token (loop_tokens (take_token token sv))"
      using accounts_take(3) [OF database(1)] database(2) tok by simp
    with P inv show ?thesis by (simp add: loop_inv_def)
  qed
qed

lemma run_begin_inv:
  assumes "run_begin pf listen_fd entries (server_new config database world) = Inr sv"
  shows "loop_inv sv" and "sv_sessions sv = Map.empty" and "sv_world sv = world"
    and "sv_config sv = config"
proof -
  let ?sv0 = "(server_new config database world)\<lparr>sv_listen_fd := listen_fd,
    sv_ring := \<lparr>ring_entries = entries, ring_sq = [], ring_inflight = []\<rparr>\<rparr>"
  from assms obtain sv1 where 1: "push_sqe pf accept_token ?sv0 = Inr sv1"
      and 2: "push_sqe pf poll_token sv1 = Inr sv"
    by (auto simp: run_begin_def bind_result_Inr_iff post_accept_def post_eventfd_poll_def
        accept_token_def poll_token_def)
  have inv0: "server_inv {} None ?sv0"
    by (simp add: server_inv_def fresh_generations_def ring_tokens_def server_new_def)
  note p1 = push_loop_token [OF 1 inv0 disjI1 [OF loop_token_types(1)]]
  note p2 = push_loop_token [OF 2 p1(1) disjI2 [OF loop_token_types(2)]]
  have "loop_tokens ?sv0 = {#}" by (simp add: loop_tokens_def ring_tokens_def)
  with p1 p2 show "loop_inv sv" by (simp add: loop_inv_def server_new_def)
  show "sv_sessions sv = Map.empty" "sv_world sv = world" "sv_config sv = config"
    using p1 p2 by (simp_all add: server_new_def)
qed

end
