(* ===== verification/Server_World.thy ===== *)
theory Server_World
  imports Server_Invariant
begin

text \<open>
  The world inside the event loop: every player in it belongs to a live session, and the invariant of
  World.thy holds, through every handler. Together with the invariant of the loop this is
  \<open>server_ok\<close>, which every reachable state satisfies.
\<close>

definition world_ok :: "server \<Rightarrow> bool" where
  "world_ok sv \<longleftrightarrow> world_inv (sv_world sv) \<and>
     (\<forall>ref. players (sv_world sv) ref \<noteq> None \<longrightarrow> session_matches sv (sr_fd ref) (sr_generation ref))"

definition same_world :: "server \<Rightarrow> server \<Rightarrow> bool" where
  "same_world sv sv' \<longleftrightarrow> steady sv sv' \<and> sv_world sv' = sv_world sv"

lemma same_world_refl [simp]: "same_world sv sv"
  by (simp add: same_world_def)

lemma same_world_trans: "same_world sv sv1 \<Longrightarrow> same_world sv1 sv2 \<Longrightarrow> same_world sv sv2"
  by (auto simp: same_world_def intro: steady_trans)

lemma same_world_respond: "ensures (queue_response pf fd generation line sv) (same_world sv)"
  unfolding ensures_iff
proof (intro allI impI)
  fix sv' assume q: "queue_response pf fd generation line sv = Inr sv'"
  then have "sv_world sv' = sv_world sv" by (cases rule: queue_response_cases) simp_all
  then show "same_world sv sv'" using ensuresD [OF steady_respond q] by (simp add: same_world_def)
qed

interpretation same_world: server_frame pf same_world for pf
proof unfold_locales
  show "same_world sv sv1 \<Longrightarrow> same_world sv1 sv2 \<Longrightarrow> same_world sv sv2" for sv sv1 sv2
    by (rule same_world_trans)
  show "same_world sv (submit_job j sv)" for sv j
    using steady_job [of sv j] by (simp add: same_world_def submit_job_def)
qed (simp_all add: same_world_respond same_world_def steady_request)

lemma world_ok_steady:
  "world_ok sv \<Longrightarrow> steady sv sv' \<Longrightarrow> sv_world sv' = sv_world sv \<Longrightarrow> world_ok sv'"
  by (auto simp: world_ok_def intro: steady_matches)

lemma world_ok_same: "world_ok sv \<Longrightarrow> same_world sv sv' \<Longrightarrow> world_ok sv'"
  by (auto simp: same_world_def intro: world_ok_steady)

text \<open>Installing a new world and delivering its events.\<close>

definition hosts :: "server \<Rightarrow> sector_world \<Rightarrow> bool" where
  "hosts sv w \<longleftrightarrow> world_inv w \<and>
     (\<forall>ref. players w ref \<noteq> None \<longrightarrow> session_matches sv (sr_fd ref) (sr_generation ref))"

lemma world_ok_hosts: "world_ok sv = hosts sv (sv_world sv)"
  by (simp add: world_ok_def hosts_def)

lemma deliver_in_world:
  assumes "hosts sv w"
  shows "ensures (deliver_world_events pf events (sv\<lparr>sv_world := w\<rparr>))
    (\<lambda>sv'. world_ok sv' \<and> steady sv sv' \<and> sv_world sv' = w)"
  unfolding ensures_iff
proof (intro allI impI)
  fix sv' assume "deliver_world_events pf events (sv\<lparr>sv_world := w\<rparr>) = Inr sv'"
  then have s: "same_world (sv\<lparr>sv_world := w\<rparr>) sv'"
    using ensuresD [OF same_world.deliver] by blast
  have "world_ok (sv\<lparr>sv_world := w\<rparr>)"
    using assms by (simp add: hosts_def world_ok_def session_matches_def)
  then have "world_ok sv'" using s by (rule world_ok_same)
  moreover have "steady sv sv'"
    using steady_trans [OF steady_world] s by (auto simp: same_world_def)
  ultimately show "world_ok sv' \<and> steady sv sv' \<and> sv_world sv' = w"
    using s by (simp add: same_world_def)
qed

lemma leave_and_save_world:
  assumes "world_ok sv" and ord: "valid_order (pf_order pf)"
  shows "ensures (leave_and_save pf fd generation sv) (\<lambda>sv'. world_ok sv' \<and> steady sv sv' \<and>
    players (sv_world sv') \<lparr>sr_fd = fd, sr_generation = generation\<rparr> = None)"
proof -
  let ?ref = "\<lparr>sr_fd = fd, sr_generation = generation\<rparr>"
  have wi: "world_inv (sv_world sv)" using assms(1) by (simp add: world_ok_def)
  obtain events snap where
      leave: "world_leave (pf_order pf) (sv_world sv) ?ref no_snapshot =
        Inr (left_world (sv_world sv) ?ref, events, snap)"
    using leave_any [OF wi ord] by blast
  have h: "hosts sv (left_world (sv_world sv) ?ref)"
    using assms(1) by (simp add: hosts_def world_ok_def world_inv_left)
  have claim: "world_ok sv2 \<and> steady sv sv2 \<and> players (sv_world sv2) ?ref = None"
    if "deliver_world_events pf events (sv\<lparr>sv_world := left_world (sv_world sv) ?ref\<rparr>) = Inr sv1"
      and "Inr (if snap_account snap \<noteq> '''' then submit_position_save fd generation
        (snap_account snap) (snap_character snap) (snap_x snap) (snap_y snap) sv1 else sv1) = Inr sv2"
    for sv1 sv2 :: server
  proof -
    from ensuresD [OF deliver_in_world [OF h] that(1)]
    have s1: "world_ok sv1" "steady sv sv1" "players (sv_world sv1) ?ref = None" by auto
    have "same_world sv1 sv2"
      using that(2) same_world.then_save [OF same_world_refl, of sv1] by (auto split: if_splits)
    with s1 show ?thesis
      by (auto simp: same_world_def intro: world_ok_steady steady_trans)
  qed
  show ?thesis
    unfolding leave_and_save_def leave bind_result.simps prod.case ensures_iff bind_result_Inr_iff
    by (intro allI impI, elim exE conjE, rule claim)
qed

definition joins :: "server \<Rightarrow> server \<Rightarrow> bool" where
  "joins sv sv' \<longleftrightarrow> steady sv sv' \<and> world_ok sv'"

lemma joins_update:
  assumes "world_ok sv" and "\<And>s. session_grows s (f s)"
  shows "joins sv (update_session fd f sv)"
  using assms steady_update_session [of f sv fd]
  by (auto simp: joins_def update_session_def intro: world_ok_steady)

lemma joins_respond:
  "world_ok sv \<Longrightarrow> ensures (queue_response pf fd generation line sv) (joins sv)"
  using same_world_respond [of pf fd generation line sv]
  by (auto simp: ensures_iff joins_def same_world_def intro: world_ok_steady)

lemma joins_farewell:
  assumes "world_ok sv"
  shows "ensures (farewell pf fd generation line sv) (joins sv)"
  unfolding ensures_iff
proof (intro allI impI)
  fix sv' assume f: "farewell pf fd generation line sv = Inr sv'"
  then obtain sv1 where "queue_response pf fd generation line sv = Inr sv1"
      and "sv' = update_session fd (s_close_after_flush_update (\<lambda>_. True)) sv1"
    by (auto simp: farewell_def bind_result_Inr_iff)
  then have "sv_world sv' = sv_world sv"
    using ensuresD [OF same_world_respond] by (auto simp: same_world_def update_session_def)
  with ensuresD [OF steady_farewell f] assms show "joins sv sv'"
    by (auto simp: joins_def intro: world_ok_steady)
qed


text \<open>A world operation that ends in a world the sessions can host, and the delivery of its events.\<close>

lemma world_operation:
  assumes "ensures r (\<lambda>(w, events). hosts sv w)"
  shows "ensures (bind_result r (\<lambda>(w, events). deliver_world_events pf events (sv\<lparr>sv_world := w\<rparr>))) (joins sv)"
proof (rule ensures_bind, rule ensures_mono [OF assms], clarify)
  fix w events assume "hosts sv w"
  from deliver_in_world [OF this] show "ensures (deliver_world_events pf events (sv\<lparr>sv_world := w\<rparr>)) (joins sv)"
    by (rule ensures_mono) (simp add: joins_def)
qed

lemma hosts_insert:
  assumes "world_ok sv" and "session_matches sv fd generation" and "world_inv w"
    and "dom (players w) \<subseteq> insert \<lparr>sr_fd = fd, sr_generation = generation\<rparr> (dom (players (sv_world sv)))"
  shows "hosts sv w"
  unfolding hosts_def
proof (intro conjI allI impI)
  fix ref assume "players w ref \<noteq> None"
  then have "ref = \<lparr>sr_fd = fd, sr_generation = generation\<rparr> \<or> players (sv_world sv) ref \<noteq> None"
    using assms(4) by (auto simp: dom_def)
  then show "session_matches sv (sr_fd ref) (sr_generation ref)"
    using assms(1,2) by (auto simp: world_ok_def)
qed (rule assms(3))

lemma joins_save:
  assumes "joins sv sv1"
  shows "joins sv (submit_position_save fd generation account character x y sv1)"
proof -
  have "same_world sv1 (submit_position_save fd generation account character x y sv1)"
    by (rule same_world.then_save [OF same_world_refl])
  with assms show ?thesis
    by (auto simp: joins_def same_world_def intro: steady_trans world_ok_steady)
qed

lemma lift_exn_Inr [simp]: "lift_exn r = Inr x \<longleftrightarrow> r = Inr x"
  by (cases r) auto

lemma ensures_lift_bind:
  "(\<And>x. r = Inr x \<Longrightarrow> ensures (f x) P) \<Longrightarrow> ensures (bind_result (lift_exn r) f) P"
  by (cases r) auto

lemma stoi_at_range: "bind_result (vector_at args i) stoi = Inr x \<Longrightarrow> in_i32 x"
  by (auto simp: bind_result_Inr_iff dest: stoi_range)

lemma joins_enter:
  assumes "world_ok sv" and "valid_order (pf_order pf)" and "session_matches sv fd generation"
  shows "ensures (handle_enter pf fd generation args sv) (joins sv)"
proof -
  let ?ref = "\<lparr>sr_fd = fd, sr_generation = generation\<rparr>"
  have step: "ensures (bind_result (world_enter (pf_order pf) (sv_world sv) ?ref account character x y)
      (\<lambda>(world, events). bind_result (deliver_world_events pf events (sv\<lparr>sv_world := world\<rparr>)) (\<lambda>sv1.
         Inr (submit_position_save fd generation account character x y sv1)))) (joins sv)"
    if "in_i32 x" "in_i32 y" for account character x y
  proof (rule ensures_bind, rule ensures_mono [OF ensures_world_enter], goal_cases)
    case (5 r)
    obtain w events where r: "r = (w, events)" by (cases r)
    with 5 have "hosts sv w" using assms by (intro hosts_insert) auto
    from deliver_in_world [OF this, of pf events]
    have "ensures (bind_result (deliver_world_events pf events (sv\<lparr>sv_world := w\<rparr>)) (\<lambda>sv1.
        Inr (submit_position_save fd generation account character x y sv1))) (joins sv)"
      by (intro ensures_bind, elim ensures_mono)
        (unfold ensures_Inr, rule joins_save, simp add: joins_def)
    then show ?case by (simp add: r)
  qed (use assms that in \<open>auto simp: world_ok_def\<close>)
  show ?thesis
    unfolding handle_enter_def
    by (intro ensures_lift_bind step) (auto dest: stoi_at_range)
qed

lemma joins_move:
  assumes "world_ok sv" and "valid_order (pf_order pf)" and "session_matches sv fd generation"
  shows "ensures (handle_move pf fd generation args sv) (joins sv)"
proof -
  let ?ref = "\<lparr>sr_fd = fd, sr_generation = generation\<rparr>"
  have "ensures (world_move (pf_order pf) (sv_world sv) ?ref x y) (\<lambda>(w, events). hosts sv w)"
    if "in_i32 x" "in_i32 y" for x y
    using ensures_world_move [OF _ assms(2) that, of "sv_world sv" ?ref] assms
    by (auto simp: world_ok_def elim!: ensures_mono intro!: hosts_insert)
  then show ?thesis
    unfolding handle_move_def
    by (intro ensures_lift_bind world_operation) (auto dest: stoi_at_range)
qed

lemma joins_attack:
  assumes "world_ok sv" and "valid_order (pf_order pf)"
  shows "ensures (handle_attack pf fd generation args sv) (joins sv)"
proof -
  have "ensures (world_attack (pf_order pf) (sv_world sv) ref skill target) (\<lambda>(w, events). hosts sv w)"
    for ref skill target
    using ensures_world_attack [OF _ assms(2), of "sv_world sv" ref skill target] assms(1)
    by (auto simp: world_ok_hosts hosts_def elim!: ensures_mono)
  then show ?thesis
    unfolding handle_attack_def by (intro ensures_lift_bind world_operation)
qed


lemma joins_quit:
  assumes "world_ok sv" and "valid_order (pf_order pf)"
  shows "ensures (handle_quit pf fd generation sv) (joins sv)"
  unfolding handle_quit_def
proof (rule ensures_bind, rule ensures_mono [OF leave_and_save_world [OF assms]], elim conjE)
  fix sv1 assume "world_ok sv1" "steady sv sv1"
  then show "ensures (farewell pf fd generation ''BYE'' sv1) (joins sv)"
    using joins_farewell by (blast intro: ensures_mono steady_trans [THEN joins_def [THEN iffD2, OF conjI]]
      dest: joins_def [THEN iffD1])
qed

lemma joins_database:
  assumes ok: "world_ok sv"
  shows "ensures (handle_database pf fd generation req sv) (joins sv)"
  unfolding handle_database_def Let_def
proof (intro ensures_lift_bind ensures_bind)
  fix operation
  let ?sv1 = "update_session fd (s_pending_db_update (\<lambda>n. n + 1))
    (sv\<lparr>sv_next_request_id := sv_next_request_id sv + 1\<rparr>)"
  have "steady sv ?sv1"
    using steady_trans [OF steady_request steady.pending] by blast
  moreover have "sv_world ?sv1 = sv_world sv" by (simp add: update_session_def)
  ultimately have j1: "joins sv ?sv1" using ok by (auto simp: joins_def intro: world_ok_steady)
  show "ensures (queue_response pf fd generation line ?sv1) (\<lambda>sv3. ensures (Inr (submit_job j sv3)) (joins sv))"
    for line j
  proof (rule ensures_mono [OF same_world_respond])
    fix sv3 assume "same_world ?sv1 sv3"
    then have "same_world ?sv1 (submit_job j sv3)" by (rule same_world.then_job)
    with j1 show "ensures (Inr (submit_job j sv3)) (joins sv)"
      by (auto simp: joins_def same_world_def intro: steady_trans world_ok_steady)
  qed
qed

lemma joins_line:
  assumes "world_ok sv" and "valid_order (pf_order pf)" and "session_matches sv fd generation"
  shows "ensures (handle_client_line pf fd generation line sv) (joins sv)"
  unfolding handle_client_line_def Let_def
  using assms
  by (simp add: joins_quit joins_enter joins_move joins_attack joins_database joins_respond
      split: command_type.split)


section \<open>The handlers\<close>

lemma world_ok_cong:
  "world_ok sv \<Longrightarrow> sv_sessions sv' = sv_sessions sv \<Longrightarrow> sv_world sv' = sv_world sv \<Longrightarrow> world_ok sv'"
  by (simp add: world_ok_def session_matches_def)

lemma world_ok_push: "world_ok sv \<Longrightarrow> ensures (push_sqe pf token sv) world_ok"
  by (auto simp: ensures_iff elim!: push_sqe_cases intro: world_ok_cong)

lemma world_ok_update:
  "world_ok sv \<Longrightarrow> (\<And>s. s_generation (f s) = s_generation s) \<Longrightarrow> world_ok (update_session fd f sv)"
  by (simp add: world_ok_def matches_update) (simp add: update_session_def)

lemma close_world:
  assumes ok: "world_ok sv" and ord: "valid_order (pf_order pf)" and run: "\<not> sv_stopping sv"
    and key: "\<And>s. sv_sessions sv fd = Some s \<Longrightarrow> s_fd s = fd"
  shows "ensures (close_session pf fd sv) world_ok"
proof (cases "sv_sessions sv fd")
  case None
  then show ?thesis using ok by (simp add: close_session_def)
next
  case (Some s)
  have "world_ok (sv1\<lparr>sv_closed := fds, sv_sessions := (sv_sessions sv1)(fd := None)\<rparr>)"
    if w: "world_ok sv1" and st: "steady sv sv1"
      and gone: "players (sv_world sv1) \<lparr>sr_fd = fd, sr_generation = s_generation s\<rparr> = None" for sv1 fds
    unfolding world_ok_def
  proof (intro conjI allI impI)
    fix ref assume "players (sv_world (sv1\<lparr>sv_closed := fds, sv_sessions := (sv_sessions sv1)(fd := None)\<rparr>)) ref \<noteq> None"
    then have here: "players (sv_world sv1) ref \<noteq> None" by simp
    then have m: "session_matches sv1 (sr_fd ref) (sr_generation ref)" using w by (simp add: world_ok_def)
    obtain s1 where s1: "sv_sessions sv1 fd = Some s1" "session_grows s s1"
      using st Some by (auto elim: steady_session)
    have "sr_fd ref \<noteq> fd"
    proof
      assume "sr_fd ref = fd"
      then have "ref = \<lparr>sr_fd = fd, sr_generation = s_generation s\<rparr>"
        using m s1 by (cases ref) (simp add: session_matches_def session_grows_def)
      with here gone show False by simp
    qed
    with m show "session_matches (sv1\<lparr>sv_closed := fds, sv_sessions := (sv_sessions sv1)(fd := None)\<rparr>)
        (sr_fd ref) (sr_generation ref)"
      by (simp add: session_matches_def)
  qed (use w in \<open>simp add: world_ok_def\<close>)
  then show ?thesis
    using Some run key [OF Some] leave_and_save_world [OF ok ord, of "s_fd s" "s_generation s"]
    by (auto simp: close_session_def ensures_iff bind_result_Inr_iff)
qed

lemma maybe_close_world:
  assumes "world_ok sv" and "valid_order (pf_order pf)" and "\<not> sv_stopping sv"
    and "\<And>s. sv_sessions sv fd = Some s \<Longrightarrow> s_fd s = fd"
  shows "ensures (maybe_close_after_flush pf fd sv) world_ok"
  using close_world [OF assms] assms(1) by (simp add: maybe_close_after_flush_def split: option.split)

lemma server_inv_key: "server_inv S R sv \<Longrightarrow> sv_sessions sv fd = Some s \<Longrightarrow> s_fd s = fd"
  by (simp add: server_inv_def session_ok_def)

lemma process_lines_world:
  assumes inv: "server_inv S (Some fd) sv" and ok: "world_ok sv" and ord: "valid_order (pf_order pf)"
    and matches: "session_matches sv fd generation"
  shows "ensures (process_lines pf fd generation sv) world_ok"
proof -
  let ?I = "\<lambda>sv'. server_inv S (Some fd) sv' \<and> world_ok sv'"
  have "ensures (process_lines pf fd generation sv) ?I"
  proof (rule process_lines_rule [OF _ _ _ _ matches])
    show "?I (update_session fd (s_input_update f) sv1)" if "?I sv1" for sv1 f
      using that tells_inv [OF tells_input, of S "Some fd" sv1] world_ok_update [of sv1 "s_input_update f" fd]
      by simp
    show "ensures (handle_client_line pf fd generation line sv1) ?I"
      if I: "?I sv1" and m: "session_matches sv1 fd generation" for sv1 line
      unfolding ensures_iff
    proof (intro allI impI)
      fix sv2 assume h: "handle_client_line pf fd generation line sv1 = Inr sv2"
      have "keeps S (Some fd) sv1 sv2" using ensuresD [OF keeps.client_line [OF m] h] .
      moreover have "joins sv1 sv2" using ensuresD [OF joins_line h] I ord m by blast
      ultimately show "?I sv2" using I unfolding keeps_def joins_def by blast
    qed
  qed (use inv ok in \<open>auto intro: server_inv_key\<close>)
  then show ?thesis by (rule ensures_mono) blast
qed


lemma on_recv_world:
  assumes inv: "server_inv {} None sv" and tok: "token \<in> set (ring_inflight (sv_ring sv))"
    and type: "t_type token = KRecv" and ok: "world_ok sv" and ord: "valid_order (pf_order pf)"
    and run: "\<not> sv_stopping sv"
  shows "ensures (on_recv pf token result data (take_token token sv)) world_ok"
proof -
  let ?fd = "t_fd token" and ?g = "t_generation token" and ?sv0 = "take_token token sv"
  have ok0: "world_ok ?sv0" using ok by (rule world_ok_cong) simp_all
  show ?thesis
  proof (cases "session_matches sv ?fd ?g \<and> 0 < result")
    case False
    have "ensures (close_session pf ?fd ?sv0) world_ok"
      by (rule close_world [OF ok0 ord]) (use inv run in \<open>auto intro: server_inv_key\<close>)
    with False ok0 show ?thesis by (auto simp: on_recv_def Let_def)
  next
    case True
    then have m0: "session_matches ?sv0 ?fd ?g" by simp
    have inv0: "server_inv {} (Some ?fd) ?sv0" using take_recv [OF inv tok type] True by blast
    let ?sv1 = "update_session ?fd (s_input_update (\<lambda>input. input @ data)) ?sv0"
    have t1: "tells {} (Some ?fd) {} (Some ?fd) ?sv0 ?sv1" by (rule tells_input)
    have inv1: "server_inv {} (Some ?fd) ?sv1" using t1 inv0 by (rule tells_inv)
    have ok1: "world_ok ?sv1" using ok0 by (rule world_ok_update) simp
    have m1: "session_matches ?sv1 ?fd ?g" using m0 by (simp add: matches_update)
    have last: "ensures (if \<not> is_closing sv3 ?fd then post_recv pf ?fd ?g sv3
        else maybe_close_after_flush pf ?fd sv3) world_ok"
      if "world_ok sv3" "server_inv {} (Some ?fd) sv3" "\<not> sv_stopping sv3" for sv3
      using that ord
      by (auto simp: post_recv_def intro: world_ok_push maybe_close_world server_inv_key)
    have long: "ensures (if too_long sv2 ?fd then farewell pf ?fd ?g ''ERR line too long'' sv2 else Inr sv2)
        (\<lambda>sv3. world_ok sv3 \<and> server_inv {} (Some ?fd) sv3 \<and> \<not> sv_stopping sv3)"
      if w: "world_ok sv2" and i: "server_inv {} (Some ?fd) sv2" and r: "\<not> sv_stopping sv2"
        and m: "session_matches sv2 ?fd ?g" for sv2
    proof -
      have "world_ok sv3 \<and> server_inv {} (Some ?fd) sv3 \<and> \<not> sv_stopping sv3"
        if f: "farewell pf ?fd ?g ''ERR line too long'' sv2 = Inr sv3" for sv3
        using ensuresD [OF joins_farewell [OF w] f] server_inv_farewell [OF f m i] r
        by (auto simp: joins_def steady_def evolves_def kept_def)
      then show ?thesis using that by (auto simp: ensures_iff)
    qed
    have lines: "ensures (process_lines pf ?fd ?g ?sv1) (\<lambda>sv2. world_ok sv2 \<and>
        server_inv {} (Some ?fd) sv2 \<and> \<not> sv_stopping sv2 \<and> session_matches sv2 ?fd ?g)"
      using ensures_conj [OF process_lines_world [OF inv1 ok1 ord m1] process_lines_ok [OF inv1 m1]]
    proof (rule ensures_mono, elim conjE, intro conjI)
      fix sv2 assume t: "tells {} (Some ?fd) {} (Some ?fd) ?sv1 sv2"
      show "server_inv {} (Some ?fd) sv2" using t inv1 by (rule tells_inv)
      show "\<not> sv_stopping sv2" using t run by (simp add: tells_def) (simp add: update_session_def)
    qed
    have eq: "on_recv pf token result data ?sv0 =
        bind_result (process_lines pf ?fd ?g ?sv1) (\<lambda>sv2.
          if \<not> session_matches sv2 ?fd ?g then Inr sv2
          else bind_result (if too_long sv2 ?fd
            then farewell pf ?fd ?g ''ERR line too long'' sv2 else Inr sv2) (\<lambda>sv3.
            if \<not> is_closing sv3 ?fd then post_recv pf ?fd ?g sv3
            else maybe_close_after_flush pf ?fd sv3))"
      using True by (simp add: on_recv_def Let_def)
    show ?thesis
      unfolding eq
    proof (rule ensures_bind, rule ensures_mono [OF lines], elim conjE)
      fix sv2 assume w: "world_ok sv2" "server_inv {} (Some ?fd) sv2" "\<not> sv_stopping sv2"
        and m: "session_matches sv2 ?fd ?g"
      have "ensures (bind_result (if too_long sv2 ?fd
            then farewell pf ?fd ?g ''ERR line too long'' sv2 else Inr sv2) (\<lambda>sv3.
            if \<not> is_closing sv3 ?fd then post_recv pf ?fd ?g sv3
            else maybe_close_after_flush pf ?fd sv3)) world_ok"
        by (rule ensures_bind, rule ensures_mono [OF long [OF w m]], elim conjE, rule last)
      with m show "ensures (if \<not> session_matches sv2 ?fd ?g then Inr sv2
          else bind_result (if too_long sv2 ?fd
            then farewell pf ?fd ?g ''ERR line too long'' sv2 else Inr sv2) (\<lambda>sv3.
            if \<not> is_closing sv3 ?fd then post_recv pf ?fd ?g sv3
            else maybe_close_after_flush pf ?fd sv3)) world_ok"
        by simp
    qed
  qed
qed

lemma on_send_world:
  assumes inv: "server_inv {} None sv" and tok: "token \<in> set (ring_inflight (sv_ring sv))"
    and type: "t_type token = KSend" and ok: "world_ok sv" and ord: "valid_order (pf_order pf)"
    and run: "\<not> sv_stopping sv"
  shows "ensures (on_send pf token result (take_token token sv)) world_ok"
proof (cases "session_matches sv (t_fd token) (t_generation token)")
  case False
  then show ?thesis using world_ok_cong [OF ok, of "take_token token sv"] by (simp add: on_send_def)
next
  case True
  then obtain s where s: "sv_sessions sv (t_fd token) = Some s" "s_generation s = t_generation token"
    by (rule matches_session)
  let ?fd = "t_fd token" and ?sv1 = "after_send token result sv"
  note facts = take_send_facts [OF inv tok type s(1) refl s(2) [symmetric]]
  have "[] \<notin> set (s_outbox s)" using inv s by (simp add: server_inv_def session_ok_def)
  then have inv1: "server_inv {?fd} None ?sv1"
    unfolding after_send_def Let_def s option.sel
    by (intro take_send [OF inv tok type s(1) s(2) [symmetric]]) (simp add: flush_front_nonempty)
  have ok1: "world_ok ?sv1"
    unfolding after_send_def sent_back_def Let_def
    by (rule world_ok_update) (simp_all add: world_ok_cong [OF ok])
  have run1: "\<not> sv_stopping ?sv1" using run by (simp add: after_send_accounts)
  have "ensures (post_send pf ?fd ?sv1)
      (\<lambda>sv2. world_ok sv2 \<and> server_inv {?fd} None sv2 \<and> \<not> sv_stopping sv2)"
    unfolding ensures_iff
  proof (intro allI impI)
    fix sv2 assume p: "post_send pf ?fd ?sv1 = Inr sv2"
    note posted = post_send_ok [OF p inv1]
    from p have "world_ok sv2"
    proof (cases rule: post_send_cases)
      case (posted s r)
      have "world_ok (update_session ?fd (s_write_in_flight_update (\<lambda>_. True)) ?sv1)"
        using ok1 by (rule world_ok_update) simp
      then show ?thesis
        by (rule world_ok_cong) (simp_all add: posted update_session_def)
    qed (use ok1 in simp_all)
    with posted run1 show "world_ok sv2 \<and> server_inv {?fd} None sv2 \<and> \<not> sv_stopping sv2" by simp
  qed
  then have "ensures (bind_result (post_send pf ?fd ?sv1) (maybe_close_after_flush pf ?fd)) world_ok"
    by (intro ensures_bind, elim ensures_mono)
      (auto intro: maybe_close_world [OF _ ord] server_inv_key)
  moreover have "ensures (close_session pf ?fd ?sv1) world_ok"
    using ok1 ord run1 by (rule close_world) (rule server_inv_key [OF inv1])
  ultimately show ?thesis unfolding on_send_eq [OF s facts(2)] by simp
qed


lemma add_session_world:
  assumes ok: "world_ok sv" and free: "sv_sessions sv fd = None"
  shows "world_ok (sv\<lparr>sv_next_session_generation := g, sv_sessions := (sv_sessions sv)(fd \<mapsto> s)\<rparr>)"
proof -
  have "session_matches (sv\<lparr>sv_next_session_generation := g, sv_sessions := (sv_sessions sv)(fd \<mapsto> s)\<rparr>)
      (sr_fd ref) (sr_generation ref)" if "session_matches sv (sr_fd ref) (sr_generation ref)" for ref
    using that free by (auto simp: session_matches_def)
  then show ?thesis using ok by (auto simp: world_ok_def)
qed

lemma open_session_world:
  assumes inv: "server_inv {} None sv" and ok: "world_ok sv" and free: "sv_sessions sv fd = None"
    and bound: "sv_next_session_generation sv \<noteq> - 1"
  shows "ensures (open_session pf fd sv) world_ok"
proof -
  let ?sv1 = "add_session (new_session\<lparr>s_fd := fd, s_generation := sv_next_session_generation sv\<rparr>)
    (sv\<lparr>sv_next_session_generation := sv_next_session_generation sv + 1\<rparr>)"
  have "world_ok ?sv1"
    unfolding add_session_ok(2) [OF inv free bound] by (rule add_session_world [OF ok free])
  then have "ensures (queue_response pf fd (sv_next_session_generation sv) hello_line ?sv1) (joins ?sv1)"
    by (rule joins_respond)
  then show ?thesis
    unfolding open_session_def Let_def
    by (intro ensures_bind, elim ensures_mono) (simp add: joins_def post_recv_def world_ok_push)
qed

lemma on_accept_world:
  assumes inv: "server_inv {} None sv" and ok: "world_ok sv"
    and outcome: "result < 0 \<or> sv_sessions sv result = None \<and> sv_next_session_generation sv \<noteq> - 1"
  shows "ensures (on_accept pf result sv) world_ok"
proof -
  have "world_ok (sv\<lparr>sv_log := l\<rparr>)" for l using ok by (rule world_ok_cong) simp_all
  then have "ensures (if 0 \<le> result then open_session pf result sv
       else if result \<noteq> - ECANCELED \<and> result \<noteq> - EINVAL
       then Inr (sv\<lparr>sv_log := sv_log sv @ [''accept failed: '' @ pf_strerror pf (- result)]\<rparr>)
       else Inr sv) world_ok"
    using outcome ok open_session_world [OF inv ok, of result pf] by auto
  then show ?thesis
    unfolding on_accept_def
    by (intro ensures_bind, elim ensures_mono) (simp add: post_accept_def world_ok_push)
qed

lemma on_completion_world:
  assumes inv: "server_inv {} None sv" and ok: "world_ok sv" and ord: "valid_order (pf_order pf)"
    and run: "\<not> sv_stopping sv"
  shows "ensures (on_completion pf completion sv) world_ok"
proof -
  have "ensures (bind_result (queue_response pf fd g line (update_session fd (s_pending_db_update f) sv))
      (maybe_close_after_flush pf fd)) world_ok" for fd g line f
  proof (rule ensures_bind, subst ensures_iff, intro allI impI)
    fix sv1
    let ?sv0 = "update_session fd (s_pending_db_update f) sv"
    assume q: "queue_response pf fd g line ?sv0 = Inr sv1"
    have k: "keeps {} None sv sv1" using keeps_trans [OF keeps_pending ensuresD [OF keeps_respond q]] .
    have "world_ok ?sv0" using ok by (rule world_ok_update) simp
    then have "world_ok sv1" using ensuresD [OF joins_respond q] by (simp add: joins_def)
    then show "ensures (maybe_close_after_flush pf fd sv1) world_ok"
      using ord by (rule maybe_close_world)
        (use k inv run in \<open>auto simp: keeps_def steady_def evolves_def kept_def intro: server_inv_key\<close>)
  qed
  moreover have "world_ok (sv\<lparr>sv_log := l\<rparr>)" for l using ok by (rule world_ok_cong) simp_all
  ultimately show ?thesis using ok by (auto simp: on_completion_def Let_def)
qed

lemma drain_completions_world:
  assumes "server_inv {} None sv" and "world_ok sv" and ord: "valid_order (pf_order pf)"
    and "\<not> sv_stopping sv"
  shows "ensures (drain_completions pf sv) world_ok"
  using assms(1,2,4)
proof (induction "length (dd_completions (sv_database sv))" arbitrary: sv rule: less_induct)
  case less
  obtain popped database where pop: "pop_completion (sv_database sv) = (popped, database)"
    by (cases "pop_completion (sv_database sv)") auto
  show ?case
  proof (cases popped)
    case None
    then show ?thesis using less.prems by (simp add: drain_completions.simps [of pf sv] pop)
  next
    case (Some completion)
    let ?sv0 = "sv\<lparr>sv_database := database\<rparr>"
    have inv0: "server_inv {} None ?sv0" using tells_database less.prems(1) by (rule tells_inv)
    have ok0: "world_ok ?sv0" using less.prems(2) by (rule world_ok_cong) simp_all
    have run0: "\<not> sv_stopping ?sv0" using less.prems(3) by simp
    have shorter: "length (dd_completions database) < length (dd_completions (sv_database sv))"
      using pop Some by (auto simp: pop_completion_def split: list.splits)
    have "ensures (drain_completions pf sv1) world_ok"
      if c: "on_completion pf completion ?sv0 = Inr sv1" for sv1
    proof (rule less.hyps)
      show "length (dd_completions (sv_database sv1)) < length (dd_completions (sv_database sv))"
        using ensuresD [OF on_completion_keeps c] shorter by simp
      have t: "tells {} None {} None ?sv0 sv1" using ensuresD [OF on_completion_ok c] .
      show "server_inv {} None sv1" using t inv0 by (rule tells_inv)
      show "\<not> sv_stopping sv1" using t run0 by (simp add: tells_def)
      show "world_ok sv1" using ensuresD [OF on_completion_world [OF inv0 ok0 ord run0] c] .
    qed
    then show ?thesis
      by (auto simp: drain_completions.simps [of pf sv] pop Some intro!: ensures_bind
          simp: ensures_iff [of "on_completion _ _ _"])
  qed
qed

lemma on_database_event_world:
  assumes "server_inv {} None sv" and "world_ok sv" and "valid_order (pf_order pf)"
    and "\<not> sv_stopping sv"
  shows "ensures (on_database_event pf sv) world_ok"
proof -
  let ?sv0 = "sv\<lparr>sv_database := event_read (sv_database sv)\<rparr>"
  have "ensures (drain_completions pf ?sv0) world_ok"
    by (rule drain_completions_world)
      (use assms tells_inv [OF tells_database] world_ok_cong [OF assms(2)] in auto)
  then show ?thesis
    unfolding on_database_event_def
    by (intro ensures_bind, elim ensures_mono) (simp add: post_eventfd_poll_def world_ok_push)
qed

section \<open>Every reachable state\<close>

definition server_ok :: "server \<Rightarrow> bool" where
  "server_ok sv \<longleftrightarrow> loop_inv sv \<and> world_ok sv"

lemma loop_step_ok:
  assumes "loop_step pf sv sv'" and "server_ok sv" and ord: "valid_order (pf_order pf)"
  shows "server_ok sv'"
proof -
  have inv: "loop_inv sv" "server_inv {} None sv" "\<not> sv_stopping sv" and ok: "world_ok sv"
    using assms(2) by (simp_all add: server_ok_def loop_inv_def)
  have ok0: "world_ok (take_token token sv)" for token
    using ok by (rule world_ok_cong) simp_all
  from assms(1) have "world_ok sv'"
  proof (cases rule: loop_step_cases)
    case (submitted n)
    then show ?thesis using ok by (auto intro: world_ok_cong)
  next
    case (accepted token result)
    have "server_inv {} None (take_token token sv)"
      using accepted(2) by (intro take_other [OF inv(2) accepted(1)]) auto
    then show ?thesis using ensuresD [OF on_accept_world accepted(4)] ok0 accepted(3) by simp
  next
    case (received token result data)
    then show ?thesis using ensuresD [OF on_recv_world [OF inv(2) _ _ ok ord inv(3)]] by blast
  next
    case (sent token result)
    then show ?thesis using ensuresD [OF on_send_world [OF inv(2) _ _ ok ord inv(3)]] by blast
  next
    case (database token)
    have "server_inv {} None (take_token token sv)"
      using database(2) by (intro take_other [OF inv(2) database(1)]) auto
    then show ?thesis using ensuresD [OF on_database_event_world [OF _ ok0 ord] database(3)] inv(3) by simp
  qed
  then show ?thesis using loop_step_inv [OF assms(1) inv(1)] by (simp add: server_ok_def)
qed

lemma loop_steps_ok:
  assumes "(loop_step pf)\<^sup>*\<^sup>* sv sv'" and "server_ok sv" and "valid_order (pf_order pf)"
  shows "server_ok sv'"
  using assms(1) by (induction rule: rtranclp_induct) (auto intro: assms(2,3) loop_step_ok)

lemma run_begin_ok:
  assumes "run_begin pf listen_fd entries (server_new config database world) = Inr sv"
    and "world_inv world" and "players world = Map.empty"
  shows "server_ok sv"
  using run_begin_inv [OF assms(1)] assms(2,3) by (simp add: server_ok_def world_ok_def)

lemma server_ok_database: "server_ok (sv\<lparr>sv_database := d\<rparr>) = server_ok sv"
proof -
  have "server_inv {} None (sv\<lparr>sv_database := d\<rparr>) = server_inv {} None sv"
    by (rule server_inv_cong) simp_all
  then show ?thesis
    by (simp add: server_ok_def loop_inv_def loop_tokens_def world_ok_def session_matches_def)
qed

end
