(* ===== verification/Session_Streams.thy ===== *)
theory Session_Streams
  imports Server_World
begin

text \<open>
  What a run of the loop does to one session: identities are never used again, the bytes of the
  outbox reach the kernel in order and once, and the input buffer stays bounded. A run is a
  \<open>loop_run\<close>, which records the completions handled; between the steps of the loop the workers change
  the dispatcher, in any way.
\<close>

type_synonym completion_event = "completion_token \<times> int \<times> string"

inductive loop_run :: "platform \<Rightarrow> server \<Rightarrow> completion_event list \<Rightarrow> server \<Rightarrow> bool" for pf sv where
  start: "loop_run pf sv [] sv"
| submit: "loop_run pf sv trace sv1 \<Longrightarrow>
    loop_run pf sv trace (sv1\<lparr>sv_ring := kernel_takes n (sv_ring sv1)\<rparr>)"
| work: "loop_run pf sv trace sv1 \<Longrightarrow> loop_run pf sv trace (sv1\<lparr>sv_database := database\<rparr>)"
| complete: "loop_run pf sv trace sv1 \<Longrightarrow> token \<in> set (ring_inflight (sv_ring sv1)) \<Longrightarrow>
    outcome_ok sv1 token result data \<Longrightarrow>
    dispatch pf token result data (take_token token sv1) = Inr sv2 \<Longrightarrow>
    loop_run pf sv (trace @ [(token, result, data)]) sv2"

lemma loop_run_ok:
  assumes "loop_run pf sv trace sv'" and "server_ok sv" and ord: "valid_order (pf_order pf)"
  shows "server_ok sv'"
  using assms(1)
proof induction
  case (submit trace sv1 n)
  then show ?case using loop_step_ok [OF loop_step.submitted _ ord] by blast
next
  case (complete trace sv1 token result data sv2)
  then show ?case using loop_step_ok [OF loop_step.completed _ ord] by blast
qed (simp_all add: assms(2) server_ok_database)

text \<open>The bytes the kernel reported as sent for one session.\<close>

definition sent_of :: "int \<Rightarrow> 64 word \<Rightarrow> completion_event \<Rightarrow> string" where
  "sent_of fd generation event = (case event of (token, result, _) \<Rightarrow>
     if t_type token = KSend \<and> t_fd token = fd \<and> t_generation token = generation
     then take (nat result) (t_payload token) else [])"

definition sent_bytes :: "int \<Rightarrow> 64 word \<Rightarrow> completion_event list \<Rightarrow> string" where
  "sent_bytes fd generation trace = concat (map (sent_of fd generation) trace)"

lemma sent_bytes_simps [simp]:
  "sent_bytes fd generation [] = []"
  "sent_bytes fd generation (trace @ [event]) = sent_bytes fd generation trace @ sent_of fd generation event"
  by (simp_all add: sent_bytes_def)

section \<open>Generations are not used again\<close>

text \<open>Handlers other than accept keep the next generation, and every surviving session its own.\<close>

lemma session_matches_iff:
  "session_matches sv fd g \<longleftrightarrow> (\<exists>s. sv_sessions sv fd = Some s \<and> s_generation s = g)"
  by (auto simp: session_matches_def split: option.splits)

lemma talks_matches: "talks sv sv' \<Longrightarrow> session_matches sv' fd g \<Longrightarrow> session_matches sv fd g"
  unfolding talks_def session_matches_iff by metis

lemma welcomes_matches:
  "welcomes new sv sv' \<Longrightarrow> fd \<noteq> new \<Longrightarrow> session_matches sv' fd g \<Longrightarrow> session_matches sv fd g"
  unfolding welcomes_def session_matches_iff by metis

lemma after_send_matches [simp]:
  "session_matches (after_send token result sv) fd g = session_matches sv fd g"
  unfolding after_send_def sent_back_def Let_def by (subst matches_update) simp_all

lemma accepted_generation:
  assumes "on_accept pf result sv = Inr sv'" and inv: "server_inv {} None sv"
    and outcome: "result < 0 \<or> sv_sessions sv result = None \<and> sv_next_session_generation sv \<noteq> - 1"
  shows "sv_next_session_generation sv \<le> sv_next_session_generation sv'"
proof (cases "0 \<le> result")
  case True
  then have "sv_next_session_generation sv \<noteq> - 1" using outcome by simp
  then have "1 + sv_next_session_generation sv \<noteq> 0"
    using max_word_wrap [of "sv_next_session_generation sv"] by (auto simp: add.commute)
  then have "sv_next_session_generation sv \<le> sv_next_session_generation sv + 1"
    using unatSuc [of "sv_next_session_generation sv"] by (simp add: word_le_nat_alt add.commute)
  then show ?thesis using ensuresD [OF on_accept_ok [OF inv outcome] assms(1)] True by simp
next
  case False
  then show ?thesis using ensuresD [OF on_accept_ok [OF inv outcome] assms(1)] by simp
qed

text \<open>A new session has the next generation.\<close>

lemma accepted_matches:
  assumes a: "on_accept pf result sv = Inr sv'" and inv: "server_inv {} None sv"
    and outcome: "result < 0 \<or> sv_sessions sv result = None \<and> sv_next_session_generation sv \<noteq> - 1"
    and m: "session_matches sv' fd g"
  shows "session_matches sv fd g \<or> g = sv_next_session_generation sv"
proof (cases "0 \<le> result \<and> fd = result")
  case False
  show ?thesis
  proof (cases "0 \<le> result")
    case True
    then show ?thesis
      using False welcomes_matches m ensuresD [OF on_accept_ok [OF inv outcome] a] by blast
  next
    case neg: False
    have "sv_sessions sv' = sv_sessions sv"
      using a neg
      by (auto simp: on_accept_def bind_result_Inr_iff post_accept_def elim!: push_sqe_cases
          split: if_splits)
    then show ?thesis using m by (simp add: session_matches_def)
  qed
next
  case True
  then have free: "sv_sessions sv fd = None" "sv_next_session_generation sv \<noteq> - 1" using outcome by auto
  let ?sv1 = "add_session (new_session\<lparr>s_fd := fd, s_generation := sv_next_session_generation sv\<rparr>)
    (sv\<lparr>sv_next_session_generation := sv_next_session_generation sv + 1\<rparr>)"
  from a True obtain sv2 where
      q: "queue_response pf fd (sv_next_session_generation sv) hello_line ?sv1 = Inr sv2"
    and sv': "sv_sessions sv' = sv_sessions sv2"
    by (auto simp: on_accept_def open_session_def Let_def bind_result_Inr_iff post_recv_def
        post_accept_def elim!: push_sqe_cases split: if_splits)
  have "talks ?sv1 sv2" using ensuresD [OF steady_respond q] by (simp add: steady_def evolves_talks)
  moreover have "session_matches sv2 fd g" using m sv' by (simp add: session_matches_def)
  ultimately have "session_matches ?sv1 fd g" by (rule talks_matches)
  then show ?thesis unfolding add_session_ok(2) [OF inv free] by (simp add: session_matches_def)
qed

lemma step_identity:
  assumes step: "loop_step pf sv sv'" and inv: "loop_inv sv"
  shows "sv_next_session_generation sv \<le> sv_next_session_generation sv'"
    and "session_matches sv' fd g \<Longrightarrow> session_matches sv fd g \<or> g = sv_next_session_generation sv"
proof -
  have si: "server_inv {} None sv" using inv by (simp add: loop_inv_def)
  have "sv_next_session_generation sv \<le> sv_next_session_generation sv' \<and>
      (session_matches sv' fd g \<longrightarrow> session_matches sv fd g \<or> g = sv_next_session_generation sv)"
    using step
  proof (cases rule: loop_step_cases)
    case (submitted n)
    then show ?thesis by (simp add: session_matches_def)
  next
    case (accepted token result)
    have i0: "server_inv {} None (take_token token sv)"
      using accepted(2) by (intro take_other [OF si accepted(1)]) auto
    have o0: "result < 0 \<or> sv_sessions (take_token token sv) result = None \<and>
        sv_next_session_generation (take_token token sv) \<noteq> - 1"
      using accepted(3) by simp
    show ?thesis
      using accepted_generation [OF accepted(4) i0 o0] accepted_matches [OF accepted(4) i0 o0, of fd g]
      by simp
  next
    case (received token result data)
    have "handled (take_token token sv) sv'" using ensuresD [OF on_recv_ok [OF si received(1,2)] received(5)] .
    then show ?thesis using talks_matches [of "take_token token sv" sv' fd g] by (simp add: handled_def)
  next
    case (sent token result)
    show ?thesis
      using ensuresD [OF on_send_ok [OF si sent(1,2)] sent(4)]
        talks_matches [of "take_token token sv" sv' fd g]
        talks_matches [of "after_send token result sv" sv' fd g]
      by (auto simp: handled_def after_send_accounts split: if_splits)
  next
    case (database token)
    have "server_inv {} None (take_token token sv)"
      using database(2) by (intro take_other [OF si database(1)]) auto
    then show ?thesis
      using ensuresD [OF on_database_event_ok database(3)] talks_matches [of "take_token token sv" sv' fd g]
      by simp
  qed
  then show "sv_next_session_generation sv \<le> sv_next_session_generation sv'"
    "session_matches sv' fd g \<Longrightarrow> session_matches sv fd g \<or> g = sv_next_session_generation sv" by auto
qed

lemma run_identity:
  assumes "loop_run pf sv trace sv'" and ok: "server_ok sv" and ord: "valid_order (pf_order pf)"
    and old: "g < sv_next_session_generation sv"
  shows "g < sv_next_session_generation sv'"
    and "session_matches sv' fd g \<Longrightarrow> session_matches sv fd g"
proof -
  have "g < sv_next_session_generation sv' \<and> (session_matches sv' fd g \<longrightarrow> session_matches sv fd g)"
    using assms(1)
  proof induction
    case (complete trace sv1 token result data sv2)
    have "loop_inv sv1" using loop_run_ok [OF complete(1) ok ord] by (simp add: server_ok_def)
    moreover have "loop_step pf sv1 sv2" using complete.hyps by (blast intro: loop_step.completed)
    ultimately show ?case using step_identity complete.IH by (metis order_less_le_trans less_irrefl)
  qed (use old in \<open>simp_all add: session_matches_def\<close>)
  then show "g < sv_next_session_generation sv'"
    "session_matches sv' fd g \<Longrightarrow> session_matches sv fd g" by auto
qed

section \<open>The bytes of a session\<close>

lemma flush_front_bytes:
  "outbox \<noteq> [] \<Longrightarrow> concat outbox = take n (hd outbox) @ concat (flush_front n outbox)"
  by (cases outbox) (auto simp: flush_front_def)

lemma sent_of_other: "t_type token \<noteq> KSend \<Longrightarrow> sent_of fd g (token, result, data) = []"
  by (simp add: sent_of_def)

lemma talks_stream:
  assumes "talks sv sv'" and "sv_sessions sv fd = Some s" and "sv_sessions sv' fd = Some s'"
  shows "\<exists>rest. concat (s_outbox s) @ rest = concat (s_outbox s')"
proof -
  obtain lines where "s_outbox s' = s_outbox s @ lines"
    using assms unfolding talks_def by fastforce
  then show ?thesis by simp
qed

lemma send_stream:
  assumes inv: "loop_inv sv" and tok: "token \<in> set (ring_inflight (sv_ring sv))"
    and type: "t_type token = KSend" and handled: "on_send pf token result (take_token token sv) = Inr sv'"
    and s: "sv_sessions sv fd = Some s" and s': "sv_sessions sv' fd = Some s'"
  shows "\<exists>rest. concat (s_outbox s) @ rest =
    sent_of fd (s_generation s) (token, result, data) @ concat (s_outbox s')"
proof -
  have si: "server_inv {} None sv" using inv by (simp add: loop_inv_def)
  note h = ensuresD [OF on_send_ok [OF si tok type] handled]
  show ?thesis
  proof (cases "session_matches sv (t_fd token) (t_generation token)")
    case False
    then have "talks (take_token token sv) sv'" using h by (simp add: handled_def)
    moreover have "sent_of fd (s_generation s) (token, result, data) = []"
      using False s by (auto simp: sent_of_def session_matches_def)
    ultimately show ?thesis using talks_stream [of "take_token token sv" sv' fd s s'] s s' by simp
  next
    case True
    then have t: "talks (after_send token result sv) sv'" using h by (simp add: handled_def)
    show ?thesis
    proof (cases "fd = t_fd token")
      case False
      then have "sv_sessions (after_send token result sv) fd = Some s"
        using s by (simp add: after_send_def sent_back_def update_session_def)
      then show ?thesis using talks_stream [OF t _ s'] False by (simp add: sent_of_def)
    next
      case fd: True
      have gen: "t_generation token = s_generation s"
        using True s fd by (simp add: session_matches_def)
      note facts = take_send_facts [OF si tok type s fd [symmetric] gen]
      let ?out = "if result \<le> 0 then s_outbox s else flush_front (nat result) (s_outbox s)"
      have "sv_sessions (after_send token result sv) fd =
          Some (s\<lparr>s_write_in_flight := False, s_outbox := ?out\<rparr>)"
        using s fd by (simp add: after_send_def sent_back_def update_session_def Let_def)
      then obtain rest where "concat ?out @ rest = concat (s_outbox s')"
        using talks_stream [OF t _ s'] by fastforce
      moreover have "concat (s_outbox s) =
          sent_of fd (s_generation s) (token, result, data) @ concat ?out"
        using flush_front_bytes [OF facts(2), of "nat result"] type gen fd
          arg_cong [OF facts(3), of t_payload]
        by (simp add: sent_of_def)
      ultimately show ?thesis by (intro exI [of _ rest]) (metis append.assoc)
    qed
  qed
qed

lemma complete_stream:
  assumes inv: "loop_inv sv" and tok: "token \<in> set (ring_inflight (sv_ring sv))"
    and outcome: "outcome_ok sv token result data"
    and handled: "dispatch pf token result data (take_token token sv) = Inr sv'"
    and s: "sv_sessions sv fd = Some s" and s': "sv_sessions sv' fd = Some s'"
  shows "\<exists>rest. concat (s_outbox s) @ rest =
    sent_of fd (s_generation s) (token, result, data) @ concat (s_outbox s')"
proof (cases "t_type token = KSend")
  case True
  then show ?thesis using send_stream [OF inv tok True _ s s'] handled by (simp add: dispatch_def)
next
  case False
  let ?sv0 = "take_token token sv"
  have si: "server_inv {} None sv" using inv by (simp add: loop_inv_def)
  have talking: "\<exists>rest. concat (s_outbox s) @ rest = concat (s_outbox s')" if "talks ?sv0 sv'"
    using talks_stream [OF that _ s'] s by simp
  have "\<exists>rest. concat (s_outbox s) @ rest = concat (s_outbox s')"
  proof (cases "t_type token")
    case KAccept
    have "server_inv {} None ?sv0" using KAccept by (intro take_other [OF si tok]) auto
    moreover have o0: "result < 0 \<or> sv_sessions ?sv0 result = None \<and> sv_next_session_generation ?sv0 \<noteq> - 1"
      using outcome KAccept by (simp add: outcome_ok_def)
    moreover have "on_accept pf result ?sv0 = Inr sv'" using handled KAccept by (simp add: dispatch_def)
    ultimately have w: "welcomes result ?sv0 sv'" using ensuresD [OF on_accept_ok] by blast
    have "fd \<noteq> result \<or> result < 0" using o0 s by auto
    show ?thesis
    proof (cases "fd = result")
      case False
      then obtain lines where "s_outbox s' = s_outbox s @ lines"
        using w s s' unfolding welcomes_def by fastforce
      then show ?thesis by simp
    next
      case True
      then have "result < 0" using o0 s by auto
      then have "sv_sessions sv' = sv_sessions ?sv0"
        using handled KAccept
        by (auto simp: dispatch_def on_accept_def bind_result_Inr_iff post_accept_def
            elim!: push_sqe_cases split: if_splits)
      then show ?thesis using s s' by simp
    qed
  next
    case KRecv
    then show ?thesis
      using ensuresD [OF on_recv_ok [OF si tok KRecv]] handled talking
      by (auto simp: dispatch_def handled_def)
  next
    case KDatabaseEvent
    have "server_inv {} None ?sv0" using KDatabaseEvent by (intro take_other [OF si tok]) auto
    then show ?thesis
      using ensuresD [OF on_database_event_ok] handled KDatabaseEvent talking
      by (auto simp: dispatch_def)
  qed (use False in simp)
  then show ?thesis using False by (simp add: sent_of_other)
qed

lemma run_stream:
  assumes "loop_run pf sv trace sv'" and ok: "server_ok sv" and ord: "valid_order (pf_order pf)"
    and s: "sv_sessions sv fd = Some s" and "sv_sessions sv' fd = Some s'"
    and "s_generation s' = s_generation s"
  shows "\<exists>rest. concat (s_outbox s) @ rest = sent_bytes fd (s_generation s) trace @ concat (s_outbox s')"
  using assms(1,5,6)
proof (induction arbitrary: s' rule: loop_run.induct)
  case start
  then show ?case using s by simp
next
  case (submit trace sv1 n)
  then show ?case by simp
next
  case (work trace sv1 database)
  then show ?case by simp
next
  case (complete trace sv1 token result data sv2)
  let ?g = "s_generation s"
  have ok1: "server_ok sv1" using loop_run_ok [OF complete(1) ok ord] .
  then have inv1: "loop_inv sv1" by (simp add: server_ok_def)
  have step: "loop_step pf sv1 sv2"
    using complete.hyps by (intro loop_step.completed) auto
  have "?g < sv_next_session_generation sv"
    using ok s by (simp add: server_ok_def loop_inv_def server_inv_def session_ok_def)
  then have old1: "?g < sv_next_session_generation sv1" by (rule run_identity(1) [OF complete(1) ok ord])
  have "session_matches sv2 fd ?g" using complete.prems by (simp add: session_matches_def)
  then have alive: "session_matches sv1 fd ?g" using step_identity(2) [OF step inv1, of fd ?g] old1 by auto
  then obtain s1 where s1: "sv_sessions sv1 fd = Some s1" "s_generation s1 = ?g" by (rule matches_session)
  obtain r1 where r1: "concat (s_outbox s) @ r1 = sent_bytes fd ?g trace @ concat (s_outbox s1)"
    using complete.IH [OF s1] by blast
  obtain r2 where r2: "concat (s_outbox s1) @ r2 = sent_of fd ?g (token, result, data) @ concat (s_outbox s')"
    using complete_stream [OF inv1 complete(2,3,4) s1(1) complete.prems(1)] s1(2) by auto
  show ?case
    by (rule exI [of _ "r1 @ r2"]) (metis (no_types) append.assoc r1 r2 sent_bytes_simps(2))
qed

end
