(* ===== verification/Session_Input.thy ===== *)
theory Session_Input
  imports Session_Streams
begin

text \<open>
  The input buffers. Between two completions, the buffer of a session that still receives holds no
  complete line and at most \<open>max_line_size\<close> bytes: \<open>on_recv\<close> handles every complete line and
  turns a longer remainder into a farewell.
\<close>

definition input_ok :: "server \<Rightarrow> int \<Rightarrow> bool" where
  "input_ok sv fd \<longleftrightarrow> (\<forall>s. sv_sessions sv fd = Some s \<longrightarrow> \<not> s_close_after_flush s \<longrightarrow>
     length (s_input s) \<le> cfg_max_line_size (sv_config sv) \<and> CHR 0x0A \<notin> set (s_input s))"

text \<open>\<open>listens F\<close>: outside the descriptors \<open>F\<close>, sessions keep their input and stay closing.\<close>

definition listens :: "int set \<Rightarrow> server \<Rightarrow> server \<Rightarrow> bool" where
  "listens F sv sv' \<longleftrightarrow> sv_config sv' = sv_config sv \<and>
     (\<forall>fd s'. fd \<notin> F \<longrightarrow> sv_sessions sv' fd = Some s' \<longrightarrow>
        (\<exists>s. sv_sessions sv fd = Some s \<and> s_input s' = s_input s \<and>
           (s_close_after_flush s \<longrightarrow> s_close_after_flush s')))"

lemma listens_refl [simp]: "listens F sv sv"
  by (simp add: listens_def)

lemma listens_trans:
  assumes "listens F sv sv1" and "listens F sv1 sv2"
  shows "listens F sv sv2"
  unfolding listens_def
proof (intro conjI allI impI)
  fix fd s2 assume "fd \<notin> F" "sv_sessions sv2 fd = Some s2"
  then obtain s1 where 1: "sv_sessions sv1 fd = Some s1" "s_input s2 = s_input s1"
      "s_close_after_flush s1 \<longrightarrow> s_close_after_flush s2"
    using assms(2) unfolding listens_def by blast
  then obtain s where "sv_sessions sv fd = Some s" "s_input s1 = s_input s"
      "s_close_after_flush s \<longrightarrow> s_close_after_flush s1"
    using assms(1) \<open>fd \<notin> F\<close> unfolding listens_def by blast
  with 1 show "\<exists>s. sv_sessions sv fd = Some s \<and> s_input s2 = s_input s \<and>
      (s_close_after_flush s \<longrightarrow> s_close_after_flush s2)" by auto
qed (use assms in \<open>simp add: listens_def\<close>)

lemma evolves_listens: "evolves sv sv' \<Longrightarrow> listens F sv sv'"
  unfolding evolves_def kept_def listens_def session_grows_def by blast

lemma listens_update:
  "(\<And>s. s_input (f s) = s_input s) \<Longrightarrow> (\<And>s. s_close_after_flush (f s) = s_close_after_flush s) \<Longrightarrow>
   listens F sv (update_session fd f sv)"
  by (auto simp: listens_def update_session_def split: if_splits)

lemma listens_cong:
  "sv_sessions sv' = sv_sessions sv \<Longrightarrow> sv_config sv' = sv_config sv \<Longrightarrow> listens F sv sv'"
  by (simp add: listens_def)

lemma listens_push: "ensures (push_sqe pf token sv) (listens F sv)"
  by (auto simp: ensures_iff elim!: push_sqe_cases intro!: listens_cong)

lemma listens_bind:
  "ensures r (listens F sv) \<Longrightarrow> (\<And>sv1. ensures (f sv1) (listens F sv1)) \<Longrightarrow>
   ensures (bind_result r f) (listens F sv)"
  by (cases r) (auto simp: ensures_iff intro: listens_trans)

lemma listens_ops:
  "ensures (queue_response pf fd g line sv) (listens F sv)"
  "ensures (farewell pf fd g line sv) (listens F sv)"
  "ensures (handle_client_line pf fd g line sv) (listens F sv)"
  "ensures (close_session pf fd sv) (listens F sv)"
  "ensures (maybe_close_after_flush pf fd sv) (listens F sv)"
proof -
  have st: "ensures r (listens F sv)" if "ensures r (steady sv)" for r
    using that by (rule ensures_mono) (simp add: steady_def evolves_listens)
  have ev: "ensures r (listens F sv)" if "ensures r (evolves sv)" for r
    using that by (rule ensures_mono) (rule evolves_listens)
  show "ensures (queue_response pf fd g line sv) (listens F sv)" by (rule st [OF steady_respond])
  show "ensures (farewell pf fd g line sv) (listens F sv)" by (rule st [OF steady_farewell])
  show "ensures (handle_client_line pf fd g line sv) (listens F sv)"
    by (rule st [OF steady.client_line]) simp
  show "ensures (close_session pf fd sv) (listens F sv)" by (rule ev [OF evolves.close])
  show "ensures (maybe_close_after_flush pf fd sv) (listens F sv)" by (rule ev [OF evolves.maybe_close])
qed

lemma listens_post_send: "ensures (post_send pf fd sv) (listens F sv)"
  unfolding ensures_iff
proof (intro allI impI)
  fix sv' assume "post_send pf fd sv = Inr sv'"
  then show "listens F sv sv'" by (cases rule: post_send_cases) (auto simp: listens_def)
qed

lemma listens_input_ok:
  assumes "listens F sv sv'" and "fd \<notin> F" and "input_ok sv fd"
  shows "input_ok sv' fd"
  unfolding input_ok_def
proof (intro allI impI)
  fix s' assume s': "sv_sessions sv' fd = Some s'" and open_s: "\<not> s_close_after_flush s'"
  obtain s where s: "sv_sessions sv fd = Some s" "s_input s' = s_input s"
      "s_close_after_flush s \<longrightarrow> s_close_after_flush s'" and config: "sv_config sv' = sv_config sv"
    using assms(1,2) s' unfolding listens_def by blast
  then show "length (s_input s') \<le> cfg_max_line_size (sv_config sv') \<and> CHR 0x0A \<notin> set (s_input s')"
    using assms(3) open_s by (auto simp: input_ok_def)
qed

section \<open>The loop over the lines\<close>

lemma dropWhile_until_Nil: "dropWhile (\<lambda>y. y \<noteq> x) ys = [] \<longleftrightarrow> x \<notin> set ys"
  by (induction ys) auto

lemma take_line_None: "take_line input = None \<longleftrightarrow> CHR 0x0A \<notin> set input"
  unfolding dropWhile_until_Nil [symmetric] take_line_def
  by (cases "dropWhile (\<lambda>c. c \<noteq> CHR 0x0A) input") (simp_all only: list.case option.distinct list.distinct simp_thms)

lemma process_lines_listens:
  assumes "server_inv S (Some fd) sv" and "session_matches sv fd g"
  shows "ensures (process_lines pf fd g sv) (listens {fd} sv)"
proof -
  let ?I = "\<lambda>sv'. listens {fd} sv sv' \<and> server_inv S (Some fd) sv'"
  have "ensures (process_lines pf fd g sv) ?I"
  proof (rule process_lines_rule [OF _ _ _ _ assms(2)])
    fix sv1 f assume I: "?I sv1"
    have "listens {fd} sv1 (update_session fd (s_input_update f) sv1)"
      by (simp add: listens_def update_session_def)
    with I show "?I (update_session fd (s_input_update f) sv1)"
      using listens_trans tells_inv [OF tells_input] by blast
  next
    fix sv1 line assume I: "?I sv1" and m: "session_matches sv1 fd g"
    show "ensures (handle_client_line pf fd g line sv1) ?I"
      using ensures_conj [OF listens_ops(3) keeps.client_line [OF m]]
    proof (rule ensures_mono)
      fix sv2 assume "listens {fd} sv1 sv2 \<and> keeps S (Some fd) sv1 sv2"
      then show "?I sv2" using I listens_trans unfolding keeps_def by blast
    qed
  qed (use assms(1) in \<open>auto intro: server_inv_key\<close>)
  then show ?thesis by (rule ensures_mono) blast
qed

text \<open>When the loop ends, no complete line is left, or the session closes.\<close>

lemma process_lines_done:
  "ensures (process_lines pf fd g sv) (\<lambda>sv'. session_matches sv' fd g \<longrightarrow>
     is_closing sv' fd \<or> (\<exists>s. sv_sessions sv' fd = Some s \<and> take_line (s_input s) = None))"
proof (induction pf fd g sv rule: process_lines.induct)
  case (1 pf fd g sv)
  show ?case
  proof (cases "sv_sessions sv fd")
    case None
    then have "process_lines pf fd g sv = Inr sv"
      by (simp add: process_lines.simps [of pf fd g sv])
    with None show ?thesis by (simp add: session_matches_def)
  next
    case (Some s)
    show ?thesis
    proof (cases "take_line (s_input s)")
      case None
      then have "process_lines pf fd g sv = Inr sv"
        by (simp add: process_lines.simps [of pf fd g sv] Some)
      with None Some show ?thesis by simp
    next
      case line: (Some pair)
      obtain l rest where pair: "pair = (l, rest)" by (cases pair)
      let ?sv0 = "update_session fd (s_input_update (\<lambda>_. rest)) sv"
      have eq: "process_lines pf fd g sv =
          bind_result (handle_client_line pf (s_fd s) (s_generation s) l ?sv0) (\<lambda>sv1.
            if \<not> session_matches sv1 fd g \<or> is_closing sv1 fd then Inr sv1
            else process_lines pf fd g sv1)"
        unfolding process_lines.simps [of pf fd g sv] Some option.case line pair prod.case ..
      show ?thesis
        unfolding eq
      proof (rule ensures_bind, subst ensures_iff, intro allI impI)
        fix sv1 assume h: "handle_client_line pf (s_fd s) (s_generation s) l ?sv0 = Inr sv1"
        note IH = "1.IH" [OF Some line pair [symmetric] h]
        show "ensures (if \<not> session_matches sv1 fd g \<or> is_closing sv1 fd then Inr sv1
            else process_lines pf fd g sv1) (\<lambda>sv'. session_matches sv' fd g \<longrightarrow>
              is_closing sv' fd \<or> (\<exists>s. sv_sessions sv' fd = Some s \<and> take_line (s_input s) = None))"
          using IH by auto
      qed
    qed
  qed
qed

section \<open>The handlers\<close>

definition inputs_ok :: "server \<Rightarrow> bool" where
  "inputs_ok sv \<longleftrightarrow> (\<forall>fd. input_ok sv fd)"

lemma listens_inputs_ok: "listens {} sv sv' \<Longrightarrow> inputs_ok sv \<Longrightarrow> inputs_ok sv'"
  using listens_input_ok [of "{}" sv sv'] by (auto simp: inputs_ok_def)

lemma listens_take [simp]: "listens F sv (take_token token sv)"
  by (rule listens_cong) simp_all

lemma farewell_closing:
  assumes "farewell pf fd generation line sv = Inr sv'" and "session_matches sv fd generation"
  shows "is_closing sv' fd"
  using assms by (cases rule: farewell_cases) (simp add: is_closing_iff)

lemma closing_input_ok: "is_closing sv fd \<Longrightarrow> input_ok sv fd"
  by (auto simp: input_ok_def is_closing_iff)

lemma short_input_ok:
  assumes "sv_sessions sv fd = Some s" and "take_line (s_input s) = None" and "\<not> too_long sv fd"
  shows "input_ok sv fd"
  using assms by (simp add: input_ok_def take_line_None too_long_def input_length_def)

text \<open>The last two steps of \<open>on_recv\<close>, from the state after the loop over the lines.\<close>

lemma after_lines_input:
  assumes matches: "session_matches sv2 fd g"
    and fin: "is_closing sv2 fd \<or> (\<exists>s. sv_sessions sv2 fd = Some s \<and> take_line (s_input s) = None)"
    and long: "(if too_long sv2 fd then farewell pf fd g line sv2 else Inr sv2) = Inr sv3"
    and last: "(if \<not> is_closing sv3 fd then post_recv pf fd g sv3
      else maybe_close_after_flush pf fd sv3) = Inr sv4"
  shows "listens {fd} sv2 sv4" and "input_ok sv4 fd"
proof -
  have l3: "listens {} sv2 sv3"
    using long ensuresD [OF listens_ops(2)] by (auto split: if_splits)
  have l4: "listens {} sv3 sv4"
    using last ensuresD [OF listens_ops(5)] ensuresD [OF listens_push]
    by (auto simp: post_recv_def split: if_splits)
  have "listens F sv sv'" if "listens {} sv sv'" for F sv sv'
    using that by (simp add: listens_def)
  with l3 l4 show "listens {fd} sv2 sv4" using listens_trans by blast
  have "input_ok sv3 fd"
  proof (cases "too_long sv2 fd")
    case True
    with long farewell_closing [OF _ matches] show ?thesis by (auto intro: closing_input_ok)
  next
    case False
    with long fin show ?thesis by (auto intro: closing_input_ok short_input_ok)
  qed
  with listens_input_ok [OF l4] show "input_ok sv4 fd" by simp
qed

lemma on_recv_input:
  assumes inv: "server_inv {} None sv" and tok: "token \<in> set (ring_inflight (sv_ring sv))"
    and type: "t_type token = KRecv" and ok: "inputs_ok sv"
  shows "ensures (on_recv pf token result data (take_token token sv)) inputs_ok"
proof -
  let ?fd = "t_fd token" and ?g = "t_generation token" and ?sv0 = "take_token token sv"
  have ok0: "inputs_ok ?sv0" using listens_take ok by (rule listens_inputs_ok)
  show ?thesis
  proof (cases "session_matches sv ?fd ?g \<and> 0 < result")
    case False
    have "ensures (close_session pf ?fd ?sv0) inputs_ok"
      by (rule ensures_mono [OF listens_ops(4) listens_inputs_ok [OF _ ok0]])
    with False ok0 show ?thesis by (auto simp: on_recv_def Let_def not_less)
  next
    case True
    let ?sv1 = "update_session ?fd (s_input_update (\<lambda>input. input @ data)) ?sv0"
    have inv1: "server_inv {} (Some ?fd) ?sv1"
      using tells_inv [OF tells_input take_recv [OF inv tok type]] True by simp
    have m1: "session_matches ?sv1 ?fd ?g" using True by (simp add: matches_update)
    have l1: "listens {?fd} ?sv0 ?sv1" by (simp add: listens_def update_session_def)
    have result: "inputs_ok sv4"
      if lines: "process_lines pf ?fd ?g ?sv1 = Inr sv2"
        and m2: "session_matches sv2 ?fd ?g"
        and long: "(if too_long sv2 ?fd then farewell pf ?fd ?g ''ERR line too long'' sv2
          else Inr sv2) = Inr sv3"
        and last: "(if \<not> is_closing sv3 ?fd then post_recv pf ?fd ?g sv3
          else maybe_close_after_flush pf ?fd sv3) = Inr sv4" for sv2 sv3 sv4
    proof -
      have l2: "listens {?fd} ?sv1 sv2" using ensuresD [OF process_lines_listens [OF inv1 m1] lines] .
      note a = after_lines_input [OF m2 ensuresD [OF process_lines_done lines, rule_format, OF m2] long last]
      have "listens {?fd} ?sv0 sv4" using l1 l2 a(1) listens_trans by blast
      then have "input_ok sv4 fd" if "fd \<noteq> ?fd" for fd
        using listens_input_ok [of "{?fd}" ?sv0 sv4 fd] that ok0 by (simp add: inputs_ok_def)
      with a(2) show ?thesis unfolding inputs_ok_def by metis
    qed
    have m2: "session_matches sv2 ?fd ?g" if "process_lines pf ?fd ?g ?sv1 = Inr sv2" for sv2
      using ensuresD [OF process_lines_ok [OF inv1 m1] that] by simp
    have eq: "on_recv pf token result data ?sv0 =
        bind_result (process_lines pf ?fd ?g ?sv1) (\<lambda>sv2.
          if \<not> session_matches sv2 ?fd ?g then Inr sv2
          else bind_result (if too_long sv2 ?fd
            then farewell pf ?fd ?g ''ERR line too long'' sv2 else Inr sv2) (\<lambda>sv3.
            if \<not> is_closing sv3 ?fd then post_recv pf ?fd ?g sv3
            else maybe_close_after_flush pf ?fd sv3))"
      using True by (simp add: on_recv_def Let_def)
    show ?thesis
      unfolding eq ensures_iff bind_result_Inr_iff
    proof (intro allI impI, elim exE conjE)
      fix sv4 sv2 assume lines: "process_lines pf ?fd ?g ?sv1 = Inr sv2"
        and go: "(if \<not> session_matches sv2 ?fd ?g then Inr sv2
          else bind_result (if too_long sv2 ?fd
            then farewell pf ?fd ?g ''ERR line too long'' sv2 else Inr sv2) (\<lambda>sv3.
            if \<not> is_closing sv3 ?fd then post_recv pf ?fd ?g sv3
            else maybe_close_after_flush pf ?fd sv3)) = Inr sv4"
      then obtain sv3 where
          "(if too_long sv2 ?fd then farewell pf ?fd ?g ''ERR line too long'' sv2 else Inr sv2) = Inr sv3"
          "(if \<not> is_closing sv3 ?fd then post_recv pf ?fd ?g sv3
            else maybe_close_after_flush pf ?fd sv3) = Inr sv4"
        using m2 [OF lines] by (simp only: not_True_eq_False if_False bind_result_Inr_iff) blast
      then show "inputs_ok sv4" by (rule result [OF lines m2 [OF lines]])
    qed
  qed
qed


lemma on_send_listens: "ensures (on_send pf token result sv) (listens {} sv)"
proof -
  let ?fd = "t_fd token"
  let ?sv1 = "update_session ?fd (s_write_in_flight_update (\<lambda>_. False)) sv"
  have l1: "listens {} sv ?sv1" by (rule listens_update) simp_all
  have close: "ensures (close_session pf ?fd ?sv1) (listens {} sv)"
    by (rule ensures_mono [OF listens_ops(4) listens_trans [OF l1]])
  have flush: "ensures (bind_result (post_send pf ?fd (update_session ?fd (s_outbox_update f) ?sv1))
      (maybe_close_after_flush pf ?fd)) (listens {} sv)" for f
  proof (rule ensures_mono [OF listens_bind [OF listens_post_send listens_ops(5)]])
    fix sv' assume "listens {} (update_session ?fd (s_outbox_update f) ?sv1) sv'"
    moreover have "listens {} ?sv1 (update_session ?fd (s_outbox_update f) ?sv1)"
      by (rule listens_update) simp_all
    ultimately show "listens {} sv sv'" using l1 listens_trans by blast
  qed
  show ?thesis using close flush by (simp add: on_send_def Let_def)
qed

lemma on_completion_listens: "ensures (on_completion pf completion sv) (listens {} sv)"
proof -
  have "ensures (bind_result (queue_response pf fd g line (update_session fd (s_pending_db_update f) sv))
      (maybe_close_after_flush pf fd)) (listens {} sv)" for fd g line f
    by (rule ensures_mono [OF listens_bind [OF listens_ops(1,5)] listens_trans [OF listens_update]]) simp_all
  moreover have "listens {} sv (sv\<lparr>sv_log := l\<rparr>)" for l by (rule listens_cong) simp_all
  ultimately show ?thesis by (simp add: on_completion_def Let_def)
qed

lemma drain_completions_listens: "ensures (drain_completions pf sv) (listens {} sv)"
proof (induction pf sv rule: drain_completions.induct)
  case (1 pf sv)
  obtain popped database where pop: "pop_completion (sv_database sv) = (popped, database)"
    by (cases "pop_completion (sv_database sv)") auto
  show ?case
  proof (cases popped)
    case None
    then show ?thesis by (simp add: drain_completions.simps [of pf sv] pop)
  next
    case (Some completion)
    let ?sv0 = "sv\<lparr>sv_database := database\<rparr>"
    have "listens {} sv sv2" if "on_completion pf completion ?sv0 = Inr sv1"
        "drain_completions pf sv1 = Inr sv2" for sv1 sv2
    proof -
      have "listens {} sv ?sv0" by (rule listens_cong) simp_all
      moreover have "listens {} ?sv0 sv1" using ensuresD [OF on_completion_listens that(1)] .
      moreover have "listens {} sv1 sv2"
        using ensuresD [OF "1.IH" [OF pop [symmetric] Some that(1)] that(2)] .
      ultimately show ?thesis using listens_trans by blast
    qed
    then show ?thesis
      by (auto simp: drain_completions.simps [of pf sv] pop Some ensures_iff bind_result_Inr_iff)
  qed
qed

lemma on_database_event_listens: "ensures (on_database_event pf sv) (listens {} sv)"
proof -
  let ?sv0 = "sv\<lparr>sv_database := event_read (sv_database sv)\<rparr>"
  have "listens {} sv ?sv0" by (rule listens_cong) simp_all
  moreover have "ensures (on_database_event pf sv) (listens {} ?sv0)"
    unfolding on_database_event_def
    by (rule listens_bind [OF drain_completions_listens])
      (simp add: post_eventfd_poll_def listens_push)
  ultimately show ?thesis using listens_trans by (blast intro: ensures_mono)
qed

lemma open_session_inputs:
  assumes "sv_sessions sv fd = None" and ok: "inputs_ok sv"
  shows "ensures (open_session pf fd sv) inputs_ok"
proof -
  let ?g = "sv_next_session_generation sv"
  let ?sv1 = "add_session (new_session\<lparr>s_fd := fd, s_generation := ?g\<rparr>)
    (sv\<lparr>sv_next_session_generation := ?g + 1\<rparr>)"
  have "inputs_ok ?sv1"
    using assms by (auto simp: inputs_ok_def input_ok_def add_session_def new_session_def)
  moreover have "ensures (open_session pf fd sv) (listens {} ?sv1)"
    unfolding open_session_def Let_def
    by (rule listens_bind [OF listens_ops(1)]) (simp add: post_recv_def listens_push)
  ultimately show ?thesis using listens_inputs_ok by (blast intro: ensures_mono)
qed

lemma on_accept_inputs:
  assumes "result < 0 \<or> sv_sessions sv result = None" and ok: "inputs_ok sv"
  shows "ensures (on_accept pf result sv) inputs_ok"
proof -
  have log: "inputs_ok (sv\<lparr>sv_log := l\<rparr>)" for l using ok by (simp add: inputs_ok_def input_ok_def)
  have post: "ensures (post_accept pf sv1) inputs_ok" if "inputs_ok sv1" for sv1
    using that listens_inputs_ok unfolding post_accept_def by (blast intro: ensures_mono [OF listens_push])
  show ?thesis
    unfolding on_accept_def
  proof (rule ensures_bind, rule ensures_mono)
    show "ensures (if 0 \<le> result then open_session pf result sv
       else if result \<noteq> - ECANCELED \<and> result \<noteq> - EINVAL
       then Inr (sv\<lparr>sv_log := sv_log sv @ [''accept failed: '' @ pf_strerror pf (- result)]\<rparr>)
       else Inr sv) inputs_ok"
      using assms log open_session_inputs by auto
  qed (simp add: post)
qed

section \<open>Every reachable state\<close>

lemma loop_step_inputs:
  assumes "loop_step pf sv sv'" and "server_inv {} None sv" and ok: "inputs_ok sv"
  shows "inputs_ok sv'"
proof -
  have ok0: "inputs_ok (take_token token sv)" for token
    using listens_take ok by (rule listens_inputs_ok)
  from assms(1) show ?thesis
  proof (cases rule: loop_step_cases)
    case (submitted n)
    then show ?thesis using ok by (simp add: inputs_ok_def input_ok_def)
  next
    case (accepted token result)
    have free: "result < 0 \<or> sv_sessions (take_token token sv) result = None"
      using accepted(3) by auto
    show ?thesis using ensuresD [OF on_accept_inputs [OF free ok0] accepted(4)] .
  next
    case (received token result data)
    then show ?thesis using ensuresD [OF on_recv_input [OF assms(2) _ _ ok]] by blast
  next
    case (sent token result)
    then show ?thesis using listens_inputs_ok [OF ensuresD [OF on_send_listens] ok0] by blast
  next
    case (database token)
    then show ?thesis using listens_inputs_ok [OF ensuresD [OF on_database_event_listens] ok0] by blast
  qed
qed

lemma loop_steps_inputs:
  assumes "(loop_step pf)\<^sup>*\<^sup>* sv sv'" and ok: "server_ok sv" and ord: "valid_order (pf_order pf)"
    and "inputs_ok sv"
  shows "inputs_ok sv'"
  using assms(1)
proof (induction rule: rtranclp_induct)
  case (step sv1 sv2)
  have "server_inv {} None sv1"
    using loop_steps_ok [OF step(1) ok ord] by (simp add: server_ok_def loop_inv_def)
  from loop_step_inputs [OF step(2) this step.IH] show ?case .
qed (rule assms(4))

end
