(* ===== verification/Dispatcher_Properties.thy ===== *)
theory Dispatcher_Properties
  imports Dispatcher
begin

text \<open>
  The properties of the dispatcher, for any database behind it: a completion goes back to the
  request it answers, no request is lost or answered twice, the worker pool always finishes its
  work, and the order of completions (kept by one worker, not by two). Then what a worker
  does with a connection that has died.
\<close>

section \<open>Accounting of requests\<close>

definition running_keys :: "worker list \<Rightarrow> request_key list" where
  "running_keys ws = concat (map (\<lambda>w. case wk_job w of None \<Rightarrow> [] | Some j \<Rightarrow> [job_key j]) ws)"

definition outstanding :: "dispatcher \<Rightarrow> request_key multiset" where
  "outstanding d = mset (map job_key (bq_queue (dd_jobs d))) + mset (running_keys (dd_workers d)) +
     mset (map completion_key (dd_completions d))"

definition work_left :: "dispatcher \<Rightarrow> nat" where
  "work_left d = 2 * length (bq_queue (dd_jobs d)) + length (running_keys (dd_workers d)) +
     length (filter (\<lambda>w. \<not> wk_done w) (dd_workers d))"

text \<open>A loop has ended only when the queue is closed and empty, and then runs no job.\<close>

definition workers_inv :: "dispatcher \<Rightarrow> bool" where
  "workers_inv d \<longleftrightarrow> (\<forall>w \<in> set (dd_workers d). wk_done w \<longrightarrow>
     wk_job w = None \<and> bq_closed (dd_jobs d) \<and> bq_queue (dd_jobs d) = [])"

definition wake_inv :: "dispatcher \<Rightarrow> bool" where
  "wake_inv d \<longleftrightarrow> (dd_completions d \<noteq> [] \<longrightarrow> 0 < dd_event_count d)"

lemma running_keys_append: "running_keys (xs @ ys) = running_keys xs @ running_keys ys"
  by (simp add: running_keys_def)

lemma running_keys_Cons:
  "running_keys (w # ws) = (case wk_job w of None \<Rightarrow> [] | Some j \<Rightarrow> [job_key j]) @ running_keys ws"
  by (simp add: running_keys_def)

lemma list_split_at: "i < length ws \<Longrightarrow> \<exists>us vs. ws = us @ ws ! i # vs \<and> length us = i"
  by (metis id_take_nth_drop length_take min.absorb4)

lemma split_worker:
  assumes "i < length (dd_workers d)"
  obtains us vs where "dd_workers d = us @ dd_workers d ! i # vs"
    and "\<And>w. (dd_workers d)[i := w] = us @ w # vs"
proof -
  obtain us vs where "dd_workers d = us @ dd_workers d ! i # vs" "length us = i"
    using list_split_at [OF assms] by blast
  then show ?thesis by (metis list_update_length that)
qed

text \<open>One case per kind of step, with the worker split out of the pool.\<close>

lemma worker_pop_cases:
  assumes "worker_pop i d = Some d'"
  obtains (ends) us w vs where "dd_workers d = us @ w # vs" and "wk_job w = None" and "\<not> wk_done w"
      and "bq_closed (dd_jobs d)" and "bq_queue (dd_jobs d) = []"
      and "d' = d\<lparr>dd_workers := us @ w\<lparr>wk_done := True\<rparr> # vs\<rparr>"
  | (takes) us w vs job q where "dd_workers d = us @ w # vs" and "wk_job w = None" and "\<not> wk_done w"
      and "bq_queue (dd_jobs d) = job # bq_queue q" and "bq_closed q = bq_closed (dd_jobs d)"
      and "d' = d\<lparr>dd_jobs := q, dd_workers := us @ w\<lparr>wk_job := Some job\<rparr> # vs\<rparr>"
proof -
  let ?w = "dd_workers d ! i"
  have i: "i < length (dd_workers d)" "\<not> wk_done ?w" "wk_job ?w = None"
    using assms by (auto simp: worker_pop_def Let_def split: if_splits)
  from split_worker [OF i(1)] obtain us vs where ws: "dd_workers d = us @ ?w # vs"
      and up: "\<And>w. (dd_workers d)[i := w] = us @ w # vs"
    by blast
  have "bq_pop (dd_jobs d) \<noteq> None"
    using assms i unfolding worker_pop_def Let_def by (cases "bq_pop (dd_jobs d)") simp_all
  then obtain r q where pop: "bq_pop (dd_jobs d) = Some (r, q)" by auto
  show ?thesis
  proof (cases r)
    case None
    have d': "d' = d\<lparr>dd_jobs := q, dd_workers := us @ ?w\<lparr>wk_done := True\<rparr> # vs\<rparr>"
      using assms i pop None by (simp add: worker_pop_def Let_def up)
    have ended: "bq_closed (dd_jobs d) \<and> bq_queue (dd_jobs d) = [] \<and> q = dd_jobs d"
      using bq.pop_end [of "dd_jobs d" q] pop None by simp
    show ?thesis using ended d' by (intro ends [OF ws i(3) i(2)]) simp_all
  next
    case (Some job)
    have d': "d' = d\<lparr>dd_jobs := q, dd_workers := us @ ?w\<lparr>wk_job := Some job\<rparr> # vs\<rparr>"
      using assms i pop Some by (simp add: worker_pop_def Let_def up)
    have taken: "bq_queue (dd_jobs d) = job # bq_queue q \<and> bq_closed q = bq_closed (dd_jobs d)"
      using bq.pop_value [of "dd_jobs d" job q] pop Some by simp
    show ?thesis using taken d' by (intro takes [OF ws i(3) i(2)]) simp_all
  qed
qed

lemma worker_finish_cases:
  assumes "worker_finish my i d db = Some (d', db')"
  obtains us w vs job connected c where "dd_workers d = us @ w # vs" and "wk_job w = Some job"
    and "\<not> wk_done w" and "run_job my (dd_config d) (wk_connected w) job db = (connected, c, db')"
    and "d' = push_completion c
      (d\<lparr>dd_workers := us @ w\<lparr>wk_connected := connected, wk_job := None\<rparr> # vs\<rparr>)"
proof -
  let ?w = "dd_workers d ! i"
  have i: "i < length (dd_workers d)" "\<not> wk_done ?w"
    using assms by (auto simp: worker_finish_def Let_def split: if_splits)
  from split_worker [OF i(1)] obtain us vs where ws: "dd_workers d = us @ ?w # vs"
      and up: "\<And>w. (dd_workers d)[i := w] = us @ w # vs"
    by blast
  obtain job where "wk_job ?w = Some job"
    using assms i by (auto simp: worker_finish_def Let_def split: option.splits)
  moreover obtain connected c db'' where
      "run_job my (dd_config d) (wk_connected ?w) job db = (connected, c, db'')"
    by (cases "run_job my (dd_config d) (wk_connected ?w) job db") auto
  ultimately show ?thesis
    using assms i ws that [of us ?w vs job connected c]
    by (auto simp: worker_finish_def Let_def up)
qed

lemma worker_step_cases:
  assumes "worker_step my (d, db) (d', db')"
  obtains (pop) i where "worker_pop i d = Some d'" and "db' = worker_release my i d' db"
  | (finish) i where "worker_finish my i d db = Some (d', db')"
  using assms by (auto elim: worker_stepE)

lemmas dispatcher_simps = push_completion_def running_keys_append running_keys_Cons

lemma eventfd_write_pos: "0 < eventfd_write 1 n"
  by (simp add: eventfd_write_def eventfd_limit_def)

lemma worker_step_outstanding:
  assumes "worker_step my (d, db) (d', db')"
  shows "outstanding d' = outstanding d"
  using assms
proof (cases rule: worker_step_cases)
  case (pop i)
  then have "worker_pop i d = Some d'" by simp
  then show ?thesis
    by (cases rule: worker_pop_cases) (auto simp: outstanding_def dispatcher_simps)
next
  case (finish i)
  then have "worker_finish my i d db = Some (d', db')" by simp
  then show ?thesis
    by (cases rule: worker_finish_cases) (auto simp: outstanding_def dispatcher_simps run_job_key)
qed

lemma worker_step_work_left:
  assumes "worker_step my (d, db) (d', db')"
  shows "work_left d' < work_left d"
  using assms
proof (cases rule: worker_step_cases)
  case (pop i)
  then have "worker_pop i d = Some d'" by simp
  then show ?thesis
    by (cases rule: worker_pop_cases) (auto simp: work_left_def dispatcher_simps)
next
  case (finish i)
  then have "worker_finish my i d db = Some (d', db')" by simp
  then show ?thesis
    by (cases rule: worker_finish_cases) (auto simp: work_left_def dispatcher_simps)
qed

lemma worker_step_inv:
  assumes "worker_step my (d, db) (d', db')"
  shows "workers_inv d \<Longrightarrow> workers_inv d'" and "wake_inv d \<Longrightarrow> wake_inv d'"
    and "length (dd_workers d') = length (dd_workers d)"
proof -
  have "(workers_inv d \<longrightarrow> workers_inv d') \<and> (wake_inv d \<longrightarrow> wake_inv d') \<and>
      length (dd_workers d') = length (dd_workers d)"
    using assms
  proof (cases rule: worker_step_cases)
    case (pop i)
    then have "worker_pop i d = Some d'" by simp
    then show ?thesis
      by (cases rule: worker_pop_cases) (auto simp: workers_inv_def wake_inv_def)
  next
    case (finish i)
    then have "worker_finish my i d db = Some (d', db')" by simp
    then show ?thesis
      by (cases rule: worker_finish_cases)
        (auto simp: workers_inv_def wake_inv_def push_completion_def
          eventfd_write_pos [unfolded One_nat_def])
  qed
  then show "workers_inv d \<Longrightarrow> workers_inv d'" "wake_inv d \<Longrightarrow> wake_inv d'"
    "length (dd_workers d') = length (dd_workers d)" by auto
qed

lemma worker_steps_inv:
  assumes "(worker_step my)\<^sup>*\<^sup>* s s'"
  shows "outstanding (fst s') = outstanding (fst s)"
    and "workers_inv (fst s) \<Longrightarrow> workers_inv (fst s')" and "wake_inv (fst s) \<Longrightarrow> wake_inv (fst s')"
    and "length (dd_workers (fst s')) = length (dd_workers (fst s))"
proof -
  have "outstanding (fst s') = outstanding (fst s) \<and>
      (workers_inv (fst s) \<longrightarrow> workers_inv (fst s')) \<and> (wake_inv (fst s) \<longrightarrow> wake_inv (fst s')) \<and>
      length (dd_workers (fst s')) = length (dd_workers (fst s))"
    using assms
  proof (induction rule: rtranclp_induct)
    case (step t u)
    then have "worker_step my (fst t, snd t) (fst u, snd u)" by simp
    from worker_step_outstanding [OF this] worker_step_inv [OF this] step.IH show ?case by auto
  qed simp
  then show "outstanding (fst s') = outstanding (fst s)"
    "workers_inv (fst s) \<Longrightarrow> workers_inv (fst s')" "wake_inv (fst s) \<Longrightarrow> wake_inv (fst s')"
    "length (dd_workers (fst s')) = length (dd_workers (fst s))" by auto
qed

text \<open>A pool that cannot move has nothing queued and nothing running.\<close>

lemma stuck_pool_idle:
  assumes stuck: "\<And>s. \<not> worker_step my (d, db) s" and inv: "workers_inv d" and "dd_workers d \<noteq> []"
  shows "bq_queue (dd_jobs d) = [] \<and> running_keys (dd_workers d) = []"
proof -
  have idle: "wk_job w = None" if "w \<in> set (dd_workers d)" for w
  proof (rule ccontr)
    assume "wk_job w \<noteq> None"
    then obtain job where job: "wk_job w = Some job" by auto
    from that obtain i where i: "i < length (dd_workers d)" "dd_workers d ! i = w"
      by (auto simp: in_set_conv_nth)
    have "\<not> wk_done w" using inv that job by (auto simp: workers_inv_def)
    then have "worker_finish my i d db \<noteq> None"
      using i job by (auto simp: worker_finish_def split: prod.splits)
    then show False using stuck worker_step.finish by fastforce
  qed
  have "bq_queue (dd_jobs d) = []"
  proof (rule ccontr)
    assume ne: "bq_queue (dd_jobs d) \<noteq> []"
    then have "\<not> wk_done (dd_workers d ! 0)"
      using inv assms(3) by (auto simp: workers_inv_def)
    moreover have "bq_pop (dd_jobs d) \<noteq> None" using ne bq.pop_waits by blast
    ultimately have "worker_pop 0 d \<noteq> None"
      using idle [of "dd_workers d ! 0"] assms(3) by (auto simp: worker_pop_def Let_def split: option.splits)
    then show False using stuck worker_step.pop by fastforce
  qed
  moreover have "running_keys (dd_workers d) = []"
    using idle by (auto simp: running_keys_def)
  ultimately show ?thesis by simp
qed

section \<open>The dispatcher with its client\<close>

text \<open>
  The client of the dispatcher is the event loop: it submits jobs, and when the eventfd is readable it
  reads the counter and then pops completions until there is none. The workers move in between. The
  state is a flag that tells whether the client is in its pop loop, the dispatcher, the database, and
  the history: the requests submitted and the requests answered, in order.
\<close>

type_synonym 'db pool_state =
  "bool \<times> dispatcher \<times> 'db \<times> request_key list \<times> request_key list"

inductive pool_step :: "'db mysql \<Rightarrow> 'db pool_state \<Rightarrow> 'db pool_state \<Rightarrow> bool" for my where
  work: "worker_step my (d, db) (d', db') \<Longrightarrow>
    pool_step my (reading, d, db, subs, dels) (reading, d', db', subs, dels)"
| submit: "\<not> bq_closed (dd_jobs d) \<Longrightarrow>
    pool_step my (reading, d, db, subs, dels) (reading, submit job d, db, subs @ [job_key job], dels)"
| wake: "0 < dd_event_count d \<Longrightarrow>
    pool_step my (False, d, db, subs, dels) (True, event_read d, db, subs, dels)"
| deliver: "pop_completion d = (Some c, d') \<Longrightarrow>
    pool_step my (True, d, db, subs, dels) (True, d', db, subs, dels @ [completion_key c])"
| drained: "pop_completion d = (None, d') \<Longrightarrow>
    pool_step my (True, d, db, subs, dels) (False, d', db, subs, dels)"

definition pool_init :: "database_config \<Rightarrow> 'db \<Rightarrow> 'db pool_state" where
  "pool_init config db = (False, dispatcher_start (dispatcher_new config), db, [], [])"

text \<open>The order of the requests, when there is one worker: answered, running, waiting.\<close>

definition pipeline :: "dispatcher \<Rightarrow> request_key list" where
  "pipeline d = map completion_key (dd_completions d) @ running_keys (dd_workers d) @
     map job_key (bq_queue (dd_jobs d))"

fun pool_inv :: "nat \<Rightarrow> 'db pool_state \<Rightarrow> bool" where
  "pool_inv n (reading, d, db, subs, dels) \<longleftrightarrow>
     length (dd_workers d) = n \<and> workers_inv d \<and> (\<not> reading \<longrightarrow> wake_inv d) \<and>
     mset subs = mset dels + outstanding d \<and> (n = 1 \<longrightarrow> subs = dels @ pipeline d)"

lemma worker_step_pipeline:
  assumes "worker_step my (d, db) (d', db')" and "length (dd_workers d) = 1"
  shows "pipeline d' = pipeline d"
  using assms(1)
proof (cases rule: worker_step_cases)
  case (pop i)
  then have "worker_pop i d = Some d'" by simp
  then show ?thesis using assms(2)
    by (cases rule: worker_pop_cases) (auto simp: pipeline_def dispatcher_simps running_keys_def)
next
  case (finish i)
  then have "worker_finish my i d db = Some (d', db')" by simp
  then show ?thesis using assms(2)
    by (cases rule: worker_finish_cases)
      (auto simp: pipeline_def dispatcher_simps run_job_key running_keys_def)
qed

lemma pop_completion_Some:
  "pop_completion d = (Some c, d') \<Longrightarrow>
   dd_completions d = c # dd_completions d' \<and> d' = d\<lparr>dd_completions := dd_completions d'\<rparr>"
  by (auto simp: pop_completion_def split: list.splits)

lemma pop_completion_None: "pop_completion d = (None, d') \<Longrightarrow> dd_completions d = [] \<and> d' = d"
  by (auto simp: pop_completion_def split: list.splits)

lemma pool_inv_init: "pool_inv (unat (db_pool_size config)) (pool_init config db)"
  by (auto simp: pool_init_def dispatcher_start_def dispatcher_new_def workers_inv_def wake_inv_def
      outstanding_def pipeline_def running_keys_def bq_empty_def fresh_worker_def)

lemma pool_inv_submit:
  assumes "\<not> bq_closed (dd_jobs d)" and "pool_inv n (reading, d, db, subs, dels)"
  shows "pool_inv n (reading, submit job d, db, subs @ [job_key job], dels)"
  using assms by (auto simp: submit_def bq_push_def workers_inv_def wake_inv_def outstanding_def
      pipeline_def)

lemma pool_inv_deliver:
  assumes "pop_completion d = (Some c, d')" and "pool_inv n (True, d, db, subs, dels)"
  shows "pool_inv n (True, d', db, subs, dels @ [completion_key c])"
proof -
  from pop_completion_Some [OF assms(1)] have
    "dd_completions d = c # dd_completions d'" "dd_workers d' = dd_workers d" "dd_jobs d' = dd_jobs d"
    by (auto dest: arg_cong [where f = dd_workers] arg_cong [where f = dd_jobs])
  with assms(2) show ?thesis by (auto simp: workers_inv_def outstanding_def pipeline_def)
qed

lemma pool_inv_work:
  assumes "worker_step my (d, db) (d', db')" and "pool_inv n (reading, d, db, subs, dels)"
  shows "pool_inv n (reading, d', db', subs, dels)"
  using worker_step_outstanding [OF assms(1)] worker_step_inv [OF assms(1)]
    worker_step_pipeline [OF assms(1)] assms(2)
  by auto

lemma pool_step_inv: "pool_step my s s' \<Longrightarrow> pool_inv n s \<Longrightarrow> pool_inv n s'"
proof (induction rule: pool_step.induct)
  case (wake d db subs dels)
  then show ?case by (simp add: event_read_def workers_inv_def outstanding_def pipeline_def)
next
  case (drained d d' db subs dels)
  then show ?case using pop_completion_None [of d d'] by (simp add: wake_inv_def)
qed (blast intro: pool_inv_work pool_inv_submit pool_inv_deliver)+

lemma pool_reachable_inv:
  assumes "(pool_step my)\<^sup>*\<^sup>* (pool_init config db) s"
  shows "pool_inv (unat (db_pool_size config)) s"
  using assms by (induction rule: rtranclp_induct) (auto intro: pool_inv_init pool_step_inv)


section \<open>A run of two workers\<close>

text \<open>A client library that cannot even be initialised: every job is answered with an error.\<close>

definition down_mysql :: "unit mysql" where
  "down_mysql = \<lparr>my_init = \<lambda>db. (False, db), my_connect = \<lambda>_ db. (Some ''down'', db), my_close = \<lambda>db. db,
     my_stmt_init = \<lambda>db. (Some ''down'', db), my_stmt_prepare = \<lambda>_ _. Some ''down'', my_stmt_close = \<lambda>db. db,
     my_bind_param = \<lambda>_ _ _. Some ''down'', my_execute = \<lambda>_ _ db. (Inl (2006, ''down''), db),
     my_bind_result = \<lambda>_ _. Some ''down'', my_store_result = \<lambda>_ _. Some ''down'',
     my_fetch_error = \<lambda>_ _ _. None, my_query = \<lambda>_ db. (Some ''down'', db)\<rparr>"

definition demo_pool :: "32 word \<Rightarrow> database_config" where
  "demo_pool n = default_database_config\<lparr>db_pool_size := n\<rparr>"

definition demo_job :: "64 word \<Rightarrow> db_job" where
  "demo_job request = \<lparr>job_client_fd = 5, job_client_generation = 1, job_request_id = request,
     job_operation = DbLoginPlayer, job_command_name = ''LOGIN'', job_args = [''anna''],
     job_notify_client = True\<rparr>"

lemma demo_pool_size [simp]: "db_pool_size (demo_pool n) = n"
  by (simp add: demo_pool_def)

lemma pool_submit_once:
  "(pool_step my)\<^sup>*\<^sup>* (pool_init config db)
     (False, submit job (dispatcher_start (dispatcher_new config)), db, [job_key job], [])"
  using pool_step.submit [of "dispatcher_start (dispatcher_new config)" my False db "[]" "[]" job]
  by (simp add: pool_init_def dispatcher_start_def dispatcher_new_def bq_empty_def r_into_rtranclp)



lemma pool_work_steps:
  assumes "(worker_step my)\<^sup>*\<^sup>* s s'"
  shows "(pool_step my)\<^sup>*\<^sup>* (reading, fst s, snd s, subs, dels) (reading, fst s', snd s', subs, dels)"
  using assms
proof (induction rule: rtranclp_induct)
  case (step t u)
  then have "pool_step my (reading, fst t, snd t, subs, dels) (reading, fst u, snd u, subs, dels)"
    by (intro pool_step.work) simp
  with step.IH show ?case by (rule rtranclp.rtrancl_into_rtrancl)
qed simp

text \<open>The second of two workers overtakes the first.\<close>

definition overtaken :: "'db mysql \<Rightarrow> database_config \<Rightarrow> db_job \<Rightarrow> db_job \<Rightarrow> 'db \<Rightarrow>
    db_completion \<times> db_completion \<times> 'db" where
  "overtaken my config first second db =
     (case run_job my config False second db of (_, c2, db1) \<Rightarrow>
      (case run_job my config False first db1 of (_, c1, db2) \<Rightarrow> (c2, c1, db2)))"

lemma two_workers_run:
  assumes "unat (db_pool_size config) = 2" and "overtaken my config j1 j2 db = (c2, c1, db2)"
  shows "\<exists>d. (pool_step my)\<^sup>*\<^sup>* (pool_init config db)
    (False, d, db2, [job_key j1, job_key j2], []) \<and> dd_completions d = [c2, c1]"
proof -
  obtain a2 db1 where r2: "run_job my config False j2 db = (a2, c2, db1)"
    using assms(2) by (auto simp: overtaken_def split: prod.splits)
  then obtain a1 where r1: "run_job my config False j1 db1 = (a1, c1, db2)"
    using assms(2) by (auto simp: overtaken_def split: prod.splits)
  let ?w = fresh_worker
  let ?d0 = "dispatcher_start (dispatcher_new config)"
  let ?d1 = "submit j2 (submit j1 ?d0)"
  let ?d2 = "?d1\<lparr>dd_jobs := \<lparr>bq_queue = [j2], bq_closed = False\<rparr>,
    dd_workers := [?w\<lparr>wk_job := Some j1\<rparr>, ?w]\<rparr>"
  let ?d3 = "?d2\<lparr>dd_jobs := bq_empty, dd_workers := [?w\<lparr>wk_job := Some j1\<rparr>, ?w\<lparr>wk_job := Some j2\<rparr>]\<rparr>"
  let ?d4 = "push_completion c2
    (?d3\<lparr>dd_workers := [?w\<lparr>wk_job := Some j1\<rparr>, ?w\<lparr>wk_connected := a2\<rparr>]\<rparr>)"
  let ?d5 = "push_completion c1
    (?d4\<lparr>dd_workers := [?w\<lparr>wk_connected := a1\<rparr>, ?w\<lparr>wk_connected := a2\<rparr>]\<rparr>)"
  have ws: "dd_workers ?d0 = [?w, ?w]"
    using assms(1) by (simp add: dispatcher_start_def dispatcher_new_def numeral_2_eq_2)
  have dd: "dd_config ?d0 = config" "dd_jobs ?d0 = bq_empty" "dd_completions ?d0 = []"
    by (simp_all add: dispatcher_start_def dispatcher_new_def)
  note defs = submit_def bq_push_def bq_pop_def bq_empty_def fresh_worker_def push_completion_def
  have "worker_step my (?d1, db) (?d2, db)"
    by (rule worker_step_pop [of 0]) (simp_all add: worker_pop_def ws dd defs)
  moreover have "worker_step my (?d2, db) (?d3, db)"
    by (rule worker_step_pop [of 1]) (simp_all add: worker_pop_def ws dd defs)
  moreover have "worker_step my (?d3, db) (?d4, db1)"
    using r2 by (intro worker_step.finish [of _ 1]) (simp add: worker_finish_def dd defs)
  moreover have "worker_step my (?d4, db1) (?d5, db2)"
    using r1 by (intro worker_step.finish [of _ 0]) (simp add: worker_finish_def dd defs)
  ultimately have work: "(worker_step my)\<^sup>*\<^sup>* (?d1, db) (?d5, db2)"
    by (metis (no_types, lifting) converse_rtranclp_into_rtranclp r_into_rtranclp)
  have "pool_step my (False, submit j1 ?d0, db, [job_key j1], [])
      (False, ?d1, db, [job_key j1] @ [job_key j2], [])"
    by (rule pool_step.submit) (simp add: dd defs)
  with pool_submit_once [of my config db j1]
  have "(pool_step my)\<^sup>*\<^sup>* (pool_init config db) (False, ?d1, db, [job_key j1, job_key j2], [])"
    by (simp add: rtranclp.rtrancl_into_rtrancl)
  also have "(pool_step my)\<^sup>*\<^sup>* (False, ?d1, db, [job_key j1, job_key j2], [])
      (False, ?d5, db2, [job_key j1, job_key j2], [])"
    using pool_work_steps [OF work, of False "[job_key j1, job_key j2]" "[]"] by simp
  finally show ?thesis by (intro exI [of _ ?d5] conjI) (simp_all add: push_completion_def dd defs)
qed


text \<open>One worker and one job: the pool after it has answered.\<close>

definition idle_after_one :: dispatcher where
  "idle_after_one = push_completion (error_completion (demo_job 1) (Runtime_Error ''mysql_init failed''))
     (dispatcher_start (dispatcher_new (demo_pool 1)))"

lemma one_job_runs:
  "(worker_step down_mysql)\<^sup>*\<^sup>* (submit (demo_job 1) (dispatcher_start (dispatcher_new (demo_pool 1))), ())
     (idle_after_one, ())"
proof -
  let ?d0 = "submit (demo_job 1) (dispatcher_start (dispatcher_new (demo_pool 1)))"
  let ?d1 = "?d0\<lparr>dd_jobs := bq_empty, dd_workers := [fresh_worker\<lparr>wk_job := Some (demo_job 1)\<rparr>]\<rparr>"
  note defs = submit_def bq_push_def bq_pop_def bq_empty_def fresh_worker_def push_completion_def
    dispatcher_start_def dispatcher_new_def idle_after_one_def
  have "worker_step down_mysql (?d0, ()) (?d1, ())"
    by (rule worker_step_pop [of 0]) (simp_all add: worker_pop_def defs)
  moreover have "worker_step down_mysql (?d1, ()) (idle_after_one, ())"
    by (rule worker_step.finish [of _ 0])
      (simp add: worker_finish_def run_job_def connection_new_def down_mysql_def defs)
  ultimately show ?thesis by (metis (no_types, lifting) converse_rtranclp_into_rtranclp r_into_rtranclp)
qed

lemma one_job_stuck: "\<not> worker_step down_mysql (idle_after_one, ()) s"
proof -
  note defs = bq_pop_def bq_empty_def fresh_worker_def push_completion_def
    dispatcher_start_def dispatcher_new_def idle_after_one_def
  have "worker_pop i idle_after_one = None" "worker_finish down_mysql i idle_after_one () = None" for i
    by (cases i; simp add: worker_pop_def worker_finish_def defs Let_def)+
  then show ?thesis by (auto elim: worker_stepE)
qed

section \<open>The properties\<close>

text \<open>
  Whatever the database does, running a job gives one completion that carries the descriptor,
  generation, request number and notify flag of the job; it is either a success whose line starts
  with OK or the error completion of the job, whose line names the command and the reason.
\<close>
lemma completion_answers_request:
  "case run_job my config connected job db of (connected', c, db') \<Rightarrow>
     completion_key c = job_key job \<and>
     (if dc_ok c then take 3 (dc_line c) = ''OK ''
      else \<exists>error. c = error_completion job error \<and>
        dc_line c = ''ERR '' @ job_command_name job @ '' '' @ what error)"
proof -
  obtain connected' c db' where run: "run_job my config connected job db = (connected', c, db')"
    by (cases "run_job my config connected job db") auto
  from run_job_cases [OF run] run_job_key [OF run] run show ?thesis
    by (auto simp: answers_def ok_completion_def error_completion_def)
qed

text \<open>
  No request is lost, answered twice or invented: at any moment of any interleaving of the
  workers with the event loop, the requests submitted are exactly the requests answered plus those
  waiting, running or in the completion queue.
\<close>
lemma requests_answered_once:
  assumes "(pool_step my)\<^sup>*\<^sup>* (pool_init config db0) (reading, d, db, subs, dels)"
  shows "mset subs = mset dels + outstanding d"
  using pool_reachable_inv [OF assms] by simp

lemma requests_answered_once_witness:
  "mset [job_key (demo_job 1)] = mset [] +
     outstanding (submit (demo_job 1) (dispatcher_start (dispatcher_new (demo_pool 1))))"
  by (rule requests_answered_once [OF pool_submit_once [of down_mysql "demo_pool 1" "()" "demo_job 1"]])

text \<open>
  No wake-up is lost: whenever a completion waits and the event loop is not already popping
  completions, the eventfd is readable, so the poll on it will fire. It rests on the order of the
  handler: the counter is read before the completions are popped.
\<close>
lemma no_lost_wakeup:
  assumes "(pool_step my)\<^sup>*\<^sup>* (pool_init config db0) (False, d, db, subs, dels)"
    and "dd_completions d \<noteq> []"
  shows "0 < dd_event_count d"
  using pool_reachable_inv [OF assms(1)] assms(2) by (simp add: wake_inv_def)

lemma no_lost_wakeup_witness:
  "\<exists>d :: dispatcher. dd_completions d \<noteq> [] \<and> 0 < dd_event_count d"
proof -
  obtain c2 c1 db2 where o2: "overtaken down_mysql (demo_pool 2) (demo_job 1) (demo_job 2) () = (c2, c1, db2)"
    by (cases "overtaken down_mysql (demo_pool 2) (demo_job 1) (demo_job 2) ()") auto
  from two_workers_run [OF _ o2] obtain d where
    run: "(pool_step down_mysql)\<^sup>*\<^sup>* (pool_init (demo_pool 2) ())
      (False, d, db2, [job_key (demo_job 1), job_key (demo_job 2)], [])" "dd_completions d = [c2, c1]"
    by auto
  have "dd_completions d \<noteq> [] \<and> 0 < dd_event_count d" using no_lost_wakeup [OF run(1)] run(2) by auto
  then show ?thesis ..
qed

text \<open>
  The pool always finishes: from any reachable state the workers can make only finitely many
  steps (the bound is \<open>work_left\<close>), and when none of them can move, every request that was submitted
  has either been delivered or has its completion in the queue.
\<close>
lemma pool_answers_everything:
  assumes "(pool_step my)\<^sup>*\<^sup>* (pool_init config db0) (reading, d, db, subs, dels)"
    and "db_pool_size config \<noteq> 0"
  shows "(\<forall>n s. ((worker_step my) ^^ n) (d, db) s \<longrightarrow> n + work_left (fst s) \<le> work_left d) \<and>
    (\<forall>d' db'. (worker_step my)\<^sup>*\<^sup>* (d, db) (d', db') \<and> (\<forall>s. \<not> worker_step my (d', db') s) \<longrightarrow>
      mset subs = mset dels + mset (map completion_key (dd_completions d')))"
proof (intro conjI allI impI)
  fix n s assume "((worker_step my) ^^ n) (d, db) s"
  then show "n + work_left (fst s) \<le> work_left d"
  proof (induction n arbitrary: s)
    case (Suc n)
    then obtain t where "((worker_step my) ^^ n) (d, db) t" "worker_step my t s" by auto
    with Suc.IH worker_step_work_left [of my "fst t" "snd t" "fst s" "snd s"] show ?case by fastforce
  qed simp
next
  fix d' db'
  assume run: "(worker_step my)\<^sup>*\<^sup>* (d, db) (d', db') \<and> (\<forall>s. \<not> worker_step my (d', db') s)"
  have inv: "pool_inv (unat (db_pool_size config)) (reading, d, db, subs, dels)"
    using pool_reachable_inv [OF assms(1)] .
  have "dd_workers d' \<noteq> []"
    using worker_steps_inv(4) [of my "(d, db)" "(d', db')"] run inv assms(2)
    by (auto simp: unat_eq_zero)
  then have "bq_queue (dd_jobs d') = [] \<and> running_keys (dd_workers d') = []"
    using run inv worker_steps_inv(2) [of my "(d, db)" "(d', db')"]
    by (intro stuck_pool_idle [of my _ db']) auto
  then show "mset subs = mset dels + mset (map completion_key (dd_completions d'))"
    using run inv worker_steps_inv(1) [of my "(d, db)" "(d', db')"]
    by (simp add: outstanding_def)
qed

lemma pool_answers_everything_witness:
  "mset [job_key (demo_job 1)] = mset [] + mset (map completion_key (dd_completions idle_after_one))"
proof -
  note run = pool_submit_once [of down_mysql "demo_pool 1" "()" "demo_job 1"]
  have "mset [job_key (demo_job 1)] = mset [] + mset (map completion_key (dd_completions idle_after_one))"
    using conjunct2 [OF pool_answers_everything [OF run]] one_job_runs one_job_stuck by auto
  then show ?thesis .
qed

text \<open>
  One worker keeps the order: with a pool of size 1 the completions come in the order of the
  submissions; the answered requests, the completions, the running job and the queue are, in
  this order, exactly the submissions.
\<close>
lemma one_worker_keeps_order:
  assumes "(pool_step my)\<^sup>*\<^sup>* (pool_init config db0) (reading, d, db, subs, dels)"
    and "db_pool_size config = 1"
  shows "subs = dels @ map completion_key (dd_completions d) @ running_keys (dd_workers d) @
    map job_key (bq_queue (dd_jobs d))"
  using pool_reachable_inv [OF assms(1)] assms(2) by (simp add: pipeline_def)

lemma one_worker_keeps_order_witness:
  "[job_key (demo_job 1)] = [] @ map completion_key (dd_completions
      (submit (demo_job 1) (dispatcher_start (dispatcher_new (demo_pool 1))))) @
    running_keys (dd_workers (submit (demo_job 1) (dispatcher_start (dispatcher_new (demo_pool 1))))) @
    map job_key (bq_queue (dd_jobs (submit (demo_job 1) (dispatcher_start (dispatcher_new (demo_pool 1))))))"
  by (rule one_worker_keeps_order [OF pool_submit_once [of down_mysql "demo_pool 1" "()" "demo_job 1"]])
    simp

text \<open>
  C40. Two workers do not: with a pool of size 2, of any two jobs submitted one after the other the
  second can run on the database first and be answered first. The first job then runs last, on
  the state the second left. For two position saves of one character (a client that enters and
  quits) this lets the older position be the last one written.
\<close>
theorem two_workers_can_reorder:
  assumes "db_pool_size config = 2" and "overtaken my config j1 j2 db = (c2, c1, db2)"
  shows "\<exists>d. (pool_step my)\<^sup>*\<^sup>* (pool_init config db) (False, d, db2, [job_key j1, job_key j2], []) \<and>
    dd_completions d = [c2, c1]"
  using two_workers_run [OF _ assms(2)] assms(1) by simp

lemma two_workers_can_reorder_witness:
  "\<exists>d. (pool_step down_mysql)\<^sup>*\<^sup>* (pool_init (demo_pool 2) ())
      (False, d, (), [job_key (demo_job 1), job_key (demo_job 2)], []) \<and>
    dd_completions d = [error_completion (demo_job 2) (Runtime_Error ''mysql_init failed''),
      error_completion (demo_job 1) (Runtime_Error ''mysql_init failed'')]"
  by (rule two_workers_can_reorder)
    (simp_all add: overtaken_def run_job_def connection_new_def down_mysql_def)

end
