(* ===== verification/System.thy ===== *)
theory System
  imports Session_Input Dispatcher_Properties Config
begin

text \<open>
  The whole program: \<open>main\<close> starts the workers and runs the event loop on the main thread. A state is
  the server object, which holds the dispatcher, and the database. A step is a step of the event loop
  or of a worker; the scheduler chooses. Every reachable state satisfies the invariants of the loop,
  the world, the input buffers and the worker pool, and what the event loop and the workers do
  together refines the worker pool with an arbitrary client (\<open>pool_step\<close>).
\<close>

type_synonym 'db system = "server \<times> 'db"

text \<open>
  \<open>main\<close> up to the first wait of the loop; the server has a world with the default grid. The listening
  socket and the number of entries of the ring come from the kernel.
\<close>

definition program_start :: "platform \<Rightarrow> app_config \<Rightarrow> int \<Rightarrow> nat \<Rightarrow> server_result" where
  "program_start pf config listen_fd entries =
     bind_result (lift_exn (make_sector_world 100 1)) (\<lambda>world.
     run_begin pf listen_fd entries (server_new (app_server config)
       (dispatcher_start (dispatcher_new (app_database config))) world))"

inductive system_step :: "'db mysql \<Rightarrow> platform \<Rightarrow> 'db system \<Rightarrow> 'db system \<Rightarrow> bool" for my pf where
  loop: "loop_step pf sv sv' \<Longrightarrow> system_step my pf (sv, db) (sv', db)"
| work: "worker_step my (sv_database sv, db) (d, db') \<Longrightarrow>
    system_step my pf (sv, db) (sv\<lparr>sv_database := d\<rparr>, db')"

inductive_cases system_stepE: "system_step my pf (sv, db) s"

inductive reachable :: "'db mysql \<Rightarrow> platform \<Rightarrow> app_config \<Rightarrow> 'db \<Rightarrow> 'db system \<Rightarrow> bool"
  for my pf config db0 where
  start: "program_start pf config listen_fd entries = Inr sv \<Longrightarrow> reachable my pf config db0 (sv, db0)"
| step: "reachable my pf config db0 s \<Longrightarrow> system_step my pf s s' \<Longrightarrow> reachable my pf config db0 s'"

section \<open>The invariants hold in every reachable state\<close>

definition system_ok :: "'db system \<Rightarrow> bool" where
  "system_ok s \<longleftrightarrow> server_ok (fst s) \<and> inputs_ok (fst s)"

lemma inputs_ok_database: "inputs_ok (sv\<lparr>sv_database := d\<rparr>) = inputs_ok sv"
  by (simp add: inputs_ok_def input_ok_def)

lemma program_start_ok:
  assumes "program_start pf config listen_fd entries = Inr sv"
  shows "server_ok sv" and "inputs_ok sv" and "sv_sessions sv = Map.empty"
    and "sv_config sv = app_server config"
proof -
  obtain world where world: "make_sector_world 100 1 = Inr world"
    by (simp add: make_sector_world_def)
  have boot: "run_begin pf listen_fd entries (server_new (app_server config)
      (dispatcher_start (dispatcher_new (app_database config))) world) = Inr sv"
    using assms world by (simp add: program_start_def)
  have wi: "world_inv world" "players world = Map.empty"
    using world make_sector_world_inv [of 100 1 world] by (auto simp: INT_MAX_def)
  show "server_ok sv" using run_begin_ok [OF boot wi] .
  show empty: "sv_sessions sv = Map.empty" and "sv_config sv = app_server config"
    using run_begin_inv [OF boot] by auto
  show "inputs_ok sv" using empty by (simp add: inputs_ok_def input_ok_def)
qed

lemma system_step_ok:
  assumes "system_step my pf s s'" and "valid_order (pf_order pf)" and "system_ok s"
  shows "system_ok s'"
  using assms(1)
proof cases
  case (loop sv sv' db)
  then have "server_inv {} None sv" using assms(3) by (simp add: system_ok_def server_ok_def loop_inv_def)
  with loop show ?thesis
    using loop_step_ok [OF loop(3) _ assms(2)] loop_step_inputs [OF loop(3)] assms(3)
    by (simp add: system_ok_def)
next
  case (work sv db d db')
  then show ?thesis using assms(3) by (simp add: system_ok_def server_ok_database inputs_ok_database)
qed

lemma reachable_ok:
  assumes "reachable my pf config db0 s" and "valid_order (pf_order pf)"
  shows "system_ok s"
  using assms(1)
proof induction
  case (start listen_fd entries sv)
  then show ?case using program_start_ok by (simp add: system_ok_def)
next
  case (step s s')
  then show ?case using system_step_ok [OF _ assms(2)] by blast
qed


text \<open>Seen from the event loop, a run of the system is a run of the loop.\<close>

lemma system_run:
  assumes "(system_step my pf)\<^sup>*\<^sup>* s s'"
  shows "\<exists>trace. loop_run pf (fst s) trace (fst s')"
  using assms
proof (induction rule: rtranclp_induct)
  case base
  show ?case using loop_run.start by blast
next
  case (step t u)
  then obtain trace where run: "loop_run pf (fst s) trace (fst t)" by blast
  from step(2) show ?case
  proof cases
    case (loop sv sv' db)
    from loop(3) show ?thesis
    proof cases
      case (submitted n)
      then show ?thesis using loop_run.submit [of pf "fst s" trace sv n] run loop by auto
    next
      case (completed token result data)
      then have "loop_run pf (fst s) (trace @ [(token, result, data)]) sv'"
        using loop_run.complete [of pf "fst s" trace sv] run loop by simp
      then show ?thesis using loop by auto
    qed
  next
    case (work sv db d db')
    then show ?thesis using loop_run.work [of pf "fst s" trace sv d] run by auto
  qed
qed

end
