(* ===== verification/Server_Lines.thy ===== *)
theory Server_Lines
  imports System
begin

text \<open>
  What a line of a client does, exactly. When the kernel takes what is submitted (\<open>roomy\<close>), posting an
  operation never fails; then every line is handled, except for coordinates that do not fit: those
  throw out of the event loop or overflow.
\<close>

section \<open>A ring with room\<close>

definition submits_all :: "platform \<Rightarrow> bool" where
  "submits_all pf \<longleftrightarrow> (\<forall>r. pf_submit pf r = int (length (ring_sq r)))"

definition roomy :: "platform \<Rightarrow> server \<Rightarrow> bool" where
  "roomy pf sv \<longleftrightarrow> submits_all pf \<and> 0 < ring_entries (sv_ring sv)"

definition room_kept :: "platform \<Rightarrow> server \<Rightarrow> server \<Rightarrow> bool" where
  "room_kept pf sv sv' \<longleftrightarrow> same_world sv sv' \<and> roomy pf sv'"

lemma get_sqe_room:
  assumes "submits_all pf" and "0 < ring_entries r"
  shows "returns (get_sqe pf r) (\<lambda>r'. ring_entries r' = ring_entries r)"
  using assms by (simp add: get_sqe_def submits_all_def kernel_takes_def Let_def)

lemma push_sqe_room:
  assumes "roomy pf sv"
  shows "returns (push_sqe pf token sv) (\<lambda>sv'. roomy pf sv' \<and> sv_world sv' = sv_world sv)"
  using assms get_sqe_room [of pf "sv_ring sv"]
  by (auto simp: push_sqe_def roomy_def returns_iff)

lemma roomy_cong: "roomy pf sv \<Longrightarrow> sv_ring sv' = sv_ring sv \<Longrightarrow> roomy pf sv'"
  by (simp add: roomy_def)

lemma roomy_update [simp]: "roomy pf (update_session fd f sv) = roomy pf sv"
  by (simp add: roomy_def update_session_def)

lemma post_send_room:
  assumes "roomy pf sv"
  shows "returns (post_send pf fd sv) (roomy pf)"
  using assms
  by (auto simp: post_send_def split: option.splits intro!: returns_mono [OF push_sqe_room])

lemma respond_room:
  assumes "roomy pf sv"
  shows "returns (queue_response pf fd generation line sv) (room_kept pf sv)"
proof -
  have "returns (queue_response pf fd generation line sv) (roomy pf)"
    using assms post_send_room by (simp add: queue_response_def)
  then show ?thesis
    using ensuresD [OF same_world_respond] by (auto simp: returns_iff room_kept_def)
qed

lemma room_kept_refl: "roomy pf sv \<Longrightarrow> room_kept pf sv sv"
  by (simp add: room_kept_def)

lemma room_kept_trans: "room_kept pf sv sv1 \<Longrightarrow> room_kept pf sv1 sv2 \<Longrightarrow> room_kept pf sv sv2"
  using same_world_trans by (auto simp: room_kept_def)

lemma deliver_room:
  "roomy pf sv \<Longrightarrow> returns (deliver_world_events pf events sv) (room_kept pf sv)"
  unfolding deliver_world_events_def
proof (induction events arbitrary: sv)
  case Nil
  then show ?case by (simp add: room_kept_refl)
next
  case (Cons e events)
  show ?case
    unfolding fold_result.simps
  proof (rule returns_bind [OF respond_room [OF Cons.prems]])
    fix sv1 assume k: "room_kept pf sv sv1"
    then have "roomy pf sv1" by (simp add: room_kept_def)
    from Cons.IH [OF this] show "returns (fold_result (\<lambda>event. queue_response pf (sr_fd (receiver event))
        (sr_generation (receiver event)) (event_line event)) events sv1) (room_kept pf sv)"
      by (rule returns_mono) (rule room_kept_trans [OF k])
  qed
qed

lemma farewell_room:
  assumes "roomy pf sv"
  shows "returns (farewell pf fd generation line sv) (roomy pf)"
  unfolding farewell_def
  by (rule returns_bind [OF respond_room [OF assms]]) (simp add: room_kept_def)

lemma roomy_job [simp]: "roomy pf (submit_job j sv) = roomy pf sv"
  "roomy pf (submit_position_save fd generation account character x y sv) = roomy pf sv"
  by (simp_all add: roomy_def submit_job_def submit_position_save_def)

text \<open>Installing a world and delivering its events always succeeds.\<close>

lemma world_room:
  "roomy pf sv \<Longrightarrow> returns (deliver_world_events pf events (sv\<lparr>sv_world := w\<rparr>)) (roomy pf)"
  using deliver_room [of pf "sv\<lparr>sv_world := w\<rparr>" events] roomy_cong [of pf sv "sv\<lparr>sv_world := w\<rparr>"]
  by (auto simp: returns_iff room_kept_def)

section \<open>Which lines are handled\<close>

definition deadly :: "server \<Rightarrow> session_ref \<Rightarrow> string \<Rightarrow> bool" where
  "deadly sv ref line \<longleftrightarrow> ok (parse_line line) \<and>
     (let req = parsed_request (parse_line line); value_at = (\<lambda>i. signed_value (req_args req ! i)) in
      case req_type req of
        KEnterWorld \<Rightarrow> \<not> coords_ok (sv_world sv) (value_at 2) (value_at 3)
      | KMove \<Rightarrow> \<not> (in_i32 (value_at 0) \<and> in_i32 (value_at 1)) \<or>
          players (sv_world sv) ref \<noteq> None \<and> \<not> coords_ok (sv_world sv) (value_at 0) (value_at 1)
      | _ \<Rightarrow> False)"

lemma leave_and_save_room:
  assumes "world_inv (sv_world sv)" and "valid_order (pf_order pf)" and "roomy pf sv"
  shows "returns (leave_and_save pf fd generation sv) (roomy pf)"
proof -
  let ?ref = "\<lparr>sr_fd = fd, sr_generation = generation\<rparr>"
  obtain events snap where "world_leave (pf_order pf) (sv_world sv) ?ref no_snapshot =
      Inr (left_world (sv_world sv) ?ref, events, snap)"
    using leave_any [OF assms(1,2)] by blast
  then show ?thesis
    unfolding leave_and_save_def by (auto intro!: returns_bind [OF world_room [OF assms(3)]])
qed

lemma quit_room:
  assumes "world_ok sv" and "valid_order (pf_order pf)" and "roomy pf sv"
  shows "returns (handle_quit pf fd generation sv) (roomy pf)"
  unfolding handle_quit_def
  using assms(1) by (intro returns_bind [OF leave_and_save_room [OF _ assms(2,3)]] farewell_room)
    (simp_all add: world_ok_def)

lemma enter_room:
  assumes "world_ok sv" and "valid_order (pf_order pf)" and "roomy pf sv"
    and "is_signed_number x" and "is_signed_number y"
  shows "returns (handle_enter pf fd generation [account, character, x, y] sv) (\<lambda>_. True) \<longleftrightarrow>
    coords_ok (sv_world sv) (signed_value x) (signed_value y)"
proof -
  let ?ref = "\<lparr>sr_fd = fd, sr_generation = generation\<rparr>"
  let ?x = "signed_value x" and ?y = "signed_value y"
  have wi: "world_inv (sv_world sv)" using assms(1) by (simp add: world_ok_def)
  show ?thesis
  proof (cases "in_i32 ?x \<and> in_i32 ?y")
    case False
    then show ?thesis using assms(4,5)
      by (auto simp: handle_enter_def stoi_signed coords_ok_def safe_coord_def)
  next
    case True
    have eq: "handle_enter pf fd generation [account, character, x, y] sv =
        bind_result (world_enter (pf_order pf) (sv_world sv) ?ref account character ?x ?y) (\<lambda>(world, events).
        bind_result (deliver_world_events pf events (sv\<lparr>sv_world := world\<rparr>)) (\<lambda>sv1.
        Inr (submit_position_save fd generation account character ?x ?y sv1)))"
      using True assms(4,5) by (simp add: handle_enter_def stoi_signed)
    show ?thesis
    proof (cases "coords_ok (sv_world sv) ?x ?y")
      case True
      then obtain w events where "world_enter (pf_order pf) (sv_world sv) ?ref account character ?x ?y = Inr (w, events)"
        using enter_any [OF wi assms(2)] by blast
      with True show ?thesis
        unfolding eq by (auto intro!: returns_bind [OF world_room [OF assms(3)]])
    next
      case False
      then show ?thesis
        unfolding eq using enter_unsafe [OF wi assms(2)] \<open>in_i32 ?x \<and> in_i32 ?y\<close> by simp
    qed
  qed
qed

lemma move_room:
  assumes "world_ok sv" and "valid_order (pf_order pf)" and "roomy pf sv"
    and "is_signed_number x" and "is_signed_number y"
    and ref_def: "ref = \<lparr>sr_fd = fd, sr_generation = generation\<rparr>"
  shows "returns (handle_move pf fd generation [x, y] sv) (\<lambda>_. True) \<longleftrightarrow>
    in_i32 (signed_value x) \<and> in_i32 (signed_value y) \<and>
    (players (sv_world sv) ref \<noteq> None \<longrightarrow> coords_ok (sv_world sv) (signed_value x) (signed_value y))"
proof -
  let ?x = "signed_value x" and ?y = "signed_value y"
  have wi: "world_inv (sv_world sv)" using assms(1) by (simp add: world_ok_def)
  show ?thesis
  proof (cases "in_i32 ?x \<and> in_i32 ?y")
    case False
    then show ?thesis using assms(4,5) by (auto simp: handle_move_def stoi_signed)
  next
    case True
    have eq: "handle_move pf fd generation [x, y] sv =
        bind_result (world_move (pf_order pf) (sv_world sv) ref ?x ?y) (\<lambda>(world, events).
        deliver_world_events pf events (sv\<lparr>sv_world := world\<rparr>))"
      using True assms(4,5) by (simp add: handle_move_def stoi_signed ref_def)
    have ret: "returns (handle_move pf fd generation [x, y] sv) (\<lambda>_. True)"
      if "world_move (pf_order pf) (sv_world sv) ref ?x ?y = Inr (w, events)" for w events
      unfolding eq that bind_result.simps prod.case by (rule returns_mono [OF world_room [OF assms(3)]]) simp
    show ?thesis
    proof (cases "players (sv_world sv) ref")
      case None
      then show ?thesis using ret True by (simp add: world_move_def)
    next
      case (Some p)
      show ?thesis
      proof (cases "coords_ok (sv_world sv) ?x ?y")
        case True
        then show ?thesis
          using ret move_present [OF wi assms(2) Some True] \<open>in_i32 ?x \<and> in_i32 ?y\<close> by blast
      next
        case False
        then show ?thesis
          unfolding eq using move_unsafe [OF wi Some] Some True by simp
      qed
    qed
  qed
qed

lemma attack_room:
  assumes "world_ok sv" and "valid_order (pf_order pf)" and "roomy pf sv"
  shows "returns (handle_attack pf fd generation [skill, target] sv) (roomy pf)"
proof -
  let ?ref = "\<lparr>sr_fd = fd, sr_generation = generation\<rparr>"
  have wi: "world_inv (sv_world sv)" using assms(1) by (simp add: world_ok_def)
  have "\<exists>w events. world_attack (pf_order pf) (sv_world sv) ?ref skill target = Inr (w, events)"
  proof (cases "players (sv_world sv) ?ref")
    case None
    then show ?thesis by (simp add: world_attack_def)
  next
    case (Some p)
    then show ?thesis using attack_present [OF wi assms(2) Some] by blast
  qed
  then show ?thesis by (auto simp: handle_attack_def world_room [OF assms(3)])
qed

lemma database_room:
  assumes "roomy pf sv" and "is_database_command (req_type req)"
  shows "returns (handle_database pf fd generation req sv) (roomy pf)"
proof -
  obtain operation where "operation_for (req_type req) = Inr operation"
    using assms(2) by (cases "req_type req") (auto simp: operation_for_def is_database_command_def)
  moreover have "roomy pf (update_session fd f (sv\<lparr>sv_next_request_id := n\<rparr>))" for f n
    using roomy_cong [OF assms(1)] by simp
  ultimately show ?thesis
    unfolding handle_database_def Let_def
    by (auto intro!: returns_bind [OF respond_room] simp: room_kept_def)
qed

lemma line_returns_iff:
  assumes ok: "world_ok sv" and ord: "valid_order (pf_order pf)" and room: "roomy pf sv"
  shows "returns (handle_client_line pf fd generation line sv) (\<lambda>_. True) \<longleftrightarrow>
    \<not> deadly sv \<lparr>sr_fd = fd, sr_generation = generation\<rparr> line"
proof (cases "ok (parse_line line)")
  case False
  then show ?thesis
    using returns_mono [OF respond_room [OF room] TrueI, of fd generation "''ERR '' @ parse_message (parse_line line)"]
    by (simp add: handle_client_line_def deadly_def)
next
  case True
  let ?req = "parsed_request (parse_line line)"
  have v: "valid_request ?req" using True by (rule ok_valid)
  note never = returns_mono [OF _ TrueI]
  show ?thesis
  proof (cases "req_type ?req")
    case KEnterWorld
    with v obtain a c x y where args: "req_args ?req = [a, c, x, y]"
        and num: "is_signed_number x" "is_signed_number y"
      by (auto simp: valid_request_def elim!: args_allowed.elims)
    show ?thesis
      using enter_room [OF ok ord room num, of fd generation a c] True KEnterWorld args
      by (simp add: handle_client_line_def deadly_def is_world_command_def Let_def)
  next
    case KMove
    with v obtain x y where args: "req_args ?req = [x, y]"
        and num: "is_signed_number x" "is_signed_number y"
      by (auto simp: valid_request_def elim!: args_allowed.elims)
    show ?thesis
      using move_room [OF ok ord room num refl, of fd generation] True KMove args
      by (auto simp: handle_client_line_def deadly_def is_world_command_def Let_def)
  next
    case KAttack
    with v obtain x y where args: "req_args ?req = [x, y]"
      by (auto simp: valid_request_def elim!: args_allowed.elims)
    show ?thesis
      using never [OF attack_room [OF ok ord room, of fd generation x y]] True KAttack args
      by (simp add: handle_client_line_def deadly_def is_world_command_def Let_def)
  next
    case KQuit
    show ?thesis
      using never [OF quit_room [OF ok ord room, of fd generation]] True KQuit
      by (simp add: handle_client_line_def deadly_def Let_def)
  next
    case KUnknown
    with v show ?thesis by (simp add: valid_request_def)
  qed (use never [OF database_room [OF room, of ?req fd generation]] True in
      \<open>simp_all add: handle_client_line_def deadly_def Let_def is_world_command_def is_database_command_def\<close>)
qed

end
