(* ===== verification/Server_Demo.thy ===== *)
theory Server_Demo
  imports Server_Lines
begin

text \<open>
  A concrete run of the program, for the witnesses: a kernel that takes everything it is given, a
  start with the default configuration, and one client on descriptor 5.
\<close>

definition demo_platform :: platform where
  "demo_platform = \<lparr>pf_submit = \<lambda>r. int (length (ring_sq r)), pf_strerror = \<lambda>_. ''error'',
     pf_order = sorted_order\<rparr>"

definition demo_app :: app_config where
  "demo_app = \<lparr>app_server = default_server_config, app_database = default_database_config\<rparr>"

definition empty_world :: sector_world where
  "empty_world = \<lparr>sector_size = 100, view_radius = 1, players = Map.empty, sectors = Map.empty\<rparr>"

text \<open>The server before its loop, with the queues of its ring.\<close>

definition demo_server :: "completion_token list \<Rightarrow> completion_token list \<Rightarrow> server" where
  "demo_server sq inflight = (server_new default_server_config
     (dispatcher_start (dispatcher_new default_database_config)) empty_world)\<lparr>sv_listen_fd := 3,
       sv_ring := \<lparr>ring_entries = 512, ring_sq = sq, ring_inflight = inflight\<rparr>\<rparr>"

definition demo_hello :: completion_token where
  "demo_hello = send_token 5 1 (terminated hello_line)"

definition demo_recv :: completion_token where
  "demo_recv = new_token\<lparr>t_type := KRecv, t_fd := 5, t_generation := 1, t_buffer := 4096\<rparr>"

definition demo_session :: session where
  "demo_session = \<lparr>s_fd = 5, s_generation = 1, s_input = '''', s_outbox = [terminated hello_line],
     s_write_in_flight = True, s_close_after_flush = False, s_pending_db = 0\<rparr>"

definition demo_connected :: "completion_token list \<Rightarrow> completion_token list \<Rightarrow> server" where
  "demo_connected sq inflight = (demo_server sq inflight)\<lparr>sv_next_session_generation := 2,
     sv_sessions := [5 \<mapsto> demo_session]\<rparr>"

lemma demo_platform_ok [simp]:
  "submits_all demo_platform" "valid_order (pf_order demo_platform)"
  "pf_order demo_platform = sorted_order"
  by (simp_all add: demo_platform_def submits_all_def valid_sorted_order)

lemma demo_start:
  "program_start demo_platform demo_app 3 512 = Inr (demo_server [accept_token, poll_token] [])"
  by (simp add: program_start_def make_sector_world_def run_begin_def post_accept_def
      post_eventfd_poll_def push_sqe_def get_sqe_def server_new_def demo_server_def empty_world_def
      demo_app_def accept_token_def poll_token_def)

lemma demo_sqe:
  "length sq < 512 \<Longrightarrow> push_sqe pf token (demo_connected sq inflight) =
     Inr (demo_connected (sq @ [token]) inflight)"
  by (simp add: push_sqe_def get_sqe_def demo_connected_def demo_server_def)

lemma demo_accepts:
  "on_accept demo_platform 5 (take_token accept_token (demo_server [] [accept_token, poll_token])) =
     Inr (demo_connected [demo_hello, demo_recv, accept_token] [poll_token])"
  by (simp add: on_accept_def open_session_def add_session_def queue_response_def post_send_def
      post_recv_def post_accept_def take_token_def demo_server_def session_matches_def
      update_session_def push_sqe_def get_sqe_def new_session_def demo_connected_def
      demo_session_def demo_hello_def demo_recv_def send_token_def server_new_def accept_token_def
      default_server_config_def Let_def)


text \<open>The greeting is sent: the session is idle, its receive in flight.\<close>

definition demo_idle :: "completion_token list \<Rightarrow> completion_token list \<Rightarrow> server" where
  "demo_idle sq inflight = (demo_connected sq inflight)\<lparr>
     sv_sessions := [5 \<mapsto> demo_session\<lparr>s_outbox := [], s_write_in_flight := False\<rparr>]\<rparr>"

definition demo_all :: "completion_token list" where
  "demo_all = [poll_token, demo_hello, demo_recv, accept_token]"

definition demo_rest :: "completion_token list" where
  "demo_rest = [poll_token, demo_recv, accept_token]"

lemma demo_tokens_differ [simp]:
  "demo_hello \<noteq> poll_token" "demo_recv \<noteq> poll_token" "demo_recv \<noteq> demo_hello"
  "poll_token \<noteq> demo_hello" "poll_token \<noteq> demo_recv" "demo_hello \<noteq> demo_recv"
  by (simp_all add: demo_hello_def demo_recv_def poll_token_def send_token_def new_token_def)

lemma demo_sends:
  "on_send demo_platform demo_hello (int (length (terminated hello_line)))
     (take_token demo_hello (demo_connected [] demo_all)) = Inr (demo_idle [] demo_rest)"
  by (simp add: on_send_def flush_front_def post_send_def maybe_close_after_flush_def take_token_def
      demo_connected_def demo_server_def session_matches_def update_session_def demo_session_def
      demo_hello_def send_token_def demo_idle_def demo_all_def demo_rest_def Let_def
      demo_tokens_differ [unfolded demo_hello_def send_token_def])

definition demo_reached :: "server \<Rightarrow> bool" where
  "demo_reached sv \<longleftrightarrow> reachable down_mysql demo_platform demo_app () (sv, ())"

lemma demo_steps:
  "(loop_step demo_platform)\<^sup>*\<^sup>* sv sv' \<Longrightarrow> demo_reached sv \<Longrightarrow> demo_reached sv'"
  by (induction rule: rtranclp_induct)
    (auto simp: demo_reached_def intro: reachable.step system_step.loop)

lemma demo_accept_run: "(loop_step demo_platform)\<^sup>*\<^sup>* (demo_server [accept_token, poll_token] [])
    (demo_connected [] demo_all)"
proof -
  have "loop_step demo_platform (demo_server [accept_token, poll_token] [])
      (demo_server [] [accept_token, poll_token])"
    using loop_step.submitted [of demo_platform "demo_server [accept_token, poll_token] []" 2]
    by (simp add: demo_server_def kernel_takes_def numeral_2_eq_2)
  moreover have "loop_step demo_platform (demo_server [] [accept_token, poll_token])
      (demo_connected [demo_hello, demo_recv, accept_token] [poll_token])"
  proof (rule loop_step.completed [of accept_token])
    show "outcome_ok (demo_server [] [accept_token, poll_token]) accept_token 5 []"
      by (simp add: outcome_ok_def demo_server_def server_new_def)
    show "dispatch demo_platform accept_token 5 [] (take_token accept_token
        (demo_server [] [accept_token, poll_token])) =
      Inr (demo_connected [demo_hello, demo_recv, accept_token] [poll_token])"
      using demo_accepts by (simp add: dispatch_def)
  qed (simp add: demo_server_def)
  moreover have "loop_step demo_platform (demo_connected [demo_hello, demo_recv, accept_token] [poll_token])
      (demo_connected [] demo_all)"
    using loop_step.submitted [of demo_platform
        "demo_connected [demo_hello, demo_recv, accept_token] [poll_token]" 3]
    by (simp add: demo_connected_def demo_server_def demo_all_def kernel_takes_def server_new_def)
  ultimately show ?thesis
    by (metis (no_types, lifting) converse_rtranclp_into_rtranclp r_into_rtranclp)
qed

lemma demo_send_run:
  "loop_step demo_platform (demo_connected [] demo_all) (demo_idle [] demo_rest)"
proof (rule loop_step.completed [of demo_hello])
  show "demo_hello \<in> set (ring_inflight (sv_ring (demo_connected [] demo_all)))"
    by (simp add: demo_connected_def demo_server_def demo_all_def)
  show "outcome_ok (demo_connected [] demo_all) demo_hello (int (length (terminated hello_line))) []"
    by (simp add: outcome_ok_def demo_hello_def)
  show "dispatch demo_platform demo_hello (int (length (terminated hello_line))) []
      (take_token demo_hello (demo_connected [] demo_all)) = Inr (demo_idle [] demo_rest)"
    using demo_sends by (simp add: dispatch_def) (simp add: demo_hello_def)
qed

lemma demo_reaches:
  "demo_reached (demo_server [accept_token, poll_token] [])"
  "demo_reached (demo_connected [] demo_all)" "demo_reached (demo_idle [] demo_rest)"
proof -
  show start: "demo_reached (demo_server [accept_token, poll_token] [])"
    unfolding demo_reached_def by (rule reachable.start [OF demo_start])
  show "demo_reached (demo_connected [] demo_all)" using demo_steps [OF demo_accept_run start] .
  then show "demo_reached (demo_idle [] demo_rest)" using demo_steps demo_send_run by blast
qed


section \<open>The client enters the world\<close>

definition demo_ref :: session_ref where
  "demo_ref = \<lparr>sr_fd = 5, sr_generation = 1\<rparr>"

definition demo_line :: string where
  "demo_line = ''ENTER anna main 120 80''"

definition demo_player :: player_state where
  "demo_player = \<lparr>ps_ref = demo_ref, ps_account = ''anna'', ps_character = ''main'', ps_x = 120,
     ps_y = 80, ps_sector = \<lparr>sc_x = 1, sc_y = 0\<rparr>\<rparr>"

definition demo_save :: db_job where
  "demo_save = \<lparr>job_client_fd = 5, job_client_generation = 1, job_request_id = 1,
     job_operation = DbSavePosition, job_command_name = ''SAVE_POSITION'',
     job_args = [''anna'', ''main'', ''120'', ''80''], job_notify_client = False\<rparr>"

definition demo_entered_send :: completion_token where
  "demo_entered_send = send_token 5 1 (terminated (entered_line demo_player))"

definition demo_entered :: "completion_token list \<Rightarrow> completion_token list \<Rightarrow> server" where
  "demo_entered sq inflight = (demo_connected sq inflight)\<lparr>
     sv_world := add_player empty_world demo_ref demo_player,
     sv_database := submit demo_save (dispatcher_start (dispatcher_new default_database_config)),
     sv_next_request_id := 2,
     sv_sessions := [5 \<mapsto> demo_session\<lparr>s_outbox := [terminated (entered_line demo_player)]\<rparr>]\<rparr>"

lemma empty_world_inv: "world_inv empty_world"
  using make_sector_world_inv [of 100 1 empty_world]
  by (simp add: make_sector_world_def empty_world_def INT_MAX_def)

lemma single_inbox:
  assumes "\<forall>q. q \<noteq> ref \<longrightarrow> inbox q events = []" and "inbox ref events = lines"
  shows "events = map (\<lambda>l. \<lparr>receiver = ref, event_line = l\<rparr>) lines"
  using assms
proof (induction events arbitrary: lines)
  case (Cons e events)
  have "receiver e = ref" using Cons.prems(1) by (cases "receiver e = ref") (auto simp: inbox_def)
  with Cons show ?case by (auto simp: inbox_def)
qed (simp add: inbox_def)

lemma demo_enters: "world_enter sorted_order empty_world demo_ref ''anna'' ''main'' 120 80 =
  Inr (add_player empty_world demo_ref demo_player,
    [\<lparr>receiver = demo_ref, event_line = entered_line demo_player\<rparr>])"
proof -
  have "coords_ok empty_world 120 80"
    by (simp add: coords_ok_def safe_coord_def i32_simps empty_world_def)
  moreover have "placed empty_world demo_ref ''anna'' ''main'' 120 80 = demo_player"
    by (simp add: placed_def cell_at_def empty_world_def demo_player_def)
  moreover have "left_world empty_world demo_ref = empty_world"
    by (simp add: left_world_def empty_world_def)
  moreover have "\<not> sees empty_world q c" "leave_news empty_world demo_ref q = []" for q c
    by (simp_all add: sees_def leave_news_def empty_world_def)
  ultimately obtain events where e:
      "world_enter sorted_order empty_world demo_ref ''anna'' ''main'' 120 80 =
        Inr (add_player empty_world demo_ref demo_player, events)"
      "\<forall>q. q \<noteq> demo_ref \<longrightarrow> inbox q events = []"
      "inbox demo_ref events = [entered_line demo_player]"
    using enter_any [OF empty_world_inv valid_sorted_order, of 120 80 demo_ref "''anna''" "''main''"]
    by (auto simp: snapshot_lines_def)
  from single_inbox [OF e(2,3)] e(1) show ?thesis by simp
qed

lemma demo_parse: "parse_line demo_line = parse_ok KEnterWorld ''ENTER'' [''anna'', ''main'', ''120'', ''80'']"
  unfolding demo_line_def by code_simp


lemma demo_numbers: "stoi ''120'' = Inr 120" "stoi ''80'' = Inr 80"
    "to_string_int 120 = ''120''" "to_string_int 80 = ''80''"
  by code_simp+

lemma demo_take_line: "take_line (demo_line @ [CHR 0x0A]) = Some (demo_line, [])"
  unfolding demo_line_def by code_simp

lemma take_line_Nil: "take_line [] = None"
  by (simp add: take_line_def)

lemma demo_handles:
  "handle_client_line demo_platform 5 1 demo_line (demo_idle [] [poll_token, accept_token]) =
     Inr (demo_entered [demo_entered_send] [poll_token, accept_token])"
proof -
  have ref: "\<lparr>sr_fd = 5, sr_generation = 1\<rparr> = demo_ref" by (simp add: demo_ref_def)
  have sel: "sr_fd demo_ref = 5" "sr_generation demo_ref = 1" by (simp_all add: demo_ref_def)
  have "handle_enter demo_platform 5 1 [''anna'', ''main'', ''120'', ''80'']
      (demo_idle [] [poll_token, accept_token]) =
    Inr (demo_entered [demo_entered_send] [poll_token, accept_token])"
    unfolding handle_enter_def
    by (simp add: ref demo_numbers demo_idle_def demo_connected_def demo_server_def server_new_def demo_enters
        deliver_world_events_def sel queue_response_def session_matches_def demo_session_def
        post_send_def update_session_def push_sqe_def get_sqe_def submit_position_save_def
        submit_job_def demo_save_def demo_entered_def demo_entered_send_def send_token_def)
  then show ?thesis by (simp add: handle_client_line_def demo_parse is_world_command_def Let_def)
qed

definition demo_busy :: "completion_token list" where
  "demo_busy = [poll_token, accept_token, demo_entered_send, demo_recv]"

lemma demo_receives:
  "on_recv demo_platform demo_recv 23 (demo_line @ [CHR 0x0A]) (take_token demo_recv (demo_idle [] demo_rest)) =
     Inr (demo_entered [demo_entered_send, demo_recv] [poll_token, accept_token])"
proof -
  let ?sv = "take_token demo_recv (demo_idle [] demo_rest)"
  let ?sv1 = "update_session 5 (s_input_update (\<lambda>input. input @ demo_line @ [CHR 0x0A])) ?sv"
  have rest0: "update_session 5 (s_input_update (\<lambda>_. [])) ?sv1 = demo_idle [] [poll_token, accept_token]"
    by (simp add: demo_idle_def demo_rest_def demo_connected_def demo_server_def server_new_def
        take_token_def update_session_def demo_session_def)
  have s1: "sv_sessions ?sv1 5 = Some (demo_session\<lparr>s_outbox := [], s_write_in_flight := False,
      s_input := demo_line @ [CHR 0x0A]\<rparr>)"
    by (simp add: update_session_def demo_idle_def demo_session_def)
  have s2: "sv_sessions (demo_entered [demo_entered_send] [poll_token, accept_token]) 5 =
      Some (demo_session\<lparr>s_outbox := [terminated (entered_line demo_player)]\<rparr>)"
    by (simp add: demo_entered_def)
  have "process_lines demo_platform 5 1 ?sv1 =
      Inr (demo_entered [demo_entered_send] [poll_token, accept_token])"
    unfolding process_lines.simps [of demo_platform 5 1 ?sv1] s1
    by (simp add: demo_take_line rest0 demo_handles demo_session_def s2 [unfolded demo_session_def]
        session_matches_def is_closing_def process_lines.simps [of demo_platform 5 1 "demo_entered x y" for x y]
        take_line_Nil)
  moreover have "t_fd demo_recv = 5" "t_generation demo_recv = 1" by (simp_all add: demo_recv_def)
  moreover have "session_matches ?sv 5 1" 
    by (simp add: session_matches_def demo_idle_def demo_session_def)
  moreover have "session_matches (demo_entered x y) 5 1" "\<not> too_long (demo_entered x y) 5"
    "\<not> is_closing (demo_entered x y) 5" for x y
    by (simp_all add: session_matches_def too_long_def input_length_def is_closing_def demo_entered_def
        demo_session_def)
  moreover have "post_recv demo_platform 5 1 (demo_entered [demo_entered_send] [poll_token, accept_token]) =
      Inr (demo_entered [demo_entered_send, demo_recv] [poll_token, accept_token])"
    by (simp add: post_recv_def push_sqe_def get_sqe_def demo_entered_def demo_connected_def
        demo_server_def server_new_def demo_recv_def default_server_config_def)
  ultimately show ?thesis by (simp add: on_recv_def Let_def)
qed

lemma demo_receive_run: "(loop_step demo_platform)\<^sup>*\<^sup>* (demo_idle [] demo_rest) (demo_entered [] demo_busy)"
proof -
  have "loop_step demo_platform (demo_idle [] demo_rest)
      (demo_entered [demo_entered_send, demo_recv] [poll_token, accept_token])"
  proof (rule loop_step.completed [of demo_recv])
    show "outcome_ok (demo_idle [] demo_rest) demo_recv 23 (demo_line @ [CHR 0x0A])"
      by (simp add: outcome_ok_def demo_recv_def demo_line_def)
    show "dispatch demo_platform demo_recv 23 (demo_line @ [CHR 0x0A])
        (take_token demo_recv (demo_idle [] demo_rest)) =
      Inr (demo_entered [demo_entered_send, demo_recv] [poll_token, accept_token])"
      using demo_receives by (simp add: dispatch_def) (simp add: demo_recv_def)
  qed (simp add: demo_idle_def demo_connected_def demo_server_def demo_rest_def)
  moreover have "loop_step demo_platform
      (demo_entered [demo_entered_send, demo_recv] [poll_token, accept_token]) (demo_entered [] demo_busy)"
    using loop_step.submitted [of demo_platform
        "demo_entered [demo_entered_send, demo_recv] [poll_token, accept_token]" 2]
    by (simp add: demo_entered_def demo_connected_def demo_server_def demo_busy_def kernel_takes_def
        server_new_def)
  ultimately show ?thesis
    by (metis (no_types, lifting) converse_rtranclp_into_rtranclp r_into_rtranclp)
qed

lemma demo_entered_reached: "demo_reached (demo_entered [] demo_busy)"
  using demo_steps [OF demo_receive_run demo_reaches(3)] .


text \<open>The client disconnects.\<close>

definition demo_gone :: server where
  "demo_gone = (demo_connected [] [poll_token, accept_token])\<lparr>sv_sessions := Map.empty, sv_closed := [5]\<rparr>"

lemma demo_disconnects:
  "on_recv demo_platform demo_recv 0 [] (take_token demo_recv (demo_idle [] demo_rest)) = Inr demo_gone"
proof -
  have "t_fd demo_recv = 5" "t_generation demo_recv = 1" by (simp_all add: demo_recv_def)
  moreover have "leave_and_save demo_platform 5 1 sv = Inr sv" if "sv_world sv = empty_world" for sv
    using that leave_absent [of empty_world "\<lparr>sr_fd = 5, sr_generation = 1\<rparr>" sorted_order no_snapshot]
    by (simp add: leave_and_save_def deliver_world_events_def empty_world_def no_snapshot_def)
  ultimately show ?thesis
    by (simp add: on_recv_def session_matches_def close_session_def demo_idle_def demo_connected_def
        demo_server_def server_new_def take_token_def demo_session_def demo_rest_def demo_gone_def)
qed

lemma demo_gone_run: "loop_run demo_platform (demo_idle [] demo_rest) [(demo_recv, 0, [])] demo_gone"
  using loop_run.complete [OF loop_run.start, of demo_recv "demo_idle [] demo_rest" 0 "[]" demo_platform
      demo_gone] demo_disconnects
  by (simp add: dispatch_def outcome_ok_def demo_idle_def demo_connected_def demo_server_def demo_rest_def)
    (simp add: demo_recv_def)

lemma demo_send_trace: "loop_run demo_platform (demo_connected [] demo_all)
    [(demo_hello, int (length (terminated hello_line)), [])] (demo_idle [] demo_rest)"
  using loop_run.complete [OF loop_run.start, of demo_hello "demo_connected [] demo_all"
      "int (length (terminated hello_line))" "[]" demo_platform "demo_idle [] demo_rest"] demo_sends
  by (simp add: dispatch_def outcome_ok_def demo_connected_def demo_server_def demo_all_def)
    (simp add: demo_hello_def)


section \<open>A client that asks and leaves at once\<close>

definition demo_pending_line :: string where "demo_pending_line = ''PENDING 1 LOGIN''"

definition demo_asked_session :: session where
  "demo_asked_session = demo_session\<lparr>s_outbox := [terminated demo_pending_line], s_pending_db := 1,
     s_input := ''QUIT'' @ [CHR 0x0A]\<rparr>"

definition demo_asked :: "completion_token list \<Rightarrow> completion_token list \<Rightarrow> server" where
  "demo_asked sq inflight = (demo_connected sq inflight)\<lparr>
     sv_database := submit (demo_job 1) (dispatcher_start (dispatcher_new default_database_config)),
     sv_next_request_id := 2, sv_sessions := [5 \<mapsto> demo_asked_session]\<rparr>"

definition demo_leaving :: "string list \<Rightarrow> completion_token list \<Rightarrow> completion_token list \<Rightarrow> server" where
  "demo_leaving outbox sq inflight = (demo_asked sq inflight)\<lparr>sv_sessions := [5 \<mapsto>
     demo_asked_session\<lparr>s_outbox := outbox, s_close_after_flush := True, s_input := ''''\<rparr>]\<rparr>"

definition demo_pending_send :: completion_token where
  "demo_pending_send = send_token 5 1 (terminated demo_pending_line)"

definition demo_bye_send :: completion_token where
  "demo_bye_send = send_token 5 1 (terminated ''BYE'')"

lemma demo_command_lines:
  "parse_line ''LOGIN anna'' = parse_ok KLogin ''LOGIN'' [''anna'']"
  "parse_line ''QUIT'' = parse_ok KQuit ''QUIT'' []"
  "take_line (''LOGIN anna'' @ [CHR 0x0A] @ ''QUIT'' @ [CHR 0x0A]) = Some (''LOGIN anna'', ''QUIT'' @ [CHR 0x0A])"
  "take_line (''QUIT'' @ [CHR 0x0A]) = Some (''QUIT'', [])"
  "to_string_word (1 :: 64 word) = ''1''"
  by code_simp+

lemma demo_handles_login:
  assumes "sv = (demo_idle [] [poll_token, accept_token])\<lparr>sv_sessions := [5 \<mapsto> demo_session\<lparr>
      s_outbox := [], s_write_in_flight := False, s_input := ''QUIT'' @ [CHR 0x0A]\<rparr>]\<rparr>"
  shows "handle_client_line demo_platform 5 1 ''LOGIN anna'' sv =
    Inr (demo_asked [demo_pending_send] [poll_token, accept_token])"
  unfolding assms
  by (simp add: handle_client_line_def demo_command_lines is_world_command_def is_database_command_def
      handle_database_def operation_for_def demo_idle_def demo_connected_def demo_server_def
      server_new_def update_session_def queue_response_def session_matches_def demo_session_def
      post_send_def push_sqe_def get_sqe_def submit_job_def demo_asked_def demo_asked_session_def
      demo_pending_line_def demo_pending_send_def send_token_def demo_job_def Let_def)

lemma demo_handles_quit:
  assumes "sv = (demo_asked [demo_pending_send] [poll_token, accept_token])\<lparr>sv_sessions :=
      [5 \<mapsto> demo_asked_session\<lparr>s_input := ''''\<rparr>]\<rparr>"
  shows "handle_client_line demo_platform 5 1 ''QUIT'' sv = Inr (demo_leaving
    [terminated demo_pending_line, terminated ''BYE''] [demo_pending_send] [poll_token, accept_token])"
proof -
  have "leave_and_save demo_platform 5 1 sv = Inr sv"
    using leave_absent [of empty_world "\<lparr>sr_fd = 5, sr_generation = 1\<rparr>" sorted_order no_snapshot]
    by (simp add: leave_and_save_def deliver_world_events_def empty_world_def no_snapshot_def assms
        demo_asked_def demo_connected_def demo_server_def server_new_def)
  then show ?thesis
    by (simp add: handle_client_line_def demo_command_lines handle_quit_def farewell_def
        queue_response_def session_matches_def post_send_def update_session_def assms demo_asked_def
        demo_connected_def demo_server_def server_new_def demo_asked_session_def demo_session_def
        demo_leaving_def Let_def)
qed


definition demo_request_bytes :: string where
  "demo_request_bytes = ''LOGIN anna'' @ [CHR 0x0A] @ ''QUIT'' @ [CHR 0x0A]"

lemma demo_asks:
  "on_recv demo_platform demo_recv 16 demo_request_bytes (take_token demo_recv (demo_idle [] demo_rest)) =
     Inr (demo_leaving [terminated demo_pending_line, terminated ''BYE''] [demo_pending_send]
       [poll_token, accept_token])"
proof -
  let ?sv = "take_token demo_recv (demo_idle [] demo_rest)"
  let ?sv1 = "update_session 5 (s_input_update (\<lambda>input. input @ demo_request_bytes)) ?sv"
  let ?sv2 = "demo_asked [demo_pending_send] [poll_token, accept_token]"
  let ?sv3 = "demo_leaving [terminated demo_pending_line, terminated ''BYE''] [demo_pending_send]
       [poll_token, accept_token]"
  have s1: "sv_sessions ?sv1 5 = Some (demo_session\<lparr>s_outbox := [], s_write_in_flight := False,
      s_input := demo_request_bytes\<rparr>)"
    by (simp add: update_session_def demo_idle_def demo_session_def)
  have s2: "sv_sessions ?sv2 5 = Some demo_asked_session" by (simp add: demo_asked_def)
  have line1: "handle_client_line demo_platform 5 1 ''LOGIN anna''
      (update_session 5 (s_input_update (\<lambda>_. ''QUIT'' @ [CHR 0x0A])) ?sv1) = Inr ?sv2"
    by (rule demo_handles_login) (simp add: demo_idle_def demo_rest_def demo_connected_def
        demo_server_def server_new_def take_token_def update_session_def demo_session_def)
  have line2: "handle_client_line demo_platform 5 1 ''QUIT''
      (update_session 5 (s_input_update (\<lambda>_. [])) ?sv2) = Inr ?sv3"
    by (rule demo_handles_quit) (simp add: demo_asked_def update_session_def)
  have input1: "take_line demo_request_bytes = Some (''LOGIN anna'', ''QUIT'' @ [CHR 0x0A])"
    unfolding demo_request_bytes_def by (rule demo_command_lines)
  have closing: "is_closing ?sv3 5" "session_matches ?sv3 5 1"
    by (simp_all add: is_closing_def session_matches_def demo_leaving_def demo_asked_session_def demo_session_def)
  have "session_matches ?sv2 5 1" "\<not> is_closing ?sv2 5"
    by (simp_all add: is_closing_def session_matches_def s2 demo_asked_session_def demo_session_def)
  moreover have "process_lines demo_platform 5 1 ?sv2 = Inr ?sv3"
    unfolding process_lines.simps [of demo_platform 5 1 ?sv2] s2
    using line2 closing by (simp add: demo_asked_session_def demo_command_lines [simplified] demo_session_def)
  ultimately have lines: "process_lines demo_platform 5 1 ?sv1 = Inr ?sv3"
    unfolding process_lines.simps [of demo_platform 5 1 ?sv1] s1
    using line1 by (simp add: input1 demo_session_def)
  have "t_fd demo_recv = 5" "t_generation demo_recv = 1" by (simp_all add: demo_recv_def)
  moreover have "session_matches ?sv 5 1"
    by (simp add: session_matches_def demo_idle_def demo_session_def)
  moreover have "\<not> too_long ?sv3 5" "maybe_close_after_flush demo_platform 5 ?sv3 = Inr ?sv3"
    by (simp_all add: too_long_def input_length_def maybe_close_after_flush_def demo_leaving_def
        demo_asked_session_def demo_session_def)
  ultimately show ?thesis using lines closing by (simp add: on_recv_def Let_def)
qed

definition demo_closing :: server where
  "demo_closing = demo_leaving [terminated ''BYE''] [] [poll_token, accept_token, demo_bye_send]"

lemma demo_first_sent:
  "on_send demo_platform demo_pending_send 16 (take_token demo_pending_send
     (demo_leaving [terminated demo_pending_line, terminated ''BYE''] [] [poll_token, accept_token, demo_pending_send])) =
   Inr (demo_leaving [terminated ''BYE''] [demo_bye_send] [poll_token, accept_token])"
proof -
  have "poll_token \<noteq> demo_pending_send" "accept_token \<noteq> demo_pending_send"
    by (simp_all add: poll_token_def accept_token_def demo_pending_send_def send_token_def new_token_def)
  then have taken: "take_token demo_pending_send (demo_leaving outbox [] [poll_token, accept_token, demo_pending_send]) =
      demo_leaving outbox [] [poll_token, accept_token]" for outbox
    by (simp add: take_token_def demo_leaving_def demo_asked_def demo_connected_def demo_server_def server_new_def)
  have "length (terminated demo_pending_line) = 16" by (simp add: terminated_def demo_pending_line_def)
  then show ?thesis
    unfolding taken
    by (simp add: on_send_def flush_front_def post_send_def maybe_close_after_flush_def push_sqe_def get_sqe_def
        session_matches_def update_session_def demo_leaving_def demo_asked_def demo_connected_def
        demo_server_def server_new_def demo_asked_session_def demo_session_def demo_pending_send_def
        demo_bye_send_def send_token_def Let_def)
qed

lemma demo_closing_run: "(loop_step demo_platform)\<^sup>*\<^sup>* (demo_idle [] demo_rest) demo_closing"
proof -
  note defs = demo_leaving_def demo_asked_def demo_idle_def demo_connected_def demo_server_def server_new_def
  let ?both = "[terminated demo_pending_line, terminated ''BYE'']"
  have "loop_step demo_platform (demo_idle [] demo_rest)
      (demo_leaving ?both [demo_pending_send] [poll_token, accept_token])"
    using demo_asks by (intro loop_step.completed [of demo_recv _ 16 demo_request_bytes])
      (simp add: defs demo_rest_def, simp add: outcome_ok_def demo_recv_def demo_request_bytes_def,
        simp add: dispatch_def, simp add: demo_recv_def)
  moreover have "loop_step demo_platform (demo_leaving ?both [demo_pending_send] [poll_token, accept_token])
      (demo_leaving ?both [] [poll_token, accept_token, demo_pending_send])"
    using loop_step.submitted [of demo_platform
        "demo_leaving ?both [demo_pending_send] [poll_token, accept_token]" 1]
    by (simp add: defs kernel_takes_def)
  moreover have "loop_step demo_platform (demo_leaving ?both [] [poll_token, accept_token, demo_pending_send])
      (demo_leaving [terminated ''BYE''] [demo_bye_send] [poll_token, accept_token])"
    using demo_first_sent by (intro loop_step.completed [of demo_pending_send _ 16 "[]"])
      (simp add: defs, simp add: outcome_ok_def demo_pending_send_def terminated_def demo_pending_line_def,
        simp add: dispatch_def, simp add: demo_pending_send_def)
  moreover have "loop_step demo_platform (demo_leaving [terminated ''BYE''] [demo_bye_send] [poll_token, accept_token])
      demo_closing"
    using loop_step.submitted [of demo_platform
        "demo_leaving [terminated ''BYE''] [demo_bye_send] [poll_token, accept_token]" 1]
    by (simp add: demo_closing_def defs kernel_takes_def)
  ultimately show ?thesis
    by (metis (no_types, lifting) converse_rtranclp_into_rtranclp r_into_rtranclp)
qed

lemma demo_closing_reached: "demo_reached demo_closing"
  using demo_steps [OF demo_closing_run demo_reaches(3)] .

end
