(* ===== verification/Server_Properties.thy ===== *)
theory Server_Properties
  imports Server_Demo
begin

text \<open>
  The properties of the event loop, over the reachable states of the program: the bookkeeping of
  sessions and operations, the world, the byte streams, identities and buffers; then what single
  lines and completions do.
\<close>

lemma reachable_server:
  assumes "reachable my pf config db0 (sv, db)" and "valid_order (pf_order pf)"
  shows "server_ok sv" and "inputs_ok sv"
  using reachable_ok [OF assms] by (simp_all add: system_ok_def)

text \<open>
  C1. The bookkeeping of the loop. In every reachable state each session is filed under its own
  descriptor, a send is in flight for it exactly while its outbox is not empty, that one send carries
  the front of the outbox, a closing session still has something to send, and exactly one receive is
  in flight unless the session is closing; one accept and one poll of the eventfd are in flight.
\<close>
theorem sessions_consistent:
  assumes "reachable my pf config db0 (sv, db)" and "valid_order (pf_order pf)"
    and "sv_sessions sv fd = Some s"
  shows "s_fd s = fd \<and> s_generation s < sv_next_session_generation sv \<and>
    (s_write_in_flight s \<longleftrightarrow> s_outbox s \<noteq> []) \<and> (s_close_after_flush s \<longrightarrow> s_outbox s \<noteq> []) \<and>
    sends_of sv fd (s_generation s) = (if s_outbox s = [] then {#}
      else {#send_token fd (s_generation s) (hd (s_outbox s))#}) \<and>
    recvs_of sv fd (s_generation s) = (if s_close_after_flush s then {#}
      else {#recv_token sv fd (s_generation s)#}) \<and>
    loop_tokens sv = {#accept_token, poll_token#}"
proof -
  have "session_ok {} None sv fd s" "loop_tokens sv = {#accept_token, poll_token#}"
    using reachable_server(1) [OF assms(1,2)] assms(3)
    by (auto simp: server_ok_def loop_inv_def server_inv_def)
  then show ?thesis by (auto simp: session_ok_def split: if_splits)
qed

lemma sessions_consistent_witness:
  "sends_of (demo_connected [] demo_all) 5 1 = {#demo_hello#} \<and>
   recvs_of (demo_connected [] demo_all) 5 1 = {#demo_recv#}"
proof -
  have "sv_sessions (demo_connected [] demo_all) 5 = Some demo_session"
    by (simp add: demo_connected_def)
  from sessions_consistent [OF demo_reaches(2) [unfolded demo_reached_def] demo_platform_ok(2) this]
  have "sends_of (demo_connected [] demo_all) 5 1 = {#send_token 5 1 (terminated hello_line)#}"
    "recvs_of (demo_connected [] demo_all) 5 1 = {#recv_token (demo_connected [] demo_all) 5 1#}"
    by (simp_all add: demo_session_def)
  moreover have "recv_token (demo_connected [] demo_all) 5 1 = demo_recv"
    by (simp add: recv_token_def demo_recv_def demo_connected_def demo_server_def server_new_def
        default_server_config_def)
  ultimately show ?thesis by (simp add: demo_hello_def)
qed





text \<open>
  C4. A stale completion never reaches a later client. Once the session of a generation is gone, no
  session of any descriptor carries that generation again, and a receive or send completion that
  still carries it changes nothing but its own token.
\<close>
theorem stale_generation_is_dead:
  assumes "reachable my pf config db0 (sv, db)" and "valid_order (pf_order pf)"
    and "loop_run pf sv trace sv'"
    and "g < sv_next_session_generation sv" and "\<not> session_matches sv fd g"
    and "t_type token = KRecv \<or> t_type token = KSend" and "t_fd token = fd" and "t_generation token = g"
  shows "\<not> session_matches sv' fd g \<and>
    dispatch pf token result data (take_token token sv') = Inr (take_token token sv')"
proof -
  have "\<not> session_matches sv' fd g"
    using run_identity(2) [OF assms(3) reachable_server(1) [OF assms(1,2)] assms(2,4)] assms(5) by blast
  with assms(6-8) show ?thesis
    by (auto simp: dispatch_def on_recv_def on_send_def Let_def)
qed

lemma stale_generation_is_dead_witness:
  "\<not> session_matches demo_gone 6 1 \<and> dispatch demo_platform (demo_recv\<lparr>t_fd := 6\<rparr>) 4 ''MOVE''
     (take_token (demo_recv\<lparr>t_fd := 6\<rparr>) demo_gone) = Inr (take_token (demo_recv\<lparr>t_fd := 6\<rparr>) demo_gone)"
  by (rule stale_generation_is_dead [OF demo_reaches(3) [unfolded demo_reached_def] demo_platform_ok(2)
      demo_gone_run])
    (simp_all add: demo_idle_def demo_connected_def session_matches_def demo_recv_def)

text \<open>
  C5. The input buffer is bounded. Between two completions, the input buffer of a session that still
  receives holds no complete line and at most \<open>max_line_size\<close> bytes.
\<close>
theorem input_buffer_bounded:
  assumes "reachable my pf config db0 (sv, db)" and "valid_order (pf_order pf)"
    and "sv_sessions sv fd = Some s" and "\<not> s_close_after_flush s"
  shows "length (s_input s) \<le> cfg_max_line_size (sv_config sv) \<and> CHR 0x0A \<notin> set (s_input s)"
  using reachable_server(2) [OF assms(1,2)] assms(3,4) by (auto simp: inputs_ok_def input_ok_def)

lemma input_buffer_bounded_witness:
  "length (s_input demo_session) \<le> 4096 \<and> CHR 0x0A \<notin> set (s_input demo_session)"
  using input_buffer_bounded [OF demo_reaches(2) [unfolded demo_reached_def] demo_platform_ok(2),
      of 5 demo_session]
  by (simp add: demo_connected_def demo_server_def server_new_def default_server_config_def demo_session_def)

text \<open>
  C16. Which lines are handled. In a reachable state with a kernel that takes what it is given, the
  handler of a line returns for every line whatsoever of a connected client, except an \<open>ENTER\<close> or
  \<open>MOVE\<close> whose coordinates do not fit an \<open>int\<close> (or the sector arithmetic): \<open>deadly\<close>.
\<close>
theorem line_is_handled_iff:
  assumes "reachable my pf config db0 (sv, db)" and "valid_order (pf_order pf)" and "roomy pf sv"
  shows "(\<exists>sv'. handle_client_line pf fd generation line sv = Inr sv') \<longleftrightarrow>
    \<not> deadly sv \<lparr>sr_fd = fd, sr_generation = generation\<rparr> line"
proof -
  have "world_ok sv" using reachable_server(1) [OF assms(1,2)] by (simp add: server_ok_def)
  from line_returns_iff [OF this assms(2,3)] show ?thesis by (simp add: returns_iff)
qed

lemma line_is_handled_iff_witness:
  "(\<exists>sv'. handle_client_line demo_platform 5 1 ''MOVE 2147483647 -1'' (demo_idle [] demo_rest) = Inr sv') \<and>
   (\<nexists>sv'. handle_client_line demo_platform 5 1 ''MOVE 2147483648 -1'' (demo_idle [] demo_rest) = Inr sv')"
proof -
  have "parse_line ''MOVE 2147483647 -1'' = parse_ok KMove ''MOVE'' [''2147483647'', ''-1'']"
    "parse_line ''MOVE 2147483648 -1'' = parse_ok KMove ''MOVE'' [''2147483648'', ''-1'']"
    by code_simp+
  moreover have "in_i32 (signed_value ''2147483647'')" "in_i32 (signed_value ''-1'')"
    "\<not> in_i32 (signed_value ''2147483648'')"
    by (simp_all add: signed_value_def nat_val_def digit_val_def i32_simps)
  moreover have "players (sv_world (demo_idle [] demo_rest)) ref = None" for ref
    by (simp add: demo_idle_def demo_connected_def demo_server_def server_new_def empty_world_def)
  moreover have "roomy demo_platform (demo_idle [] demo_rest)"
    by (simp add: roomy_def demo_idle_def demo_connected_def demo_server_def)
  ultimately show ?thesis
    using line_is_handled_iff [OF demo_reaches(3) [unfolded demo_reached_def] demo_platform_ok(2)]
    by (simp add: deadly_def)
qed

end
