(* ===== verification/Server_Effects.thy ===== *)
theory Server_Effects
  imports Server_Lines
begin

text \<open>
  What the operations of the event loop do, exactly, when the ring has room: every session that lives
  gets its lines at the end of its outbox (\<open>told\<close>), and nothing else about the server changes except
  what the operation says.
\<close>

text \<open>\<open>told ls s\<close> is a session after the replies \<open>ls\<close> have been queued for it.\<close>

definition told :: "string list \<Rightarrow> session \<Rightarrow> session" where
  "told ls s = foldl (\<lambda>s l. queued l s) s ls"

lemma told_simps [simp]:
  "told [] s = s" "told (l # ls) s = told ls (queued l s)" "told (ls @ ls') s = told ls' (told ls s)"
  by (simp_all add: told_def)

lemma queued_sel [simp]:
  "s_fd (queued l s) = s_fd s" "s_generation (queued l s) = s_generation s"
  "s_input (queued l s) = s_input s" "s_outbox (queued l s) = s_outbox s @ [terminated l]"
  "s_close_after_flush (queued l s) = s_close_after_flush s"
  "s_pending_db (queued l s) = s_pending_db s" "s_write_in_flight (queued l s)"
  by (simp_all add: queued_def)

lemma told_sel [simp]:
  "s_fd (told ls s) = s_fd s" "s_generation (told ls s) = s_generation s"
  "s_input (told ls s) = s_input s" "s_outbox (told ls s) = s_outbox s @ map terminated ls"
  "s_close_after_flush (told ls s) = s_close_after_flush s"
  "s_pending_db (told ls s) = s_pending_db s"
  by (induction ls arbitrary: s) simp_all

text \<open>The sessions after every live one has been told its share.\<close>

definition tell_all :: "(session_ref \<Rightarrow> string list) \<Rightarrow> (int \<rightharpoonup> session) \<Rightarrow> (int \<rightharpoonup> session)" where
  "tell_all news sessions fd = map_option
     (\<lambda>s. told (news \<lparr>sr_fd = fd, sr_generation = s_generation s\<rparr>) s) (sessions fd)"

lemma tell_all_cong:
  "(\<And>fd s. m fd = Some s \<Longrightarrow> news \<lparr>sr_fd = fd, sr_generation = s_generation s\<rparr> =
     news' \<lparr>sr_fd = fd, sr_generation = s_generation s\<rparr>) \<Longrightarrow> tell_all news m = tell_all news' m"
  by (rule ext) (auto simp: tell_all_def map_option_case split: option.splits)

lemma tell_all_nothing [simp]: "tell_all (\<lambda>_. []) m = m"
  by (rule ext) (simp add: tell_all_def option.map_ident)

lemma tell_all_append: "tell_all news' (tell_all news m) = tell_all (\<lambda>q. news q @ news' q) m"
  by (rule ext) (auto simp: tell_all_def map_option_case split: option.splits)

lemma tell_one:
  "m fd = Some s \<Longrightarrow> s_generation s = g \<Longrightarrow>
   tell_all (\<lambda>q. if q = \<lparr>sr_fd = fd, sr_generation = g\<rparr> then ls else []) m = m(fd \<mapsto> told ls s)"
proof
  fix fd2 assume "m fd = Some s" "s_generation s = g"
  then show "tell_all (\<lambda>q. if q = \<lparr>sr_fd = fd, sr_generation = g\<rparr> then ls else []) m fd2 =
      (m(fd \<mapsto> told ls s)) fd2"
    by (cases "m fd2") (auto simp: tell_all_def)
qed

lemma tell_other:
  assumes "\<And>s. m fd = Some s \<Longrightarrow> s_generation s \<noteq> g"
  shows "tell_all (\<lambda>q. if q = \<lparr>sr_fd = fd, sr_generation = g\<rparr> then ls else []) m = m"
proof -
  have "tell_all (\<lambda>q. if q = \<lparr>sr_fd = fd, sr_generation = g\<rparr> then ls else []) m = tell_all (\<lambda>_. []) m"
    by (rule tell_all_cong) (use assms in auto)
  then show ?thesis by simp
qed

text \<open>The only parts of the state a reply changes: the sessions and the ring.\<close>

definition only_replies :: "platform \<Rightarrow> server \<Rightarrow> (int \<rightharpoonup> session) \<Rightarrow> server \<Rightarrow> bool" where
  "only_replies pf sv sessions sv' \<longleftrightarrow> roomy pf sv' \<and>
     (\<exists>r. sv' = sv\<lparr>sv_sessions := sessions, sv_ring := r\<rparr>)"

lemma only_replies_sel:
  assumes "only_replies pf sv sessions sv'"
  shows "roomy pf sv'" "sv_sessions sv' = sessions" "sv_world sv' = sv_world sv"
    "sv_database sv' = sv_database sv" "sv_next_request_id sv' = sv_next_request_id sv"
    "sv_closed sv' = sv_closed sv" "sv_stopping sv' = sv_stopping sv" "sv_log sv' = sv_log sv"
    "sv_next_session_generation sv' = sv_next_session_generation sv" "sv_config sv' = sv_config sv"
  using assms by (auto simp: only_replies_def)

lemma only_replies_trans:
  "only_replies pf sv m1 sv1 \<Longrightarrow> only_replies pf sv1 m2 sv2 \<Longrightarrow> only_replies pf sv m2 sv2"
  unfolding only_replies_def by force

lemma respond_exact:
  assumes "roomy pf sv"
  shows "returns (queue_response pf fd generation line sv) (only_replies pf sv
    (tell_all (\<lambda>q. if q = \<lparr>sr_fd = fd, sr_generation = generation\<rparr> then [line] else []) (sv_sessions sv)))"
proof -
  obtain sv' where q: "queue_response pf fd generation line sv = Inr sv'" and room: "roomy pf sv'"
    using respond_room [OF assms, of fd generation line] by (auto simp: returns_iff room_kept_def)
  let ?m = "tell_all (\<lambda>q. if q = \<lparr>sr_fd = fd, sr_generation = generation\<rparr> then [line] else []) (sv_sessions sv)"
  from q have "\<exists>r. sv' = sv\<lparr>sv_sessions := ?m, sv_ring := r\<rparr>"
  proof (cases rule: queue_response_cases)
    case dropped
    have "?m = tell_all (\<lambda>_. []) (sv_sessions sv)"
      using dropped(1) by (intro tell_all_cong) (auto simp: session_matches_def)
    then show ?thesis using dropped(2) by (intro exI [of _ "sv_ring sv"]) simp
  next
    case (queued s r)
    have "?m = (sv_sessions sv)(fd \<mapsto> queued line s)"
    proof
      fix fd2 show "?m fd2 = ((sv_sessions sv)(fd \<mapsto> queued line s)) fd2"
        using queued(1,2) by (cases "sv_sessions sv fd2") (auto simp: tell_all_def)
    qed
    with queued(3) show ?thesis by (intro exI [of _ r]) simp
  qed
  with q room show ?thesis by (simp add: only_replies_def)
qed

lemma deliver_exact:
  "roomy pf sv \<Longrightarrow> returns (deliver_world_events pf events sv)
    (only_replies pf sv (tell_all (\<lambda>q. inbox q events) (sv_sessions sv)))"
proof (induction events arbitrary: sv)
  case Nil
  then show ?case
    by (simp add: deliver_world_events_def only_replies_def) (rule exI [of _ "sv_ring sv"], simp)
next
  case (Cons e events)
  let ?one = "\<lambda>q. if q = receiver e then [event_line e] else []"
  have step: "deliver_world_events pf (e # events) sv =
      bind_result (queue_response pf (sr_fd (receiver e)) (sr_generation (receiver e)) (event_line e) sv)
        (deliver_world_events pf events)"
    by (simp add: deliver_world_events_def)
  have ref: "\<lparr>sr_fd = sr_fd (receiver e), sr_generation = sr_generation (receiver e)\<rparr> = receiver e"
    by simp
  have first: "returns (queue_response pf (sr_fd (receiver e)) (sr_generation (receiver e)) (event_line e) sv)
      (only_replies pf sv (tell_all ?one (sv_sessions sv)))"
    using respond_exact [OF Cons.prems, of "sr_fd (receiver e)" "sr_generation (receiver e)" "event_line e"]
    unfolding ref .
  show ?case
    unfolding step
  proof (rule returns_bind [OF first])
    fix sv1 assume k: "only_replies pf sv (tell_all ?one (sv_sessions sv)) sv1"
    have both: "tell_all (\<lambda>q. inbox q events) (sv_sessions sv1) = tell_all (\<lambda>q. inbox q (e # events)) (sv_sessions sv)"
      unfolding only_replies_sel(2) [OF k] tell_all_append by (rule tell_all_cong) (simp add: inbox_def eq_commute)
    have "returns (deliver_world_events pf events sv1)
        (only_replies pf sv1 (tell_all (\<lambda>q. inbox q (e # events)) (sv_sessions sv)))"
      using Cons.IH [OF only_replies_sel(1) [OF k]] unfolding both .
    then show "returns (deliver_world_events pf events sv1)
        (only_replies pf sv (tell_all (\<lambda>q. inbox q (e # events)) (sv_sessions sv)))"
      by (rule returns_mono) (rule only_replies_trans [OF k])
  qed
qed

text \<open>A new world with its events.\<close>

definition world_replaced :: "platform \<Rightarrow> server \<Rightarrow> sector_world \<Rightarrow> (session_ref \<Rightarrow> string list) \<Rightarrow>
    server \<Rightarrow> bool" where
  "world_replaced pf sv w news sv' \<longleftrightarrow>
     only_replies pf (sv\<lparr>sv_world := w\<rparr>) (tell_all news (sv_sessions sv)) sv'"

lemma world_replaced_sel:
  assumes "world_replaced pf sv w news sv'"
  shows "roomy pf sv'" "sv_sessions sv' = tell_all news (sv_sessions sv)" "sv_world sv' = w"
    "sv_database sv' = sv_database sv" "sv_next_request_id sv' = sv_next_request_id sv"
    "sv_closed sv' = sv_closed sv" "sv_stopping sv' = sv_stopping sv"
  using only_replies_sel [OF assms [unfolded world_replaced_def]] by simp_all

lemma world_deliver:
  "roomy pf sv \<Longrightarrow> returns (deliver_world_events pf events (sv\<lparr>sv_world := w\<rparr>))
     (world_replaced pf sv w (\<lambda>q. inbox q events))"
  using deliver_exact [of pf "sv\<lparr>sv_world := w\<rparr>" events] roomy_cong [of pf sv "sv\<lparr>sv_world := w\<rparr>"]
  by (simp add: world_replaced_def [abs_def])

lemma world_replaced_cong:
  "world_replaced pf sv w news sv' \<Longrightarrow>
   (\<And>fd s. sv_sessions sv fd = Some s \<Longrightarrow> news \<lparr>sr_fd = fd, sr_generation = s_generation s\<rparr> =
     news' \<lparr>sr_fd = fd, sr_generation = s_generation s\<rparr>) \<Longrightarrow>
   world_replaced pf sv w news' sv'"
  unfolding world_replaced_def using tell_all_cong [of "sv_sessions sv" news news'] by simp

text \<open>Leaving the world, with the save of the last position.\<close>

definition position_job :: "session_ref \<Rightarrow> 64 word \<Rightarrow> string \<Rightarrow> string \<Rightarrow> int \<Rightarrow> int \<Rightarrow> db_job" where
  "position_job ref request account character x y =
     \<lparr>job_client_fd = sr_fd ref, job_client_generation = sr_generation ref,
      job_request_id = request, job_operation = DbSavePosition, job_command_name = ''SAVE_POSITION'',
      job_args = [account, character, to_string_int x, to_string_int y], job_notify_client = False\<rparr>"

definition saves :: "db_job list \<Rightarrow> server \<Rightarrow> server" where
  "saves jobs sv = sv\<lparr>sv_database := fold submit jobs (sv_database sv),
     sv_next_request_id := sv_next_request_id sv + of_nat (length jobs)\<rparr>"

lemma saves_Nil [simp]: "saves [] sv = sv"
  by (simp add: saves_def)

lemma submit_position_save_eq:
  "submit_position_save fd generation account character x y sv =
     saves [position_job \<lparr>sr_fd = fd, sr_generation = generation\<rparr> (sv_next_request_id sv) account character x y] sv"
  by (simp add: submit_position_save_def submit_job_def saves_def position_job_def)

definition last_save :: "server \<Rightarrow> session_ref \<Rightarrow> db_job list" where
  "last_save sv ref = (case players (sv_world sv) ref of None \<Rightarrow> []
     | Some p \<Rightarrow> if ps_account p = '''' then [] else
         [position_job ref (sv_next_request_id sv) (ps_account p) (ps_character p) (ps_x p) (ps_y p)])"

definition has_left :: "platform \<Rightarrow> session_ref \<Rightarrow> server \<Rightarrow> server \<Rightarrow> bool" where
  "has_left pf ref sv sv' \<longleftrightarrow> (\<exists>sv1. sv' = saves (last_save sv ref) sv1 \<and>
     world_replaced pf sv (left_world (sv_world sv) ref) (leave_news (sv_world sv) ref) sv1)"

lemma leave_and_save_exact:
  assumes "world_ok sv" and "valid_order (pf_order pf)" and "roomy pf sv"
  shows "returns (leave_and_save pf fd generation sv)
    (has_left pf \<lparr>sr_fd = fd, sr_generation = generation\<rparr> sv)"
proof -
  let ?ref = "\<lparr>sr_fd = fd, sr_generation = generation\<rparr>"
  let ?w = "left_world (sv_world sv) ?ref"
  have "world_inv (sv_world sv)" using assms(1) by (simp add: world_ok_def)
  then obtain events where
      leave: "world_leave (pf_order pf) (sv_world sv) ?ref no_snapshot = Inr (?w, events,
        case players (sv_world sv) ?ref of None \<Rightarrow> no_snapshot | Some p \<Rightarrow> snapshot_of p)"
      and news: "\<forall>q. inbox q events = leave_news (sv_world sv) ?ref q"
    using leave_any [OF _ assms(2), of "sv_world sv" ?ref no_snapshot] by blast
  obtain sv1 where d: "deliver_world_events pf events (sv\<lparr>sv_world := ?w\<rparr>) = Inr sv1"
      and r: "world_replaced pf sv ?w (\<lambda>q. inbox q events) sv1"
    using world_deliver [OF assms(3)] unfolding returns_iff by blast
  have "sv_next_request_id sv1 = sv_next_request_id sv" using world_replaced_sel(5) [OF r] .
  then have "leave_and_save pf fd generation sv = Inr (saves (last_save sv ?ref) sv1)"
    unfolding leave_and_save_def leave bind_result.simps prod.case d
    by (cases "players (sv_world sv) ?ref")
      (simp_all add: no_snapshot_def last_save_def snapshot_of_def submit_position_save_eq)
  moreover have "world_replaced pf sv ?w (leave_news (sv_world sv) ?ref) sv1"
    using r by (rule world_replaced_cong) (simp add: news)
  ultimately show ?thesis by (auto simp: has_left_def)
qed


section \<open>Completions of database jobs\<close>

definition answer_line :: "db_completion \<Rightarrow> string" where
  "answer_line c = (if dc_ok c then ''DONE '' else ''FAIL '') @ to_string_word (dc_request_id c) @ '' '' @ dc_line c"

definition answered :: "db_completion \<Rightarrow> session \<Rightarrow> session" where
  "answered c s = queued (answer_line c) (s\<lparr>s_pending_db :=
     (if 0 < s_pending_db s then s_pending_db s - 1 else s_pending_db s)\<rparr>)"

lemma answered_eq: "answered c s =
    queued (answer_line c) (s_pending_db_update (\<lambda>n. if 0 < n then n - 1 else n) s)"
  unfolding answered_def by (cases s) simp

text \<open>A session that has just been told something is not closed: its send is in flight.\<close>

lemma completion_exact:
  assumes "roomy pf sv" and "dc_notify_client c" and s: "sv_sessions sv (dc_client_fd c) = Some s"
    and gen: "s_generation s = dc_client_generation c"
  shows "\<exists>sv'. on_completion pf c sv = Inr sv' \<and>
    only_replies pf sv ((sv_sessions sv)(dc_client_fd c \<mapsto> answered c s)) sv'"
proof -
  let ?fd = "dc_client_fd c" and ?g = "dc_client_generation c"
  let ?f = "s_pending_db_update (\<lambda>n. if 0 < n then n - 1 else n)"
  let ?sv1 = "update_session ?fd ?f sv"
  have at: "sv_sessions ?sv1 ?fd = Some (?f s)" using s by (simp add: update_session_def)
  have tell: "tell_all (\<lambda>q. if q = \<lparr>sr_fd = ?fd, sr_generation = ?g\<rparr> then [answer_line c] else []) (sv_sessions ?sv1) =
      (sv_sessions sv)(?fd \<mapsto> queued (answer_line c) (?f s))"
    using tell_one [where m = "sv_sessions ?sv1", OF at, of ?g "[answer_line c]"] gen
    by (simp add: update_session_def)
  obtain sv' where q: "queue_response pf ?fd ?g (answer_line c) ?sv1 = Inr sv'"
      and k: "only_replies pf ?sv1 ((sv_sessions sv)(?fd \<mapsto> queued (answer_line c) (?f s))) sv'"
    using respond_exact [of pf ?sv1 ?fd ?g "answer_line c"] assms(1) unfolding tell by (auto simp: returns_iff)
  have k': "only_replies pf sv ((sv_sessions sv)(?fd \<mapsto> queued (answer_line c) (?f s))) sv'"
    using k by (simp add: only_replies_def update_session_def)
  have "maybe_close_after_flush pf ?fd sv' = Inr sv'"
    using only_replies_sel(2) [OF k] by (simp add: maybe_close_after_flush_def)
  moreover have "session_matches sv ?fd ?g" using s gen by (simp add: session_matches_def)
  ultimately have "on_completion pf c sv = Inr sv'"
    using q assms(2) by (simp add: on_completion_def Let_def answer_line_def)
  then show ?thesis using k' by (auto simp: answered_eq)
qed


text \<open>All completions of one database event, in the order of the queue.\<close>

definition answers_to :: "session_ref \<Rightarrow> db_completion list \<Rightarrow> string list" where
  "answers_to q cs = map answer_line (filter (\<lambda>c. dc_notify_client c \<and>
     \<lparr>sr_fd = dc_client_fd c, sr_generation = dc_client_generation c\<rparr> = q) cs)"

lemma answered_sel [simp]:
  "s_generation (answered c s) = s_generation s" "s_fd (answered c s) = s_fd s"
  "s_outbox (answered c s) = s_outbox s @ [terminated (answer_line c)]"
  "s_close_after_flush (answered c s) = s_close_after_flush s" "s_input (answered c s) = s_input s"
  by (simp_all add: answered_def)

definition all_answered :: "server \<Rightarrow> db_completion list \<Rightarrow> server \<Rightarrow> bool" where
  "all_answered sv cs sv' \<longleftrightarrow> dom (sv_sessions sv') = dom (sv_sessions sv) \<and>
     sv_world sv' = sv_world sv \<and> sv_next_request_id sv' = sv_next_request_id sv \<and>
     sv_database sv' = (sv_database sv)\<lparr>dd_completions := []\<rparr> \<and>
     (\<forall>fd s. sv_sessions sv fd = Some s \<longrightarrow> (\<exists>s'. sv_sessions sv' fd = Some s' \<and>
        s_generation s' = s_generation s \<and> s_close_after_flush s' = s_close_after_flush s \<and>
        s_outbox s' = s_outbox s @
          map terminated (answers_to \<lparr>sr_fd = fd, sr_generation = s_generation s\<rparr> cs)))"

lemma on_completion_step:
  assumes "roomy pf sv"
  shows "\<exists>sv'. on_completion pf c sv = Inr sv' \<and> roomy pf sv' \<and> sv_world sv' = sv_world sv \<and>
    sv_next_request_id sv' = sv_next_request_id sv \<and> sv_database sv' = sv_database sv \<and>
    dom (sv_sessions sv') = dom (sv_sessions sv) \<and>
    (\<forall>fd s. sv_sessions sv fd = Some s \<longrightarrow> (\<exists>s'. sv_sessions sv' fd = Some s' \<and>
        s_generation s' = s_generation s \<and> s_close_after_flush s' = s_close_after_flush s \<and>
        s_outbox s' = s_outbox s @
          map terminated (answers_to \<lparr>sr_fd = fd, sr_generation = s_generation s\<rparr> [c])))"
proof (cases "dc_notify_client c \<and> session_matches sv (dc_client_fd c) (dc_client_generation c)")
  case True
  then obtain s where s: "sv_sessions sv (dc_client_fd c) = Some s" "s_generation s = dc_client_generation c"
    by (auto elim: matches_session)
  then obtain sv' where "on_completion pf c sv = Inr sv'"
      and k: "only_replies pf sv ((sv_sessions sv)(dc_client_fd c \<mapsto> answered c s)) sv'"
    using completion_exact [OF assms] True by blast
  then show ?thesis
    using only_replies_sel [OF k] s True by (intro exI [of _ sv']) (auto simp: answers_to_def)
next
  case False
  then have "answers_to \<lparr>sr_fd = fd, sr_generation = s_generation s\<rparr> [c] = []"
    if "sv_sessions sv fd = Some s" for fd s
    using that by (auto simp: answers_to_def session_matches_def)
  moreover have "roomy pf (sv\<lparr>sv_log := l\<rparr>)" for l using roomy_cong [OF assms] by simp
  ultimately show ?thesis using False assms by (auto simp: on_completion_def Let_def)
qed

lemma drain_exact:
  "roomy pf sv \<Longrightarrow> returns (drain_completions pf sv)
    (\<lambda>sv'. roomy pf sv' \<and> all_answered sv (dd_completions (sv_database sv)) sv')"
proof (induction "dd_completions (sv_database sv)" arbitrary: sv)
  case Nil
  have "pop_completion (sv_database sv) = (None, sv_database sv)"
    using Nil(1) by (simp add: pop_completion_def eq_commute [of "[]"])
  then have "drain_completions pf sv = Inr sv" by (simp add: drain_completions.simps [of pf sv])
  moreover have "(sv_database sv)\<lparr>dd_completions := []\<rparr> = sv_database sv"
    using Nil(1) by simp
  ultimately show ?case using Nil(1) [symmetric] Nil(2) by (simp add: all_answered_def answers_to_def)
next
  case (Cons c cs)
  let ?sv0 = "sv\<lparr>sv_database := (sv_database sv)\<lparr>dd_completions := cs\<rparr>\<rparr>"
  have "pop_completion (sv_database sv) = (Some c, (sv_database sv)\<lparr>dd_completions := cs\<rparr>)"
    using Cons(2) by (simp add: pop_completion_def eq_commute [of "_ # _"])
  then have eq: "drain_completions pf sv = bind_result (on_completion pf c ?sv0) (drain_completions pf)"
    by (simp add: drain_completions.simps [of pf sv])
  have "roomy pf ?sv0" using roomy_cong [OF Cons(3)] by simp
  then obtain sv1 where c: "on_completion pf c ?sv0 = Inr sv1" and room1: "roomy pf sv1"
      and same: "sv_world sv1 = sv_world sv" "sv_next_request_id sv1 = sv_next_request_id sv"
        "sv_database sv1 = (sv_database sv)\<lparr>dd_completions := cs\<rparr>"
        "dom (sv_sessions sv1) = dom (sv_sessions sv)"
      and told: "\<And>fd s. sv_sessions sv fd = Some s \<Longrightarrow> \<exists>s'. sv_sessions sv1 fd = Some s' \<and>
        s_generation s' = s_generation s \<and> s_close_after_flush s' = s_close_after_flush s \<and>
        s_outbox s' = s_outbox s @
          map terminated (answers_to \<lparr>sr_fd = fd, sr_generation = s_generation s\<rparr> [c])"
    using on_completion_step [of pf ?sv0 c] by auto
  have "returns (drain_completions pf sv1) (\<lambda>sv'. roomy pf sv' \<and> all_answered sv1 cs sv')"
    using Cons(1) [of sv1] room1 same(3) by simp
  then obtain sv' where sv': "drain_completions pf sv1 = Inr sv'" "roomy pf sv'" "all_answered sv1 cs sv'"
    by (auto simp: returns_iff)
  have "all_answered sv (c # cs) sv'"
    unfolding all_answered_def
  proof (intro conjI allI impI)
    fix fd s assume "sv_sessions sv fd = Some s"
    from told [OF this] obtain s1 where s1: "sv_sessions sv1 fd = Some s1"
        "s_generation s1 = s_generation s" "s_close_after_flush s1 = s_close_after_flush s"
        "s_outbox s1 = s_outbox s @ map terminated (answers_to \<lparr>sr_fd = fd, sr_generation = s_generation s\<rparr> [c])"
      by blast
    from sv'(3) s1(1) obtain s2 where "sv_sessions sv' fd = Some s2" "s_generation s2 = s_generation s1"
        "s_close_after_flush s2 = s_close_after_flush s1"
        "s_outbox s2 = s_outbox s1 @ map terminated (answers_to \<lparr>sr_fd = fd, sr_generation = s_generation s1\<rparr> cs)"
      unfolding all_answered_def by blast
    with s1 show "\<exists>s'. sv_sessions sv' fd = Some s' \<and>
        s_generation s' = s_generation s \<and> s_close_after_flush s' = s_close_after_flush s \<and>
        s_outbox s' = s_outbox s @
          map terminated (answers_to \<lparr>sr_fd = fd, sr_generation = s_generation s\<rparr> (c # cs))"
      by (simp add: answers_to_def)
  qed (use sv'(3) same in \<open>simp_all add: all_answered_def\<close>)
  then show ?case using Cons(2) [symmetric] sv' by (simp add: eq c)
qed


section \<open>Lines about the world\<close>

lemma enter_exact:
  fixes account character :: string
  assumes ok: "world_ok sv" and ord: "valid_order (pf_order pf)" and room: "roomy pf sv"
    and coords: "coords_ok (sv_world sv) x y"
  defines "w \<equiv> sv_world sv"
  assumes ref_def: "ref = \<lparr>sr_fd = fd, sr_generation = generation\<rparr>"
  defines "p \<equiv> placed w ref account character x y"
  assumes args: "args = [account, character, xs, ys]" "stoi xs = Inr x" "stoi ys = Inr y"
  shows "\<exists>sv1 others. handle_enter pf fd generation args sv =
      Inr (saves [position_job ref (sv_next_request_id sv) account character x y] sv1) \<and>
    distinct others \<and> set others = {q. q \<noteq> ref \<and> sees w q (ps_sector p)} \<and>
    world_replaced pf sv (add_player (left_world w ref) ref p)
      (\<lambda>q. if q = ref then entered_line p # snapshot_lines w others
           else leave_news w ref q @ (if sees w q (ps_sector p) then [enter_line p] else [])) sv1"
proof -
  have wi: "world_inv w" using ok by (simp add: world_ok_def w_def)
  have coords': "coords_ok w x y" using coords by (simp add: w_def)
  let ?w' = "add_player (left_world w ref) ref p"
  obtain events others where
      e: "world_enter (pf_order pf) w ref account character x y = Inr (?w', events)"
      "\<forall>q. q \<noteq> ref \<longrightarrow> inbox q events = leave_news w ref q @ (if sees w q (ps_sector p) then [enter_line p] else [])"
      "distinct others" "set others = {q. q \<noteq> ref \<and> sees w q (ps_sector p)}"
      "inbox ref events = entered_line p # snapshot_lines w others"
    using enter_any [OF wi ord coords', of ref account character] unfolding p_def sector_placed by blast
  obtain sv1 where d: "deliver_world_events pf events (sv\<lparr>sv_world := ?w'\<rparr>) = Inr sv1"
      and r: "world_replaced pf sv ?w' (\<lambda>q. inbox q events) sv1"
    using world_deliver [OF room] unfolding returns_iff by blast
  have "handle_enter pf fd generation args sv =
      Inr (saves [position_job ref (sv_next_request_id sv) account character x y] sv1)"
    using e(1) d world_replaced_sel(5) [OF r]
    by (simp add: handle_enter_def args ref_def [symmetric] w_def [symmetric] submit_position_save_eq)
  moreover have "world_replaced pf sv ?w'
      (\<lambda>q. if q = ref then entered_line p # snapshot_lines w others
           else leave_news w ref q @ (if sees w q (ps_sector p) then [enter_line p] else [])) sv1"
    using r by (rule world_replaced_cong) (simp add: e(2,5))
  ultimately show ?thesis using e(3,4) by blast
qed

lemma move_exact:
  assumes ok: "world_ok sv" and ord: "valid_order (pf_order pf)" and room: "roomy pf sv"
    and coords: "coords_ok (sv_world sv) x y"
  defines "w \<equiv> sv_world sv"
  assumes ref_def: "ref = \<lparr>sr_fd = fd, sr_generation = generation\<rparr>"
  assumes here: "players w ref = Some p" and args: "args = [xs, ys]" "stoi xs = Inr x" "stoi ys = Inr y"
  defines "p' \<equiv> walked w p x y"
  shows "returns (handle_move pf fd generation args sv)
    (world_replaced pf sv (relocate_player w ref p p')
      (\<lambda>q. if q = ref then [moved_line p'] else move_news w p p' q))"
proof -
  have wi: "world_inv w" using ok by (simp add: world_ok_def w_def)
  have coords': "coords_ok w x y" using coords by (simp add: w_def)
  obtain events where
      e: "world_move (pf_order pf) w ref x y = Inr (relocate_player w ref p p', events)"
      "inbox ref events = [moved_line p']" "\<forall>q. q \<noteq> ref \<longrightarrow> inbox q events = move_news w p p' q"
    using move_present [OF wi ord here coords'] unfolding p'_def by blast
  have "handle_move pf fd generation args sv =
      deliver_world_events pf events (sv\<lparr>sv_world := relocate_player w ref p p'\<rparr>)"
    using e(1) by (simp add: handle_move_def args ref_def [symmetric] w_def [symmetric])
  moreover have "returns (deliver_world_events pf events (sv\<lparr>sv_world := relocate_player w ref p p'\<rparr>))
    (world_replaced pf sv (relocate_player w ref p p')
      (\<lambda>q. if q = ref then [moved_line p'] else move_news w p p' q))"
    by (rule returns_mono [OF world_deliver [OF room]], erule world_replaced_cong) (simp add: e(2,3))
  ultimately show ?thesis by simp
qed

lemma attack_exact:
  assumes ok: "world_ok sv" and ord: "valid_order (pf_order pf)" and room: "roomy pf sv"
  defines "w \<equiv> sv_world sv"
  assumes ref_def: "ref = \<lparr>sr_fd = fd, sr_generation = generation\<rparr>"
  assumes here: "players w ref = Some p"
  shows "returns (handle_attack pf fd generation [skill, target] sv)
    (world_replaced pf sv w (\<lambda>q. if q = ref then [attack_self_line skill target]
      else if sees w q (ps_sector p) then [attack_line p skill target] else []))"
proof -
  have wi: "world_inv w" using ok by (simp add: world_ok_def w_def)
  obtain events where
      e: "world_attack (pf_order pf) w ref skill target = Inr (w, events)"
      "\<forall>q. inbox q events = (if \<not> sees w q (ps_sector p) then []
       else if q = ref then [attack_self_line skill target] else [attack_line p skill target])"
    using attack_present [OF wi ord here] by blast
  have "handle_attack pf fd generation [skill, target] sv = deliver_world_events pf events (sv\<lparr>sv_world := w\<rparr>)"
    using e(1) by (simp add: handle_attack_def ref_def [symmetric] w_def [symmetric])
  moreover have "returns (deliver_world_events pf events (sv\<lparr>sv_world := w\<rparr>))
    (world_replaced pf sv w (\<lambda>q. if q = ref then [attack_self_line skill target]
      else if sees w q (ps_sector p) then [attack_line p skill target] else []))"
    by (rule returns_mono [OF world_deliver [OF room]], erule world_replaced_cong)
      (use sees_own [OF wi here] in \<open>simp add: e(2)\<close>)
  ultimately show ?thesis by simp
qed

text \<open>\<open>QUIT\<close>: leave, save, and a last line.\<close>

lemma quit_exact:
  assumes ok: "world_ok sv" and ord: "valid_order (pf_order pf)" and room: "roomy pf sv"
    and s: "sv_sessions sv fd = Some s"
  assumes ref_def: "ref = \<lparr>sr_fd = fd, sr_generation = s_generation s\<rparr>"
  shows "returns (handle_quit pf fd (s_generation s) sv) (\<lambda>sv'. roomy pf sv' \<and>
    sv_world sv' = left_world (sv_world sv) ref \<and>
    sv_sessions sv' = (tell_all (leave_news (sv_world sv) ref) (sv_sessions sv))(fd \<mapsto>
      (queued ''BYE'' s)\<lparr>s_close_after_flush := True\<rparr>) \<and>
    sv_database sv' = fold submit (last_save sv ref) (sv_database sv))"
proof -
  obtain sv1 where l: "leave_and_save pf fd (s_generation s) sv = Inr (saves (last_save sv ref) sv1)"
      and r: "world_replaced pf sv (left_world (sv_world sv) ref) (leave_news (sv_world sv) ref) sv1"
    using leave_and_save_exact [OF ok ord room, of fd "s_generation s"]
    unfolding ref_def by (auto simp: returns_iff has_left_def)
  note sel = world_replaced_sel [OF r]
  let ?sv2 = "saves (last_save sv ref) sv1"
  have own: "leave_news (sv_world sv) ref ref = []" by (simp add: leave_news_def split: option.split)
  have at: "sv_sessions ?sv2 fd = Some s"
    using s own by (simp add: saves_def sel tell_all_def ref_def)
  have "roomy pf ?sv2" using roomy_cong [OF sel(1)] by (simp add: saves_def)
  then obtain sv3 where q: "queue_response pf fd (s_generation s) ''BYE'' ?sv2 = Inr sv3"
      and k: "only_replies pf ?sv2 ((sv_sessions ?sv2)(fd \<mapsto> queued ''BYE'' s)) sv3"
    using respond_exact [of pf ?sv2 fd "s_generation s" "''BYE''"]
    unfolding tell_one [where m = "sv_sessions ?sv2", OF at refl] by (auto simp: returns_iff)
  have "handle_quit pf fd (s_generation s) sv =
      Inr (update_session fd (s_close_after_flush_update (\<lambda>_. True)) sv3)"
    by (simp add: handle_quit_def l farewell_def q)
  then show ?thesis
    using only_replies_sel [OF k] sel
    by (simp add: update_session_def saves_def roomy_cong [of pf sv3])
qed


section \<open>Stopping\<close>

lemma close_all:
  assumes "sv_stopping sv" and "set fds \<subseteq> dom (sv_sessions sv)" and "distinct fds"
    and "\<And>fd s. sv_sessions sv fd = Some s \<Longrightarrow> s_fd s = fd"
  shows "fold_result (close_session pf) fds sv = Inr (sv\<lparr>sv_closed := sv_closed sv @ fds,
    sv_sessions := (\<lambda>fd. if fd \<in> set fds then None else sv_sessions sv fd)\<rparr>)"
  using assms
proof (induction fds arbitrary: sv)
  case (Cons fd fds)
  let ?sv2 = "sv\<lparr>sv_closed := sv_closed sv @ [fd], sv_sessions := (sv_sessions sv)(fd := None)\<rparr>"
  from Cons.prems(2) obtain s where s: "sv_sessions sv fd = Some s" by auto
  with Cons.prems(4) have "s_fd s = fd" by blast
  with s Cons.prems(1) have "close_session pf fd sv = Inr ?sv2" by (simp add: close_session_def)
  moreover have "fold_result (close_session pf) fds ?sv2 = Inr (?sv2\<lparr>sv_closed := sv_closed ?sv2 @ fds,
      sv_sessions := (\<lambda>q. if q \<in> set fds then None else sv_sessions ?sv2 q)\<rparr>)"
  proof (rule Cons.IH)
    show "s_fd s = q" if "sv_sessions ?sv2 q = Some s" for q s
      using that Cons.prems(4) by (simp split: if_splits)
  qed (use Cons.prems in auto)
  moreover have "(\<lambda>q. if q \<in> set fds then None else sv_sessions ?sv2 q) =
      (\<lambda>q. if q \<in> set (fd # fds) then None else sv_sessions sv q)" by auto
  ultimately show ?case by simp
qed simp

text \<open>\<open>stop\<close> closes the listening socket and every session, and touches nothing else.\<close>

lemma stop_effect:
  assumes "distinct fds" and "set fds = dom (sv_sessions sv)"
    and key: "\<And>fd s. sv_sessions sv fd = Some s \<Longrightarrow> s_fd s = fd"
  shows "returns (server_stop pf fds sv) (\<lambda>sv'. sv_stopping sv' \<and> sv_sessions sv' = Map.empty \<and>
    sv_closed sv' = sv_closed (close_listen_socket sv) @ fds \<and>
    sv_database sv' = sv_database sv \<and> sv_world sv' = sv_world sv)"
proof -
  let ?sv1 = "close_listen_socket (sv\<lparr>sv_stopping := True\<rparr>)"
  have sel: "sv_stopping ?sv1" "sv_sessions ?sv1 = sv_sessions sv" "sv_database ?sv1 = sv_database sv"
    "sv_world ?sv1 = sv_world sv" "sv_closed ?sv1 = sv_closed (close_listen_socket sv)"
    by (simp_all add: close_listen_socket_def)
  have "(\<lambda>fd. if fd \<in> set fds then None else sv_sessions ?sv1 fd) = Map.empty"
    using assms(2) unfolding sel(2) by (auto simp: dom_def)
  then show ?thesis
    using close_all [of ?sv1 fds pf] assms(1,2) key sel(1,3-5)
    unfolding sel(2) by (simp add: server_stop_def)
qed

end
