(* ===== verification/Command_Properties.thy ===== *)
theory Command_Properties
  imports Server_Effects Server_Demo
begin

text \<open>
  The properties of single lines and completions: what a database command, a world command, \<open>QUIT\<close>, an
  answer of the database and \<open>stop\<close> do, and the line with which any client ends the server.
\<close>

section \<open>Database commands and their answers\<close>

text \<open>
  C18. A database command is answered at once and queued once. A line that parses as a database command
  adds exactly one line to the outbox of its session, \<open>PENDING\<close> with the request number and the
  command, and exactly one job to the dispatcher, with that number, the operation of the command,
  the arguments as parsed, and the descriptor and generation of the session; nothing else changes.
\<close>
theorem database_command_queues_job:
  assumes "roomy pf sv" and "sv_sessions sv fd = Some s" and "ok (parse_line line)"
    and "is_database_command (req_type (parsed_request (parse_line line)))"
  shows "\<exists>operation sv'. operation_for (req_type (parsed_request (parse_line line))) = Inr operation \<and>
    handle_client_line pf fd (s_generation s) line sv = Inr sv' \<and>
    sv_sessions sv' = (sv_sessions sv)(fd \<mapsto> queued (''PENDING '' @ to_string_word (sv_next_request_id sv) @
        '' '' @ req_command_name (parsed_request (parse_line line))) (s\<lparr>s_pending_db := s_pending_db s + 1\<rparr>)) \<and>
    sv_database sv' = submit \<lparr>job_client_fd = fd, job_client_generation = s_generation s,
        job_request_id = sv_next_request_id sv, job_operation = operation,
        job_command_name = req_command_name (parsed_request (parse_line line)),
        job_args = req_args (parsed_request (parse_line line)), job_notify_client = True\<rparr> (sv_database sv) \<and>
    sv_next_request_id sv' = sv_next_request_id sv + 1 \<and> sv_world sv' = sv_world sv"
proof -
  let ?req = "parsed_request (parse_line line)" and ?n = "sv_next_request_id sv" and ?g = "s_generation s"
  let ?sv2 = "update_session fd (s_pending_db_update (\<lambda>n. n + 1)) (sv\<lparr>sv_next_request_id := ?n + 1\<rparr>)"
  let ?line = "''PENDING '' @ to_string_word ?n @ '' '' @ req_command_name ?req"
  obtain operation where op: "operation_for (req_type ?req) = Inr operation"
    using assms(4) by (cases "req_type ?req") (auto simp: operation_for_def is_database_command_def)
  have "roomy pf ?sv2" using roomy_cong [OF assms(1)] by simp
  then obtain sv3 where q: "queue_response pf fd ?g ?line ?sv2 = Inr sv3"
      and k: "only_replies pf ?sv2 (tell_all (\<lambda>q. if q = \<lparr>sr_fd = fd, sr_generation = ?g\<rparr> then [?line] else [])
        (sv_sessions ?sv2)) sv3"
    using respond_exact [of pf ?sv2 fd ?g ?line] by (auto simp: returns_iff)
  have at: "sv_sessions ?sv2 fd = Some (s\<lparr>s_pending_db := s_pending_db s + 1\<rparr>)"
    using assms(2) by (simp add: update_session_def)
  have tell: "tell_all (\<lambda>q. if q = \<lparr>sr_fd = fd, sr_generation = ?g\<rparr> then [?line] else []) (sv_sessions ?sv2) =
      (sv_sessions sv)(fd \<mapsto> queued ?line (s\<lparr>s_pending_db := s_pending_db s + 1\<rparr>))"
    using tell_one [where m = "sv_sessions ?sv2", OF at, of ?g "[?line]"] by (simp add: update_session_def)
  note sel = only_replies_sel [OF k, unfolded tell]
  have "handle_client_line pf fd ?g line sv = handle_database pf fd ?g ?req sv"
    using assms(3,4) by (auto simp: handle_client_line_def Let_def is_world_command_def is_database_command_def)
  then show ?thesis
    using q op sel by (simp add: handle_database_def Let_def submit_job_def update_session_def)
qed

lemma database_command_queues_job_witness:
  "\<exists>sv'. handle_client_line demo_platform 5 1 ''login anna'' (demo_idle [] demo_rest) = Inr sv' \<and>
     bq_queue (dd_jobs (sv_database sv')) = [demo_job 1]"
proof -
  have "parse_line ''login anna'' = parse_ok KLogin ''LOGIN'' [''anna'']" by code_simp
  moreover have "roomy demo_platform (demo_idle [] demo_rest)"
    by (simp add: roomy_def demo_idle_def demo_connected_def demo_server_def)
  moreover have "sv_sessions (demo_idle [] demo_rest) 5 =
      Some (demo_session\<lparr>s_outbox := [], s_write_in_flight := False\<rparr>)"
    by (simp add: demo_idle_def)
  moreover have "sv_next_request_id (demo_idle [] demo_rest) = 1"
    "dd_jobs (sv_database (demo_idle [] demo_rest)) = bq_empty"
    by (simp_all add: demo_idle_def demo_connected_def demo_server_def server_new_def
        dispatcher_start_def dispatcher_new_def)
  ultimately show ?thesis
    using database_command_queues_job [of demo_platform "demo_idle [] demo_rest" 5 _ "''login anna''"]
    by (auto simp: is_database_command_def operation_for_def demo_job_def demo_session_def submit_def
        bq_push_def bq_empty_def)
qed


text \<open>
  An answer reaches exactly the client that asked. A completion of a request whose session is still
  connected adds exactly one line to its outbox, \<open>DONE\<close> or \<open>FAIL\<close> with the request number and the line
  of the database, and touches no other session; if the session is gone, or another client has its
  descriptor, nothing happens; a background job is only logged when it failed.
\<close>
lemma completion_is_delivered:
  assumes "roomy pf sv"
  shows "(dc_notify_client c \<and> sv_sessions sv (dc_client_fd c) = Some s \<and>
      s_generation s = dc_client_generation c \<longrightarrow>
      (\<exists>sv' s'. on_completion pf c sv = Inr sv' \<and>
         sv_sessions sv' = (sv_sessions sv)(dc_client_fd c \<mapsto> s') \<and>
         s_outbox s' = s_outbox s @ [terminated ((if dc_ok c then ''DONE '' else ''FAIL '') @
           to_string_word (dc_request_id c) @ '' '' @ dc_line c)] \<and>
         s_close_after_flush s' = s_close_after_flush s \<and>
         sv_world sv' = sv_world sv \<and> sv_database sv' = sv_database sv)) \<and>
    (dc_notify_client c \<and> \<not> session_matches sv (dc_client_fd c) (dc_client_generation c) \<longrightarrow>
      on_completion pf c sv = Inr sv) \<and>
    (\<not> dc_notify_client c \<longrightarrow> on_completion pf c sv = Inr (if dc_ok c then sv
      else sv\<lparr>sv_log := sv_log sv @ [''background db job failed: '' @ dc_line c]\<rparr>))"
proof (intro conjI impI)
  assume c: "dc_notify_client c \<and> sv_sessions sv (dc_client_fd c) = Some s \<and>
    s_generation s = dc_client_generation c"
  then obtain sv' where "on_completion pf c sv = Inr sv'"
      and k: "only_replies pf sv ((sv_sessions sv)(dc_client_fd c \<mapsto> answered c s)) sv'"
    using completion_exact [OF assms, of c s] by blast
  moreover have "s_outbox (answered c s) = s_outbox s @ [terminated ((if dc_ok c then ''DONE '' else ''FAIL '') @
      to_string_word (dc_request_id c) @ '' '' @ dc_line c)]"
    by (simp add: answered_def answer_line_def)
  ultimately show "\<exists>sv' s'. on_completion pf c sv = Inr sv' \<and>
      sv_sessions sv' = (sv_sessions sv)(dc_client_fd c \<mapsto> s') \<and>
      s_outbox s' = s_outbox s @ [terminated ((if dc_ok c then ''DONE '' else ''FAIL '') @
        to_string_word (dc_request_id c) @ '' '' @ dc_line c)] \<and>
      s_close_after_flush s' = s_close_after_flush s \<and>
      sv_world sv' = sv_world sv \<and> sv_database sv' = sv_database sv"
    using only_replies_sel [OF k] by (intro exI [of _ sv'] exI [of _ "answered c s"]) (simp add: answered_def)
qed (simp_all add: on_completion_def Let_def)

lemma completion_is_delivered_witness:
  "\<exists>sv'. on_completion demo_platform (ok_completion (demo_job 1) ''OK LOGIN'') (demo_idle [] demo_rest) = Inr sv' \<and>
     map_option s_outbox (sv_sessions sv' 5) = Some [''DONE 1 OK LOGIN'' @ [CHR 0x0A]]"
proof -
  let ?c = "ok_completion (demo_job 1) ''OK LOGIN''"
  have "roomy demo_platform (demo_idle [] demo_rest)"
    by (simp add: roomy_def demo_idle_def demo_connected_def demo_server_def)
  note completion_is_delivered [OF this, THEN conjunct1, of ?c
      "demo_session\<lparr>s_outbox := [], s_write_in_flight := False\<rparr>"]
  moreover have "dc_notify_client ?c" "dc_client_fd ?c = 5" "dc_client_generation ?c = 1" "dc_ok ?c"
    "dc_request_id ?c = 1" "dc_line ?c = ''OK LOGIN''"
    by (simp_all add: ok_completion_def base_completion_def demo_job_def)
  moreover have "to_string_word (1 :: 64 word) = ''1''" by code_simp
  ultimately show ?thesis
    by (auto simp: demo_idle_def demo_session_def terminated_def)
qed


text \<open>
  C19. A database event answers everybody. Handling it empties the completion queue, and every session
  that is still connected gets, at the end of its outbox and in the order of the queue, exactly the answers to
  its own requests; no session is closed and no job is created.
\<close>
theorem database_event_answers_all:
  assumes "roomy pf sv" and "\<not> sv_stopping sv"
  shows "\<exists>sv'. on_database_event pf sv = Inr sv' \<and>
    dd_completions (sv_database sv') = [] \<and> dd_event_count (sv_database sv') = 0 \<and>
    dd_jobs (sv_database sv') = dd_jobs (sv_database sv) \<and> sv_world sv' = sv_world sv \<and>
    dom (sv_sessions sv') = dom (sv_sessions sv) \<and>
    (\<forall>fd s. sv_sessions sv fd = Some s \<longrightarrow> (\<exists>s'. sv_sessions sv' fd = Some s' \<and>
       s_generation s' = s_generation s \<and> s_outbox s' = s_outbox s @ map terminated
         (answers_to \<lparr>sr_fd = fd, sr_generation = s_generation s\<rparr> (dd_completions (sv_database sv)))))"
proof -
  let ?sv0 = "sv\<lparr>sv_database := event_read (sv_database sv)\<rparr>"
  have db: "dd_completions (event_read d) = dd_completions d" "dd_event_count (event_read d) = 0"
    "dd_jobs (event_read d) = dd_jobs d" for d by (simp_all add: event_read_def)
  have "roomy pf ?sv0" using roomy_cong [OF assms(1)] by simp
  from drain_exact [OF this] obtain sv1 where d: "drain_completions pf ?sv0 = Inr sv1" "roomy pf sv1"
      and a: "all_answered ?sv0 (dd_completions (sv_database sv)) sv1"
    by (auto simp: returns_iff db)
  have run1: "\<not> sv_stopping sv1"
    using ensuresD [OF drain_completions_ok d(1)] assms(2) by (simp add: tells_def)
  from push_sqe_room [OF d(2), of poll_token] obtain sv2 where p: "push_sqe pf poll_token sv1 = Inr sv2"
    by (auto simp: returns_iff)
  then obtain r where sv2: "sv2 = sv1\<lparr>sv_ring := r\<rparr>" by (rule push_sqe_cases)
  have "on_database_event pf sv = Inr sv2"
    using p run1 by (simp add: on_database_event_def d(1) post_eventfd_poll_def poll_token_def)
  then show ?thesis
    using a by (intro exI [of _ sv2]) (simp add: sv2 all_answered_def db, metis)
qed

lemma database_event_answers_all_witness:
  "\<exists>sv' s'. on_database_event demo_platform ((demo_idle [] demo_rest)\<lparr>sv_database := idle_after_one\<rparr>) = Inr sv' \<and>
     sv_sessions sv' 5 = Some s' \<and> s_outbox s' = [''FAIL 1 ERR LOGIN mysql_init failed'' @ [CHR 0x0A]]"
proof -
  let ?sv = "(demo_idle [] demo_rest)\<lparr>sv_database := idle_after_one\<rparr>"
  have "roomy demo_platform ?sv" "\<not> sv_stopping ?sv"
    by (simp_all add: roomy_def demo_idle_def demo_connected_def demo_server_def server_new_def)
  from database_event_answers_all [OF this] obtain sv' where
      "on_database_event demo_platform ?sv = Inr sv'"
      and told: "\<And>fd s. sv_sessions ?sv fd = Some s \<Longrightarrow> \<exists>s'. sv_sessions sv' fd = Some s' \<and>
       s_generation s' = s_generation s \<and> s_outbox s' = s_outbox s @ map terminated
         (answers_to \<lparr>sr_fd = fd, sr_generation = s_generation s\<rparr> (dd_completions (sv_database ?sv)))"
    by blast
  moreover have "to_string_word (1 :: 64 word) = ''1''" by code_simp
  ultimately show ?thesis
    using told [of 5 "demo_session\<lparr>s_outbox := [], s_write_in_flight := False\<rparr>"]
    by (auto simp: demo_idle_def demo_session_def idle_after_one_def push_completion_def answers_to_def
        error_completion_def demo_job_def answer_line_def terminated_def dispatcher_start_def
        dispatcher_new_def base_completion_def)
qed

section \<open>World commands\<close>

text \<open>
  C20. \<open>ENTER\<close> end to end. An \<open>ENTER\<close> line of a connected client with usable coordinates moves its
  character into the world (out of its old place, if it had one), tells the client where it is and who
  is in sight, tells every other session about the departure and the arrival as far as it sees them,
  and queues exactly one job, the save of the new position; where the client was already in the world
  with another character, the last position of that one is not saved.
\<close>
theorem enter_line_effect:
  assumes "reachable my pf config db0 (sv, db)" and "valid_order (pf_order pf)" and "roomy pf sv"
    and "ok (parse_line line)" and "req_type (parsed_request (parse_line line)) = KEnterWorld"
    and "req_args (parsed_request (parse_line line)) = [account, character, xs, ys]"
    and "stoi xs = Inr x" and "stoi ys = Inr y" and "coords_ok (sv_world sv) x y"
    and "ref = \<lparr>sr_fd = fd, sr_generation = generation\<rparr>"
    and "p = placed (sv_world sv) ref account character x y"
  shows "\<exists>sv' others. handle_client_line pf fd generation line sv = Inr sv' \<and>
    sv_world sv' = add_player (left_world (sv_world sv) ref) ref p \<and>
    distinct others \<and> set others = {q. q \<noteq> ref \<and> sees (sv_world sv) q (ps_sector p)} \<and>
    sv_sessions sv' = tell_all (\<lambda>q. if q = ref then entered_line p # snapshot_lines (sv_world sv) others
        else leave_news (sv_world sv) ref q @
          (if sees (sv_world sv) q (ps_sector p) then [enter_line p] else [])) (sv_sessions sv) \<and>
    sv_database sv' = submit (position_job ref (sv_next_request_id sv) account character x y) (sv_database sv)"
proof -
  have "world_ok sv" using reachable_ok [OF assms(1,2)] by (simp add: system_ok_def server_ok_def)
  from enter_exact [OF this assms(2,3,9,10) refl assms(7,8), of account character]
  obtain sv1 others where h: "handle_enter pf fd generation [account, character, xs, ys] sv =
      Inr (saves [position_job ref (sv_next_request_id sv) account character x y] sv1)"
    and o: "distinct others" "set others = {q. q \<noteq> ref \<and> sees (sv_world sv) q (ps_sector p)}"
    and r: "world_replaced pf sv (add_player (left_world (sv_world sv) ref) ref p)
      (\<lambda>q. if q = ref then entered_line p # snapshot_lines (sv_world sv) others
        else leave_news (sv_world sv) ref q @ (if sees (sv_world sv) q (ps_sector p) then [enter_line p] else [])) sv1"
    unfolding assms(11) by blast
  have "handle_client_line pf fd generation line sv = handle_enter pf fd generation [account, character, xs, ys] sv"
    using assms(4-6) by (simp add: handle_client_line_def Let_def is_world_command_def)
  with h o world_replaced_sel [OF r] show ?thesis
    by (intro exI [of _ "saves [position_job ref (sv_next_request_id sv) account character x y] sv1"]
        exI [of _ others]) (simp add: saves_def)
qed


lemma enter_line_effect_witness:
  "\<exists>sv'. handle_client_line demo_platform 5 1 demo_line (demo_idle [] demo_rest) = Inr sv' \<and>
     bq_queue (dd_jobs (sv_database sv')) = [demo_save]"
proof -
  have "roomy demo_platform (demo_idle [] demo_rest)"
    by (simp add: roomy_def demo_idle_def demo_connected_def demo_server_def)
  moreover have "sv_world (demo_idle [] demo_rest) = empty_world"
    "sv_next_request_id (demo_idle [] demo_rest) = 1"
    "dd_jobs (sv_database (demo_idle [] demo_rest)) = bq_empty"
    by (simp_all add: demo_idle_def demo_connected_def demo_server_def server_new_def
        dispatcher_start_def dispatcher_new_def)
  moreover have "coords_ok empty_world 120 80"
    by (simp add: coords_ok_def safe_coord_def i32_simps empty_world_def)
  ultimately show ?thesis
    using enter_line_effect [OF demo_reaches(3) [unfolded demo_reached_def] demo_platform_ok(2), of demo_line
        "''anna''" "''main''" "''120''" "''80''" 120 80 demo_ref 5 1]
    by (auto simp: demo_parse demo_numbers demo_ref_def position_job_def demo_save_def submit_def
        bq_push_def bq_empty_def)
qed

text \<open>
  C21. Moving and attacking stay in memory. A \<open>MOVE\<close> of a player in the world relocates it, an \<open>ATTACK\<close>
  leaves the world as it is; the client gets its own line, every other session the line its view
  calls for, and neither submits a job to the database.
\<close>
theorem move_and_attack_effect:
  assumes "reachable my pf config db0 (sv, db)" and "valid_order (pf_order pf)" and "roomy pf sv"
    and "ref = \<lparr>sr_fd = fd, sr_generation = generation\<rparr>" and "players (sv_world sv) ref = Some p"
    and "ok (parse_line line)"
  shows "(req_type (parsed_request (parse_line line)) = KMove \<and>
      req_args (parsed_request (parse_line line)) = [xs, ys] \<and> stoi xs = Inr x \<and> stoi ys = Inr y \<and>
      coords_ok (sv_world sv) x y \<longrightarrow>
      returns (handle_client_line pf fd generation line sv) (\<lambda>sv'.
        sv_world sv' = relocate_player (sv_world sv) ref p (walked (sv_world sv) p x y) \<and>
        sv_sessions sv' = tell_all (\<lambda>q. if q = ref then [moved_line (walked (sv_world sv) p x y)]
          else move_news (sv_world sv) p (walked (sv_world sv) p x y) q) (sv_sessions sv) \<and>
        sv_database sv' = sv_database sv)) \<and>
    (req_type (parsed_request (parse_line line)) = KAttack \<and>
      req_args (parsed_request (parse_line line)) = [skill, target] \<longrightarrow>
      returns (handle_client_line pf fd generation line sv) (\<lambda>sv'.
        sv_world sv' = sv_world sv \<and>
        sv_sessions sv' = tell_all (\<lambda>q. if q = ref then [attack_self_line skill target]
          else if sees (sv_world sv) q (ps_sector p) then [attack_line p skill target] else [])
          (sv_sessions sv) \<and>
        sv_database sv' = sv_database sv))"
proof -
  have ok: "world_ok sv" using reachable_ok [OF assms(1,2)] by (simp add: system_ok_def server_ok_def)
  show ?thesis
  proof (intro conjI impI)
    assume a: "req_type (parsed_request (parse_line line)) = KMove \<and>
      req_args (parsed_request (parse_line line)) = [xs, ys] \<and> stoi xs = Inr x \<and> stoi ys = Inr y \<and>
      coords_ok (sv_world sv) x y"
    then have "handle_client_line pf fd generation line sv = handle_move pf fd generation [xs, ys] sv"
      using assms(6) by (simp add: handle_client_line_def Let_def is_world_command_def)
    moreover have "returns (handle_move pf fd generation [xs, ys] sv) (world_replaced pf sv
        (relocate_player (sv_world sv) ref p (walked (sv_world sv) p x y))
        (\<lambda>q. if q = ref then [moved_line (walked (sv_world sv) p x y)]
          else move_news (sv_world sv) p (walked (sv_world sv) p x y) q))"
      using a by (intro move_exact [OF ok assms(2,3) _ assms(4,5) refl]) auto
    ultimately show "returns (handle_client_line pf fd generation line sv) (\<lambda>sv'.
        sv_world sv' = relocate_player (sv_world sv) ref p (walked (sv_world sv) p x y) \<and>
        sv_sessions sv' = tell_all (\<lambda>q. if q = ref then [moved_line (walked (sv_world sv) p x y)]
          else move_news (sv_world sv) p (walked (sv_world sv) p x y) q) (sv_sessions sv) \<and>
        sv_database sv' = sv_database sv)"
      by (auto elim!: returns_mono simp: world_replaced_sel)
  next
    assume a: "req_type (parsed_request (parse_line line)) = KAttack \<and>
      req_args (parsed_request (parse_line line)) = [skill, target]"
    then have "handle_client_line pf fd generation line sv = handle_attack pf fd generation [skill, target] sv"
      using assms(6) by (simp add: handle_client_line_def Let_def is_world_command_def)
    with attack_exact [OF ok assms(2,3,4,5), of skill target]
    show "returns (handle_client_line pf fd generation line sv) (\<lambda>sv'.
        sv_world sv' = sv_world sv \<and>
        sv_sessions sv' = tell_all (\<lambda>q. if q = ref then [attack_self_line skill target]
          else if sees (sv_world sv) q (ps_sector p) then [attack_line p skill target] else [])
          (sv_sessions sv) \<and>
        sv_database sv' = sv_database sv)"
      by (auto elim!: returns_mono simp: world_replaced_sel)
  qed
qed

lemma move_and_attack_effect_witness:
  "\<exists>sv'. handle_client_line demo_platform 5 1 ''ATTACK slash orc'' (demo_entered [] demo_busy) = Inr sv' \<and>
     map_option s_outbox (sv_sessions sv' 5) = Some [terminated (entered_line demo_player),
       terminated (attack_self_line ''slash'' ''orc'')]"
proof -
  have "parse_line ''ATTACK slash orc'' = parse_ok KAttack ''ATTACK'' [''slash'', ''orc'']" by code_simp
  moreover have "roomy demo_platform (demo_entered [] demo_busy)"
    by (simp add: roomy_def demo_entered_def demo_connected_def demo_server_def)
  moreover have "players (sv_world (demo_entered [] demo_busy)) demo_ref = Some demo_player"
    by (simp add: demo_entered_def add_player_def)
  moreover have "sv_sessions (demo_entered [] demo_busy) 5 =
      Some (demo_session\<lparr>s_outbox := [terminated (entered_line demo_player)]\<rparr>)"
    by (simp add: demo_entered_def)
  ultimately show ?thesis
    using move_and_attack_effect [OF demo_entered_reached [unfolded demo_reached_def] demo_platform_ok(2),
        of demo_ref 5 1 demo_player "''ATTACK slash orc''" "''''" "''''" 0 0 "''slash''" "''orc''"]
    by (auto simp: returns_iff demo_ref_def tell_all_def demo_session_def)
qed


section \<open>Leaving\<close>

text \<open>
  C22. \<open>QUIT\<close> end to end. The client leaves the world, everybody who saw it is told, its last position is
  queued for saving if it was in the world (and nothing is queued otherwise), its last line is \<open>BYE\<close>, and
  its session closes once that is sent.
\<close>
theorem quit_line_effect:
  assumes "reachable my pf config db0 (sv, db)" and "valid_order (pf_order pf)" and "roomy pf sv"
    and "sv_sessions sv fd = Some s" and "ref = \<lparr>sr_fd = fd, sr_generation = s_generation s\<rparr>"
    and "ok (parse_line line)" and "req_type (parsed_request (parse_line line)) = KQuit"
  shows "returns (handle_client_line pf fd (s_generation s) line sv) (\<lambda>sv'.
    sv_world sv' = left_world (sv_world sv) ref \<and>
    sv_sessions sv' = (tell_all (leave_news (sv_world sv) ref) (sv_sessions sv))(fd \<mapsto>
      (queued ''BYE'' s)\<lparr>s_close_after_flush := True\<rparr>) \<and>
    sv_database sv' = fold submit (case players (sv_world sv) ref of None \<Rightarrow> []
      | Some p \<Rightarrow> if ps_account p = '''' then [] else [position_job ref (sv_next_request_id sv)
          (ps_account p) (ps_character p) (ps_x p) (ps_y p)]) (sv_database sv))"
proof -
  have ok: "world_ok sv" using reachable_ok [OF assms(1,2)] by (simp add: system_ok_def server_ok_def)
  have "handle_client_line pf fd (s_generation s) line sv = handle_quit pf fd (s_generation s) sv"
    using assms(6,7) by (simp add: handle_client_line_def Let_def)
  with quit_exact [OF ok assms(2-5)] show ?thesis
    by (auto elim!: returns_mono simp: last_save_def)
qed

lemma quit_line_effect_witness:
  "returns (handle_client_line demo_platform 5 1 ''quit'' (demo_entered [] demo_busy)) (\<lambda>sv'.
     players (sv_world sv') demo_ref = None \<and>
     map job_args (bq_queue (dd_jobs (sv_database sv'))) =
       [[''anna'', ''main'', ''120'', ''80''], [''anna'', ''main'', ''120'', ''80'']])"
proof -
  have "parse_line ''quit'' = parse_ok KQuit ''QUIT'' []" by code_simp
  moreover have "roomy demo_platform (demo_entered [] demo_busy)"
    by (simp add: roomy_def demo_entered_def demo_connected_def demo_server_def)
  moreover have "players (sv_world (demo_entered [] demo_busy)) demo_ref = Some demo_player"
    by (simp add: demo_entered_def add_player_def)
  moreover have "sv_sessions (demo_entered [] demo_busy) 5 =
      Some (demo_session\<lparr>s_outbox := [terminated (entered_line demo_player)]\<rparr>)"
    "bq_queue (dd_jobs (sv_database (demo_entered [] demo_busy))) = [demo_save]"
    "\<not> bq_closed (dd_jobs (sv_database (demo_entered [] demo_busy)))"
    by (simp_all add: demo_entered_def submit_def bq_push_def bq_empty_def dispatcher_start_def
        dispatcher_new_def)
  ultimately show ?thesis
    using quit_line_effect [OF demo_entered_reached [unfolded demo_reached_def] demo_platform_ok(2),
        of 5 _ demo_ref "''quit''"]
    by (auto elim!: returns_mono simp: demo_ref_def demo_session_def demo_player_def position_job_def
        submit_def bq_push_def demo_save_def demo_numbers)
qed

text \<open>
  C23. Closing does not wait for the database. Once the last line of a closing session is sent, the
  session is removed, however many of its requests are still pending, and their answers are then
  dropped: the client saw \<open>PENDING\<close> and gets neither \<open>DONE\<close> nor \<open>FAIL\<close>. The counter \<open>pending_db\<close> is
  maintained but never consulted.
\<close>
theorem closing_drops_pending_answers:
  assumes "reachable my pf config db0 (sv, db)" and "valid_order (pf_order pf)" and "roomy pf sv"
    and "sv_sessions sv fd = Some s" and "s_close_after_flush s" and "s_outbox s = [line]"
    and "0 < s_pending_db s"
    and "token = send_token fd (s_generation s) line"
  shows "returns (dispatch pf token (int (length line)) [] (take_token token sv)) (\<lambda>sv'.
    sv_sessions sv' fd = None \<and>
    (\<forall>c. dc_notify_client c \<and> dc_client_fd c = fd \<and> dc_client_generation c = s_generation s \<longrightarrow>
       on_completion pf c sv' = Inr sv'))"
proof -
  have so: "server_ok sv" using reachable_ok [OF assms(1,2)] by (simp add: system_ok_def)
  then have "session_ok {} None sv fd s"
    using assms(4) by (simp add: server_ok_def loop_inv_def server_inv_def)
  then have key: "s_fd s = fd" and line: "line \<noteq> []"
    using assms(6) by (auto simp: session_ok_def)
  let ?sv1 = "(take_token token sv)\<lparr>sv_sessions := (sv_sessions sv)(fd \<mapsto>
    s\<lparr>s_write_in_flight := False, s_outbox := []\<rparr>)\<rparr>"
  have run: "\<not> sv_stopping sv" using so by (simp add: server_ok_def loop_inv_def)
  have "world_ok sv" using so by (simp add: server_ok_def)
  moreover have "session_matches ?sv1 = session_matches sv"
    by (intro ext) (simp add: session_matches_def assms(4))
  ultimately have ok1: "world_ok ?sv1" by (simp add: world_ok_def)
  have room1: "roomy pf ?sv1" using assms(3) by (simp add: roomy_def take_token_def)
  have closes: "dispatch pf token (int (length line)) [] (take_token token sv) = close_session pf fd ?sv1"
  proof -
    have "session_matches sv fd (s_generation s)" using assms(4) by (simp add: session_matches_def)
    moreover have "s_outbox_update (flush_front (length line)) (s\<lparr>s_write_in_flight := False\<rparr>) =
        s\<lparr>s_write_in_flight := False, s_outbox := []\<rparr>"
      using assms(6) by (cases s) (simp add: flush_front_def)
    ultimately show ?thesis using assms(4-6) line
      by (simp add: assms(8) dispatch_def on_send_def update_session_def post_send_def
          maybe_close_after_flush_def Let_def)
  qed
  obtain sv2 where "leave_and_save pf fd (s_generation s) ?sv1 = Inr sv2"
    using leave_and_save_room [OF ok1 [unfolded world_ok_def, THEN conjunct1] assms(2) room1, of fd "s_generation s"]
    by (auto simp: returns_iff)
  then have "dispatch pf token (int (length line)) [] (take_token token sv) =
      Inr (sv2\<lparr>sv_closed := sv_closed sv2 @ [fd], sv_sessions := (sv_sessions sv2)(fd := None)\<rparr>)"
    unfolding closes using run key by (simp add: close_session_def)
  then show ?thesis by (simp add: on_completion_def session_matches_def)
qed

lemma closing_drops_pending_answers_witness:
  "returns (dispatch demo_platform demo_bye_send 4 [] (take_token demo_bye_send demo_closing)) (\<lambda>sv'.
     sv_sessions sv' 5 = None \<and>
     on_completion demo_platform (ok_completion (demo_job 1) ''OK LOGIN'') sv' = Inr sv')"
proof -
  have "roomy demo_platform demo_closing"
    by (simp add: roomy_def demo_closing_def demo_leaving_def demo_asked_def demo_connected_def demo_server_def)
  moreover have "sv_sessions demo_closing 5 = Some (demo_asked_session\<lparr>s_outbox := [terminated ''BYE''],
      s_close_after_flush := True, s_input := ''''\<rparr>)"
    by (simp add: demo_closing_def demo_leaving_def)
  moreover have "length (terminated ''BYE'') = 4" by (simp add: terminated_def)
  ultimately show ?thesis
    using closing_drops_pending_answers [OF demo_closing_reached [unfolded demo_reached_def] demo_platform_ok(2),
        of 5 _ "terminated ''BYE''" demo_bye_send]
    by (auto elim!: returns_mono simp: demo_bye_send_def demo_asked_session_def demo_session_def
        ok_completion_def base_completion_def demo_job_def)
qed

text \<open>
  \<open>stop\<close> closes everything and saves nothing. Stopping closes the listening socket and every
  session and always succeeds, but submits no job and leaves the world as it is: the positions of the players still
  connected are not saved, although a disconnect of the same players would save them.
\<close>
lemma stop_saves_nothing:
  assumes "reachable my pf config db0 (sv, db)" and "valid_order (pf_order pf)"
    and "distinct fds" and "set fds = dom (sv_sessions sv)"
  shows "returns (server_stop pf fds sv) (\<lambda>sv'. sv_stopping sv' \<and> sv_sessions sv' = Map.empty \<and>
    sv_closed sv' = sv_closed (close_listen_socket sv) @ fds \<and>
    sv_database sv' = sv_database sv \<and> sv_world sv' = sv_world sv)"
proof (rule stop_effect [OF assms(3,4)])
  show "s_fd s = fd" if "sv_sessions sv fd = Some s" for fd s
    using reachable_ok [OF assms(1,2)] that
    by (auto simp: system_ok_def server_ok_def loop_inv_def intro: server_inv_key)
qed

lemma stop_saves_nothing_witness:
  "returns (server_stop demo_platform [5] (demo_entered [] demo_busy)) (\<lambda>sv'. sv_sessions sv' = Map.empty \<and>
     sv_closed sv' = [3, 5] \<and> players (sv_world sv') demo_ref = Some demo_player \<and>
     bq_queue (dd_jobs (sv_database sv')) = [demo_save])"
proof -
  have "distinct [5 :: int]" "set [5] = dom (sv_sessions (demo_entered [] demo_busy))"
    by (simp_all add: demo_entered_def)
  from stop_saves_nothing [OF demo_entered_reached [unfolded demo_reached_def] demo_platform_ok(2) this]
  show ?thesis
    by (rule returns_mono) (simp add: close_listen_socket_def demo_entered_def demo_connected_def
        demo_server_def server_new_def add_player_def submit_def bq_push_def bq_empty_def
        dispatcher_start_def dispatcher_new_def)
qed


section \<open>The line that ends the server\<close>

lemma crash_dispatch:
  assumes "sv_sessions sv fd = Some s" and "s_fd s = fd" and "s_input s = ''''"
    and "t_type token = KRecv" and "t_fd token = fd" and "t_generation token = s_generation s"
  shows "dispatch pf token 19 (''MOVE 99999999999 0'' @ [CHR 0x0A]) (take_token token sv) =
    Inl (Exn (Out_Of_Range ''stoi''))"
proof -
  let ?g = "s_generation s" and ?data = "''MOVE 99999999999 0'' @ [CHR 0x0A]"
  let ?sv1 = "update_session fd (s_input_update (\<lambda>input. input @ ?data)) (take_token token sv)"
  have line: "take_line ?data = Some (''MOVE 99999999999 0'', [])" by code_simp
  have parse: "parse_line ''MOVE 99999999999 0'' = parse_ok KMove ''MOVE'' [''99999999999'', ''0'']" by code_simp
  have "stoi ''99999999999'' = Inl (Out_Of_Range ''stoi'')"
    by (simp add: stoi_def numeral_prefix_def is_digit_def is_space_def nat_val_def digit_val_def i32_simps)
  then have crash: "handle_client_line pf fd ?g ''MOVE 99999999999 0'' sv2 = Inl (Exn (Out_Of_Range ''stoi''))" for sv2
    by (simp add: handle_client_line_def parse is_world_command_def handle_move_def Let_def)
  have "process_lines pf fd ?g ?sv1 = Inl (Exn (Out_Of_Range ''stoi''))"
    unfolding process_lines.simps [of pf fd ?g ?sv1]
    using assms(1,2,3) line crash by (simp add: update_session_def)
  moreover have "session_matches sv fd ?g" using assms(1) by (simp add: session_matches_def)
  ultimately show ?thesis using assms(4-6) by (simp add: dispatch_def on_recv_def Let_def)
qed

text \<open>
  C17. Any client can end the server with one line. In a reachable state, when the 19 bytes of
  \<open>MOVE 99999999999 0\<close> and its line feed arrive from any session whose input buffer is empty, which the
  kernel may deliver at any time, the parser accepts the line, the conversion of the coordinate throws
  \<open>std::out_of_range\<close>, nothing catches it, and the event loop ends with all sessions.
\<close>
theorem one_line_ends_server:
  assumes "reachable my pf config db0 (sv, db)" and "valid_order (pf_order pf)"
    and "sv_sessions sv fd = Some s" and "\<not> s_close_after_flush s" and "s_input s = ''''"
    and "19 \<le> cfg_recv_buffer_size (sv_config sv)"
    and data: "data = ''MOVE 99999999999 0'' @ [CHR 0x0A]"
  shows "\<exists>token \<in># ring_tokens (sv_ring sv). outcome_ok sv token 19 data \<and>
    dispatch pf token 19 data (take_token token sv) = Inl (Exn (Out_Of_Range ''stoi''))"
proof -
  let ?g = "s_generation s" and ?token = "recv_token sv fd (s_generation s)"
  have so: "session_ok {} None sv fd s"
    using reachable_ok [OF assms(1,2)] assms(3)
    by (simp add: system_ok_def server_ok_def loop_inv_def server_inv_def)
  then have "recvs_of sv fd ?g = {#?token#}" using assms(4) by (simp add: session_ok_def)
  then have "?token \<in># recvs_of sv fd ?g" by simp
  then have mem: "?token \<in># ring_tokens (sv_ring sv)" by (simp add: recvs_of_def)
  have out: "outcome_ok sv ?token 19 data"
    using assms(6) by (simp add: outcome_ok_def data) (simp add: recv_token_def)
  have "s_fd s = fd" using so by (simp add: session_ok_def)
  then have "dispatch pf ?token 19 data (take_token ?token sv) = Inl (Exn (Out_Of_Range ''stoi''))"
    unfolding data by (rule crash_dispatch [OF assms(3) _ assms(5)]) (simp_all add: recv_token_def)
  with mem out show ?thesis by blast
qed

lemma one_line_ends_server_witness:
  "\<exists>token. outcome_ok (demo_idle [] demo_rest) token 19 (''MOVE 99999999999 0'' @ [CHR 0x0A]) \<and>
     dispatch demo_platform token 19 (''MOVE 99999999999 0'' @ [CHR 0x0A])
       (take_token token (demo_idle [] demo_rest)) = Inl (Exn (Out_Of_Range ''stoi''))"
proof -
  have "sv_sessions (demo_idle [] demo_rest) 5 = Some (demo_session\<lparr>s_outbox := [], s_write_in_flight := False\<rparr>)"
    by (simp add: demo_idle_def)
  moreover have "19 \<le> cfg_recv_buffer_size (sv_config (demo_idle [] demo_rest))"
    by (simp add: demo_idle_def demo_connected_def demo_server_def server_new_def default_server_config_def)
  ultimately show ?thesis
    using one_line_ends_server [OF demo_reaches(3) [unfolded demo_reached_def] demo_platform_ok(2), of 5
        "demo_session\<lparr>s_outbox := [], s_write_in_flight := False\<rparr>" "''MOVE 99999999999 0'' @ [CHR 0x0A]"]
    by (simp add: demo_session_def) blast
qed

end
