(* ===== verification/Game_Store.thy ===== *)
theory Game_Store
  imports Database
begin

text \<open>
  What the database operations promise, on the tables of db/schema.sql. The MySQL server stays a
  parameter: the locale \<open>game_store\<close> lists the documented behaviour of exactly the statements the code
  sends, on an abstract view \<open>tables\<close> of the data and the snapshot \<open>saved\<close> an open transaction can go back
  to. Any statement may fail (a lost connection, a lock timeout, a value that does not fit its column). A
  failure inside a transaction changes nothing, or has already rolled the transaction back (a deadlock, a
  lost connection); a read outside one changes nothing; an INSERT that reports an error other than a
  duplicate key may have been applied, and so may a COMMIT that reports an error, when the connection
  broke after the server had done it. A
  ROLLBACK, also one that fails because the connection is gone, ends the transaction. Taking and giving back
  the handle of a connection or of a statement changes no data. The collation of the
  schema (utf8mb4_unicode_ci) is the function \<open>collate\<close>: two names with the same image are one key.

  The keys follow the unique keys of the schema: players by account, characters by player and name, items
  by player and slot. Timestamps, surrogate ids other than the player's, and the ON DELETE rules are left
  out: no statement of the program depends on them except the order of LOAD, which is open here
  (LOAD_INVENTORY lists by slot).
\<close>

section \<open>Tables\<close>

record player_row =
  pl_id :: "64 word"
  pl_display :: string

record character_row =
  ch_name :: string
  ch_level :: "32 word"
  ch_gold :: "64 word"
  ch_x :: "32 word"
  ch_y :: "32 word"

record item_row =
  it_item :: "64 word"
  it_count :: "32 word"

record game_tables =
  tb_players :: "string \<rightharpoonup> player_row"
  tb_characters :: "64 word \<times> string \<rightharpoonup> character_row"
  tb_items :: "64 word \<times> 32 word \<rightharpoonup> item_row"

definition store_character ::
  "(string \<Rightarrow> string) \<Rightarrow> 64 word \<Rightarrow> string \<Rightarrow> 32 word \<Rightarrow> 64 word \<Rightarrow> game_tables \<Rightarrow> game_tables" where
  "store_character collate player name level gold t = t\<lparr>tb_characters := (tb_characters t)
     ((player, collate name) \<mapsto> (case tb_characters t (player, collate name) of
        None \<Rightarrow> \<lparr>ch_name = name, ch_level = level, ch_gold = gold, ch_x = 0, ch_y = 0\<rparr>
      | Some row \<Rightarrow> row\<lparr>ch_level := level, ch_gold := gold\<rparr>))\<rparr>"

definition store_position ::
  "(string \<Rightarrow> string) \<Rightarrow> 64 word \<Rightarrow> string \<Rightarrow> int \<Rightarrow> int \<Rightarrow> game_tables \<Rightarrow> game_tables" where
  "store_position collate player name x y t = t\<lparr>tb_characters := (tb_characters t)
     ((player, collate name) \<mapsto> (case tb_characters t (player, collate name) of
        None \<Rightarrow> \<lparr>ch_name = name, ch_level = 1, ch_gold = 0,
                  ch_x = word_of_int x, ch_y = word_of_int y\<rparr>
      | Some row \<Rightarrow> row\<lparr>ch_x := word_of_int x, ch_y := word_of_int y\<rparr>))\<rparr>"

definition store_item :: "64 word \<Rightarrow> 32 word \<Rightarrow> 64 word \<Rightarrow> 32 word \<Rightarrow> game_tables \<Rightarrow> game_tables" where
  "store_item player slot item count t = t\<lparr>tb_items := (tb_items t)
     ((player, slot) := (if count = 0 then None else Some \<lparr>it_item = item, it_count = count\<rparr>))\<rparr>"

definition add_account :: "(string \<Rightarrow> string) \<Rightarrow> string \<Rightarrow> player_row \<Rightarrow> game_tables \<Rightarrow> game_tables" where
  "add_account collate account row t = t\<lparr>tb_players := (tb_players t)(collate account \<mapsto> row)\<rparr>"

definition owner :: "(string \<Rightarrow> string) \<Rightarrow> game_tables \<Rightarrow> string \<Rightarrow> 64 word \<Rightarrow> bool" where
  "owner collate t account player \<longleftrightarrow> map_option pl_id (tb_players t (collate account)) = Some player"

definition characters_of :: "game_tables \<Rightarrow> 64 word \<Rightarrow> string list \<Rightarrow> bool" where
  "characters_of t player names \<longleftrightarrow>
     distinct names \<and> set names = {name. tb_characters t (player, name) \<noteq> None}"

definition slots_of :: "game_tables \<Rightarrow> 64 word \<Rightarrow> 32 word list \<Rightarrow> bool" where
  "slots_of t player slots \<longleftrightarrow>
     sorted_wrt (<) slots \<and> set slots = {slot. tb_items t (player, slot) \<noteq> None}"

section \<open>The statements of the program\<close>

definition sql_insert_player :: string where
  "sql_insert_player = ''INSERT INTO players(account, display_name) VALUES (?, ?)''"

definition sql_select_login :: string where
  "sql_select_login = ''SELECT id, display_name FROM players WHERE account = ?''"

definition sql_update_login :: string where
  "sql_update_login = ''UPDATE players SET last_login_at = NOW() WHERE id = ?''"

definition sql_select_id :: string where
  "sql_select_id = ''SELECT id FROM players WHERE account = ?''"

definition sql_lock_id :: string where
  "sql_lock_id = ''SELECT id FROM players WHERE account = ? FOR UPDATE''"

definition sql_upsert_character :: string where
  "sql_upsert_character = ''INSERT INTO characters(player_id, name, level, gold) VALUES (?, ?, ?, ?) '' @
     ''ON DUPLICATE KEY UPDATE level = VALUES(level), gold = VALUES(gold)''"

definition sql_upsert_position :: string where
  "sql_upsert_position =
     ''INSERT INTO characters(player_id, name, level, gold, x, y) VALUES (?, ?, 1, 0, ?, ?) '' @
     ''ON DUPLICATE KEY UPDATE x = VALUES(x), y = VALUES(y)''"

definition sql_delete_item :: string where
  "sql_delete_item = ''DELETE FROM inventory_items WHERE player_id = ? AND slot = ?''"

definition sql_upsert_item :: string where
  "sql_upsert_item = ''INSERT INTO inventory_items(player_id, slot, item_id, stack_count) '' @
     ''VALUES (?, ?, ?, ?) '' @ ''ON DUPLICATE KEY UPDATE item_id = VALUES(item_id), '' @
     ''stack_count = VALUES(stack_count)''"

definition sql_select_characters :: string where
  "sql_select_characters = ''SELECT c.name, c.level, c.gold, c.x, c.y '' @
     ''FROM players p JOIN characters c ON c.player_id = p.id '' @
     ''WHERE p.account = ? ORDER BY c.updated_at DESC, c.id DESC''"

definition character_columns :: "character_row \<Rightarrow> sql_row" where
  "character_columns row = [SQL_Text (ch_name row), SQL_Int (uint (ch_level row)),
     SQL_Int (uint (ch_gold row)), SQL_Int (sint (ch_x row)), SQL_Int (sint (ch_y row))]"

definition sql_select_items :: string where
  "sql_select_items = ''SELECT i.slot, i.item_id, i.stack_count '' @
     ''FROM players p JOIN inventory_items i ON i.player_id = p.id '' @
     ''WHERE p.account = ? ORDER BY i.slot''"

definition item_columns :: "32 word \<Rightarrow> item_row \<Rightarrow> sql_row" where
  "item_columns slot row = [SQL_Int (uint slot), SQL_Int (uint (it_item row)), SQL_Int (uint (it_count row))]"

text \<open>The statements that change no table of the model; they run outside a transaction.\<close>

definition reads :: "string set" where
  "reads = {sql_select_login, sql_update_login, sql_select_id, sql_select_characters, sql_select_items}"

section \<open>Triples for operations that may throw\<close>

text \<open>\<open>db_triple P m Q E\<close>: from a state in \<open>P\<close>, \<open>m\<close> ends with a value and state in \<open>Q\<close> or an exception
  and state in \<open>E\<close>.\<close>

definition db_triple :: "('db \<Rightarrow> bool) \<Rightarrow> ('db, 'a) db_op \<Rightarrow> ('a \<Rightarrow> 'db \<Rightarrow> bool) \<Rightarrow>
    (exn \<Rightarrow> 'db \<Rightarrow> bool) \<Rightarrow> bool" where
  "db_triple P m Q E \<longleftrightarrow> (\<forall>db. P db \<longrightarrow> (case m db of
     (Inl e, db') \<Rightarrow> E e db' | (Inr x, db') \<Rightarrow> Q x db'))"

lemma db_tripleD: "db_triple P m Q E \<Longrightarrow> P db \<Longrightarrow> m db = (Inr x, db') \<Longrightarrow> Q x db'"
  "db_triple P m Q E \<Longrightarrow> P db \<Longrightarrow> m db = (Inl e, db') \<Longrightarrow> E e db'"
  by (force simp: db_triple_def)+

lemma db_triple_bind:
  assumes "db_triple P m R E" and "\<And>x. db_triple (R x) (f x) Q E"
  shows "db_triple P (db_bind m f) Q E"
  unfolding db_triple_def
proof (intro allI impI)
  fix db assume "P db"
  obtain r db1 where m: "m db = (r, db1)" by (cases "m db")
  show "case db_bind m f db of (Inl e, db') \<Rightarrow> E e db' | (Inr x, db') \<Rightarrow> Q x db'"
  proof (cases r)
    case (Inl e)
    then have "E e db1" using assms(1) \<open>P db\<close> m by (simp add: db_tripleD(2))
    then show ?thesis by (simp add: db_bind_def m Inl)
  next
    case (Inr x)
    then have "R x db1" using assms(1) \<open>P db\<close> m by (simp add: db_tripleD(1))
    with assms(2) [of x] show ?thesis by (simp add: db_triple_def db_bind_def m Inr)
  qed
qed

lemma db_triple_return: "(\<And>db. P db \<Longrightarrow> Q x db) \<Longrightarrow> db_triple P (db_return x) Q E"
  by (simp add: db_triple_def db_return_def)

lemma db_bind_value [simp]: "db_bind (db_result (Inr x)) f = f x"
  by (rule ext) (simp add: db_bind_def db_result_def)

lemma db_bind_throw [simp]: "db_bind (db_result (Inl e)) f = db_result (Inl e)"
  by (rule ext) (simp add: db_bind_def db_result_def)

lemma db_triple_throw: "(\<And>db. P db \<Longrightarrow> E e db) \<Longrightarrow> db_triple P (db_result (Inl e)) Q E"
  by (simp add: db_triple_def db_result_def)

lemma db_triple_result:
  "(\<And>db x. P db \<Longrightarrow> r = Inr x \<Longrightarrow> Q x db) \<Longrightarrow> (\<And>db e. P db \<Longrightarrow> r = Inl e \<Longrightarrow> E e db) \<Longrightarrow>
   db_triple P (db_result r) Q E"
  by (auto simp: db_triple_def db_result_def split: sum.splits)

lemma db_triple_check:
  "(\<And>e db. P db \<Longrightarrow> E e db) \<Longrightarrow> db_triple P (db_check call context) (\<lambda>_. P) E"
  by (auto simp: db_triple_def db_check_def split: option.splits)

lemma db_triple_statement:
  assumes "db_triple P m Q E" and "\<And>e db. P db \<Longrightarrow> E e db"
    and "\<And>db r db'. my_stmt_init my db = (r, db') \<Longrightarrow> P db \<Longrightarrow> P db'"
    and "\<And>x db. Q x db \<Longrightarrow> Q x (my_stmt_close my db)" and "\<And>e db. E e db \<Longrightarrow> E e (my_stmt_close my db)"
  shows "db_triple P (with_statement my sql m) Q E"
  unfolding with_statement_def
proof (rule db_triple_bind)
  show "db_triple P (stmt_new my sql) (\<lambda>_. P) E"
    using assms(2,3,5) by (fastforce simp: db_triple_def stmt_new_def split: prod.splits option.splits)
  show "db_triple P (\<lambda>db. case m db of (r, db') \<Rightarrow> (r, my_stmt_close my db')) Q E"
    using assms(1,4,5) by (fastforce simp: db_triple_def split: prod.splits sum.splits)
qed

lemma db_triple_stmt:
  "(\<And>e db. P db \<Longrightarrow> E e db) \<Longrightarrow> db_triple P (bind_params my sql params) (\<lambda>_. P) E"
  "(\<And>e db. P db \<Longrightarrow> E e db) \<Longrightarrow> db_triple P (store_rows my sql) (\<lambda>_. P) E"
  by (auto simp: bind_params_def store_rows_def intro!: db_triple_bind db_triple_check
      db_triple_return)

lemma db_triple_conseq:
  "db_triple P m Q E \<Longrightarrow> (\<And>db. P' db \<Longrightarrow> P db) \<Longrightarrow> (\<And>x db. Q x db \<Longrightarrow> Q' x db) \<Longrightarrow>
   (\<And>e db. E e db \<Longrightarrow> E' e db) \<Longrightarrow> db_triple P' m Q' E'"
  by (fastforce simp: db_triple_def split: prod.splits sum.splits)

lemma fetch_word_uint: "fetch_word (SQL_Int (uint w)) = \<lparr>f_value = w, f_null = False, f_error = False\<rparr>"
  using uint_lt2p [of w] by (simp add: fetch_word_def)

lemma db_triple_fetch_rows:
  assumes "\<And>e db. P db \<Longrightarrow> E e db"
  shows "db_triple P (fetch_rows my sql context invalid decode n rows)
    (\<lambda>texts db. P db \<and> map decode rows = map Some texts) E"
proof (induction rows arbitrary: n)
  case Nil
  show ?case by (simp add: db_triple_return)
next
  case (Cons row rows)
  show ?case
  proof (cases "decode row")
    case None
    then show ?thesis
      by (simp, intro db_triple_bind [OF db_triple_check] db_triple_throw) (auto intro: assms)
  next
    case (Some entry)
    have "db_triple P (db_bind (fetch_rows my sql context invalid decode (Suc n) rows)
        (\<lambda>texts. db_return (entry # texts)))
        (\<lambda>texts db. P db \<and> map decode (row # rows) = map Some texts) E"
      by (rule db_triple_bind [OF Cons.IH]) (rule db_triple_return, simp add: Some)
    then show ?thesis
      using Some by (simp, intro db_triple_bind [OF db_triple_check]) (auto intro: assms)
  qed
qed

text \<open>The text of a character and of an item in the answers of LOAD and LOAD_INVENTORY.\<close>

definition character_entry :: "character_row \<Rightarrow> string" where
  "character_entry row = ch_name row @ '':'' @ to_string_word (ch_level row) @ '':'' @
     to_string_word (ch_gold row) @ '':'' @ to_string_int (sint (ch_x row)) @ '':'' @
     to_string_int (sint (ch_y row))"

definition item_entry :: "32 word \<Rightarrow> item_row \<Rightarrow> string" where
  "item_entry slot row = to_string_word slot @ '':'' @ to_string_word (it_item row) @ '':'' @
     to_string_word (it_count row)"

definition load_line :: "string \<Rightarrow> string list \<Rightarrow> string" where
  "load_line account entries = ''OK LOAD account='' @ account @ '' character_count='' @
     dec_nat (length entries) @ (if entries \<noteq> [] then '' characters='' @ join_commas entries else '''')"

definition load_inventory_line :: "string \<Rightarrow> string list \<Rightarrow> string" where
  "load_inventory_line account entries = ''OK LOAD_INVENTORY account='' @ account @ '' item_count='' @
     dec_nat (length entries) @ (if entries \<noteq> [] then '' items='' @ join_commas entries else '''')"

lemma fetch_int_sint:
  "fetch_int (SQL_Int (sint (w :: 32 word))) = \<lparr>f_value = sint w, f_null = False, f_error = False\<rparr>"
  using sint_ge [of w] sint_lt [of w] by (simp add: fetch_int_def in_i32_def INT_MIN_def INT_MAX_def)

lemma decode_character_columns:
  "decode_character (character_columns row) =
     (if length (ch_name row) \<le> 128 then Some (character_entry row) else None)"
  by (simp add: decode_character_def character_columns_def column_def fetch_word_uint fetch_int_sint
      fetch_text_def character_entry_def)

lemma decode_item_columns: "decode_item (item_columns slot row) = Some (item_entry slot row)"
  by (simp add: decode_item_def item_columns_def column_def fetch_word_uint item_entry_def)



text \<open>A COMMIT that throws leaves the transaction open, undone or done.\<close>

definition commit_error :: "exn \<Rightarrow> bool" where
  "commit_error e \<longleftrightarrow> (\<exists>message. e = Runtime_Error (''COMMIT: '' @ message))"

section \<open>The documented behaviour of the database\<close>

locale game_store =
  fixes my :: "'db mysql" and tables :: "'db \<Rightarrow> game_tables" and saved :: "'db \<Rightarrow> game_tables option"
    and collate :: "string \<Rightarrow> string"
  assumes inits: "my_init my db = (b, db') \<Longrightarrow> tables db' = tables db \<and> saved db' = saved db"
    and connects: "my_connect my config db = (r, db') \<Longrightarrow> tables db' = tables db \<and> saved db' = saved db"
    and closes: "saved db = None \<Longrightarrow> tables (my_close my db) = tables db \<and> saved (my_close my db) = None"
    and stmt_inits: "my_stmt_init my db = (r, db') \<Longrightarrow> tables db' = tables db \<and> saved db' = saved db"
    and stmt_closes: "tables (my_stmt_close my db) = tables db \<and> saved (my_stmt_close my db) = saved db"
    and begins: "my_query my ''BEGIN'' db = (r, db') \<Longrightarrow> saved db = None \<Longrightarrow>
      tables db' = tables db \<and> saved db' = (if r = None then Some (tables db) else None)"
    and commits: "my_query my ''COMMIT'' db = (None, db') \<Longrightarrow>
      tables db' = tables db \<and> saved db' = None"
    and commit_fails: "my_query my ''COMMIT'' db = (Some message, db') \<Longrightarrow> saved db = Some t \<Longrightarrow>
      saved db' = Some t \<and> tables db' = tables db \<or> saved db' = None \<and> tables db' \<in> {t, tables db}"
    and rolls_back: "my_query my ''ROLLBACK'' db = (r, db') \<Longrightarrow>
      tables db' = (case saved db of None \<Rightarrow> tables db | Some t \<Rightarrow> t) \<and> saved db' = None"
    and fails: "my_execute my sql params db = (Inl e, db') \<Longrightarrow> saved db \<noteq> None \<or> sql \<in> reads \<Longrightarrow>
      tables db' = tables db \<and> saved db' = saved db \<or> saved db = Some (tables db') \<and> saved db' = None"
    and keeps_saved: "my_execute my sql params db = (Inr rows, db') \<Longrightarrow> saved db' = saved db"
    and selects_id: "my_execute my sql [P_String account] db = (Inr rows, db') \<Longrightarrow>
      sql = sql_select_id \<or> sql = sql_lock_id \<Longrightarrow> tables db' = tables db \<and>
      rows = (case tb_players (tables db) (collate account) of None \<Rightarrow> []
        | Some p \<Rightarrow> [[SQL_Int (uint (pl_id p))]])"
    and selects_login: "my_execute my sql_select_login [P_String account] db = (Inr rows, db') \<Longrightarrow>
      tables db' = tables db \<and> rows = (case tb_players (tables db) (collate account) of None \<Rightarrow> []
        | Some p \<Rightarrow> [[SQL_Int (uint (pl_id p)), SQL_Text (pl_display p)]])"
    and updates_login: "my_execute my sql_update_login [P_UInt64 player] db = (Inr rows, db') \<Longrightarrow>
      tables db' = tables db"
    and inserts_player: "my_execute my sql_insert_player [P_String account, P_String name] db = (Inr rows, db') \<Longrightarrow>
      tb_players (tables db) (collate account) = None \<and>
      (\<exists>player. tables db' = add_account collate account \<lparr>pl_id = player, pl_display = name\<rparr> (tables db))"
    and insert_fails: "my_execute my sql_insert_player [P_String account, P_String name] db = (Inl (errno, message), db') \<Longrightarrow>
      saved db = None \<Longrightarrow> saved db' = None \<and> (tables db' = tables db \<or> errno \<noteq> ER_DUP_ENTRY \<and>
      tb_players (tables db) (collate account) = None \<and>
      (\<exists>player. tables db' = add_account collate account \<lparr>pl_id = player, pl_display = name\<rparr> (tables db)))"
    and upserts_character: "my_execute my sql_upsert_character
        [P_UInt64 player, P_String name, P_UInt32 level, P_UInt64 gold] db = (Inr rows, db') \<Longrightarrow>
      tables db' = store_character collate player name level gold (tables db)"
    and upserts_position: "my_execute my sql_upsert_position
        [P_UInt64 player, P_String name, P_Int32 x, P_Int32 y] db = (Inr rows, db') \<Longrightarrow>
      tables db' = store_position collate player name x y (tables db)"
    and upserts_item: "my_execute my sql_upsert_item
        [P_UInt64 player, P_UInt32 slot, P_UInt64 item, P_UInt32 count] db = (Inr rows, db') \<Longrightarrow>
      count \<noteq> 0 \<Longrightarrow> tables db' = store_item player slot item count (tables db)"
    and deletes_item: "my_execute my sql_delete_item [P_UInt64 player, P_UInt32 slot] db = (Inr rows, db') \<Longrightarrow>
      tables db' = (tables db)\<lparr>tb_items := (tb_items (tables db))((player, slot) := None)\<rparr>"
    and selects_characters: "my_execute my sql_select_characters [P_String account] db = (Inr rows, db') \<Longrightarrow>
      tb_players (tables db) (collate account) = Some p \<Longrightarrow> tables db' = tables db \<and>
      (\<exists>names. distinct names \<and> set names = {name. tb_characters (tables db) (pl_id p, name) \<noteq> None} \<and>
        rows = map (\<lambda>name. character_columns (the (tb_characters (tables db) (pl_id p, name)))) names)"
    and selects_items: "my_execute my sql_select_items [P_String account] db = (Inr rows, db') \<Longrightarrow>
      tb_players (tables db) (collate account) = Some p \<Longrightarrow> tables db' = tables db \<and>
      (\<exists>slots. sorted_wrt (<) slots \<and> set slots = {slot. tb_items (tables db) (pl_id p, slot) \<noteq> None} \<and>
        rows = map (\<lambda>slot. item_columns slot (the (tb_items (tables db) (pl_id p, slot)))) slots)"
begin

definition view :: "game_tables \<Rightarrow> game_tables option \<Rightarrow> 'db \<Rightarrow> bool" where
  "view t s db \<longleftrightarrow> tables db = t \<and> saved db = s"

text \<open>After a failed statement: nothing changed, or the transaction is gone with its changes.\<close>

definition undone :: "game_tables \<Rightarrow> game_tables option \<Rightarrow> 'db \<Rightarrow> bool" where
  "undone t s db \<longleftrightarrow> view t s db \<or> (\<exists>t0. s = Some t0 \<and> view t0 None db)"

lemma undone_same [simp, intro]: "view t s db \<Longrightarrow> undone t s db"
  by (simp add: undone_def)

lemma undone_None [simp]: "undone t None = view t None"
  by (auto simp: undone_def fun_eq_iff)

text \<open>A statement object is invisible to what depends only on the tables and the snapshot.\<close>

lemma statement_triple:
  assumes "db_triple P m Q E" and "\<And>e db. P db \<Longrightarrow> E e db"
    and "\<And>db db'. P db \<Longrightarrow> tables db' = tables db \<Longrightarrow> saved db' = saved db \<Longrightarrow> P db'"
    and "\<And>x db db'. Q x db \<Longrightarrow> tables db' = tables db \<Longrightarrow> saved db' = saved db \<Longrightarrow> Q x db'"
    and "\<And>e db db'. E e db \<Longrightarrow> tables db' = tables db \<Longrightarrow> saved db' = saved db \<Longrightarrow> E e db'"
  shows "db_triple P (with_statement my sql m) Q E"
  by (rule db_triple_statement [OF assms(1,2)]) (use assms(3-5) stmt_inits stmt_closes in blast)+

lemma exec_triple:
  assumes "\<And>db db' rows. my_execute my sql params db = (Inr rows, db') \<Longrightarrow> tables db = t \<Longrightarrow>
    tables db' = t' \<and> R rows" and "s \<noteq> None \<or> sql \<in> reads"
  shows "db_triple (view t s) (stmt_execute my sql params)
    (\<lambda>rows db. view t' s db \<and> R rows) (\<lambda>_. undone t s)"
  unfolding db_triple_def
proof (intro allI impI)
  fix db assume v: "view t s db"
  show "case stmt_execute my sql params db of (Inl e, db') \<Rightarrow> undone t s db'
    | (Inr rows, db') \<Rightarrow> view t' s db' \<and> R rows"
  proof (cases "my_execute my sql params db")
    case (Pair r db')
    show ?thesis
    proof (cases r)
      case (Inl e)
      with v fails [of sql params db e db'] assms(2) Pair have "undone t s db'"
        by (auto simp: view_def undone_def)
      then show ?thesis using Pair Inl by (simp add: stmt_execute_def split: prod.split)
    next
      case (Inr rows)
      then show ?thesis using Pair v assms(1) keeps_saved by (auto simp: stmt_execute_def view_def)
    qed
  qed
qed

lemma prepared_triple:
  assumes "\<And>db db' rows. my_execute my sql params db = (Inr rows, db') \<Longrightarrow> tables db = t \<Longrightarrow> tables db' = t'"
    and "s \<noteq> None \<or> sql \<in> reads"
  shows "db_triple (view t s) (execute_prepared my sql params) (\<lambda>_. view t' s) (\<lambda>_. undone t s)"
  unfolding execute_prepared_def
  by (rule statement_triple, rule db_triple_bind, rule db_triple_stmt,
      erule undone_same, rule db_triple_bind, rule exec_triple [where R = "\<lambda>_. True"])
    (use assms in \<open>auto simp: view_def undone_def intro!: db_triple_return\<close>)

lemma begin_triple: "db_triple (view t None) (begin_txn my) (\<lambda>_. view t (Some t)) (\<lambda>_. view t None)"
  using begins by (auto simp: db_triple_def begin_txn_def sql_exec_def view_def split: prod.splits option.splits)

lemma commit_triple: "db_triple (view t (Some t0)) (commit_txn my) (\<lambda>_. view t None)
    (\<lambda>e db. undone t (Some t0) db \<or> commit_error e \<and> view t None db)"
  unfolding db_triple_def
proof (intro allI impI)
  fix db assume v: "view t (Some t0) db"
  obtain r db' where q: "my_query my ''COMMIT'' db = (r, db')" by (cases "my_query my ''COMMIT'' db")
  show "case commit_txn my db of
      (Inl e, db') \<Rightarrow> undone t (Some t0) db' \<or> commit_error e \<and> view t None db'
    | (Inr _, db') \<Rightarrow> view t None db'"
  proof (cases r)
    case None
    then show ?thesis using q v commits by (auto simp: commit_txn_def sql_exec_def view_def)
  next
    case (Some message)
    then show ?thesis
      using q v commit_fails [of db message db' t0]
      by (auto simp: commit_txn_def sql_exec_def view_def undone_def commit_error_def)
  qed
qed

lemma rollback_triple:
  assumes "db_triple P m Q (\<lambda>e db. saved db = Some t \<or> saved db = None \<and> G e (tables db))"
    and "\<And>e. G e t"
  shows "db_triple P (with_rollback my m) Q (\<lambda>e db. saved db = None \<and> G e (tables db))"
proof -
  have ends: "saved db' = None \<and> tables db' = (case saved db of None \<Rightarrow> tables db | Some t \<Rightarrow> t)"
    if "db' = rollback_noexcept my db" for db db'
    using rolls_back [of db] that by (cases "my_query my ''ROLLBACK'' db") (simp add: rollback_noexcept_def)
  show ?thesis
    unfolding db_triple_def
  proof (intro allI impI)
    fix db assume "P db"
    obtain r db' where m: "m db = (r, db')" by (cases "m db")
    show "case with_rollback my m db of (Inl e, db') \<Rightarrow> saved db' = None \<and> G e (tables db')
      | (Inr x, db') \<Rightarrow> Q x db'"
    proof (cases r)
      case (Inl e)
      with db_tripleD(2) [OF assms(1) \<open>P db\<close>] m
      have "saved db' = Some t \<or> saved db' = None \<and> G e (tables db')" by simp
      then show ?thesis using ends [OF refl, of db'] assms(2) m Inl by (auto simp: with_rollback_def)
    next
      case (Inr x)
      then show ?thesis using db_tripleD(1) [OF assms(1) \<open>P db\<close>] m by (simp add: with_rollback_def)
    qed
  qed
qed

end


text \<open>The operations, from a connection with no open transaction.\<close>

context game_store
begin

definition applied :: "game_tables \<Rightarrow> string \<Rightarrow> (64 word \<Rightarrow> game_tables) \<Rightarrow> 'db \<Rightarrow> bool" where
  "applied t account change db \<longleftrightarrow> (\<exists>player. owner collate t account player \<and> view (change player) None db)"

lemma select_id_triple:
  assumes "sql = sql_select_id \<or> sql = sql_lock_id" and "s \<noteq> None \<or> sql = sql_select_id"
  shows "db_triple (view t s) (select_player_id_impl my sql account)
    (\<lambda>player db. view t s db \<and> owner collate t account player) (\<lambda>_. undone t s)"
proof -
  let ?R = "\<lambda>rows. rows = (case tb_players t (collate account) of None \<Rightarrow> []
        | Some p \<Rightarrow> [[SQL_Int (uint (pl_id p))]])"
  have exec: "db_triple (view t s) (stmt_execute my sql [P_String account])
      (\<lambda>rows db. view t s db \<and> ?R rows) (\<lambda>_. undone t s)"
  proof (rule exec_triple)
    show "s \<noteq> None \<or> sql \<in> reads" using assms(2) by (auto simp: reads_def)
  qed (use selects_id assms(1) in blast)
  have rest: "db_triple (\<lambda>db. view t s db \<and> ?R rows) (case rows of
       [] \<Rightarrow> db_result (Inl (Runtime_Error (''unknown account: '' @ account)))
     | row # _ \<Rightarrow>
         db_bind (db_check (my_fetch_error my sql 0) ''fetch player failed'') (\<lambda>_.
         let id = (fetch_word (column row 0) :: 64 word fetched) in
         if f_null id \<or> f_error id
         then db_result (Inl (Runtime_Error (''invalid player id for account: '' @ account)))
         else db_return (f_value id)))
      (\<lambda>player db. view t s db \<and> owner collate t account player) (\<lambda>_. undone t s)" for rows
  proof (cases rows)
    case Nil
    then show ?thesis by (auto intro!: db_triple_throw)
  next
    case (Cons row more)
    show ?thesis
      unfolding Cons list.case
    proof (rule db_triple_bind [OF db_triple_check])
      show "db_triple (\<lambda>db. view t s db \<and> ?R (row # more))
        (let id = (fetch_word (column row 0) :: 64 word fetched) in
         if f_null id \<or> f_error id
         then db_result (Inl (Runtime_Error (''invalid player id for account: '' @ account)))
         else db_return (f_value id)) (\<lambda>player db. view t s db \<and> owner collate t account player) (\<lambda>_. undone t s)"
        by (auto simp: db_triple_def db_return_def db_result_def owner_def column_def fetch_word_uint
            split: option.splits)
    qed auto
  qed
  show ?thesis
    unfolding select_player_id_impl_def
    by (rule statement_triple, rule db_triple_bind, rule db_triple_stmt,
        erule undone_same, rule db_triple_bind [OF exec], rule db_triple_bind, rule db_triple_stmt,
        (elim conjE, erule undone_same), rule rest) (auto simp: view_def undone_def)
qed

text \<open>
  The shape the three saves share: lock the player, change one table, commit. Only a failing COMMIT can
  leave the change in place.
\<close>

lemma transaction_triple:
  assumes change: "\<And>player. owner collate t account player \<Longrightarrow>
    db_triple (view t (Some t)) (m player) (\<lambda>_. view (u player) (Some t)) (\<lambda>_. undone t (Some t))"
  shows "db_triple (view t None)
    (db_bind (begin_txn my) (\<lambda>_. db_bind (with_rollback my
       (db_bind (select_player_id_for_update my account) (\<lambda>player. db_bind (m player) (\<lambda>_. commit_txn my))))
       (\<lambda>_. db_return c)))
    (\<lambda>c' db. c' = c \<and> applied t account u db)
    (\<lambda>e db. view t None db \<or> commit_error e \<and> applied t account u db)"
proof -
  let ?G = "\<lambda>e t'. t' = t \<or> commit_error e \<and> (\<exists>player. owner collate t account player \<and> t' = u player)"
  let ?E = "\<lambda>e db. saved db = Some t \<or> saved db = None \<and> ?G e (tables db)"
  let ?Q = "\<lambda>_ :: unit. \<lambda>db. \<exists>player. owner collate t account player \<and> view (u player) None db"
  let ?m = "db_bind (select_player_id_for_update my account) (\<lambda>player. db_bind (m player) (\<lambda>_. commit_txn my))"
  have sel: "db_triple (view t (Some t)) (select_player_id_for_update my account)
      (\<lambda>player db. view t (Some t) db \<and> owner collate t account player) ?E"
    unfolding select_player_id_for_update_def sql_lock_id_def [symmetric]
    by (rule db_triple_conseq [OF select_id_triple]) (auto simp: view_def undone_def)
  have body: "db_triple (\<lambda>db. view t (Some t) db \<and> owner collate t account player)
      (db_bind (m player) (\<lambda>_. commit_txn my)) ?Q ?E" for player
  proof (cases "owner collate t account player")
    case True
    have ch: "db_triple (\<lambda>db. view t (Some t) db \<and> owner collate t account player) (m player)
        (\<lambda>_. view (u player) (Some t)) ?E"
      by (rule db_triple_conseq [OF change [OF True]]) (auto simp: view_def undone_def)
    show ?thesis
      by (rule db_triple_bind [OF ch], rule db_triple_conseq [OF commit_triple])
        (use True in \<open>auto simp: view_def undone_def\<close>)
  qed (simp add: db_triple_def)
  have "db_triple (view t (Some t)) (with_rollback my ?m) ?Q (\<lambda>e db. saved db = None \<and> ?G e (tables db))"
    by (rule rollback_triple [OF db_triple_bind [OF sel body]]) simp
  then have rest: "db_triple (view t (Some t)) (db_bind (with_rollback my ?m) (\<lambda>_. db_return c))
      (\<lambda>c' db. c' = c \<and> ?Q () db) (\<lambda>e db. saved db = None \<and> ?G e (tables db))" for x :: unit
    by (rule db_triple_bind) (rule db_triple_return, simp)
  have start: "db_triple (view t None) (begin_txn my) (\<lambda>_. view t (Some t))
      (\<lambda>e db. saved db = None \<and> ?G e (tables db))"
    by (rule db_triple_conseq [OF begin_triple]) (auto simp: view_def)
  show ?thesis
    by (rule db_triple_conseq [OF db_triple_bind [OF start rest]]) (auto simp: view_def applied_def)
qed


lemma save_character_triple:
  assumes "job_args job = account # character # level_text # gold_text # extra"
    and "stoul level_text = Inr level" and "stoull gold_text = Inr gold"
  shows "db_triple (view t None) (save_character my job) (\<lambda>c db. dc_ok c \<and> applied t account
      (\<lambda>player. store_character collate player character (ucast level) gold t) db)
    (\<lambda>e db. view t None db \<or> commit_error e \<and> applied t account
      (\<lambda>player. store_character collate player character (ucast level) gold t) db)"
proof -
  let ?m = "\<lambda>player. execute_prepared my sql_upsert_character
    [P_UInt64 player, P_String character, P_UInt32 (ucast level), P_UInt64 gold]"
  let ?u = "\<lambda>player. store_character collate player character (ucast level) gold t"
  have "db_triple (view t (Some t)) (?m player) (\<lambda>_. view (?u player) (Some t)) (\<lambda>_. undone t (Some t))" for player
    by (rule prepared_triple) (use upserts_character in auto)
  note txn = transaction_triple [of t account ?m ?u, OF this]
  have "\<exists>line. save_character my job = db_bind (begin_txn my) (\<lambda>_. db_bind (with_rollback my
      (db_bind (select_player_id_for_update my account) (\<lambda>player. db_bind (?m player) (\<lambda>_. commit_txn my))))
      (\<lambda>_. db_return (ok_completion job line)))"
    using assms by (simp add: save_character_def sql_upsert_character_def Let_def) (rule exI, rule refl)
  then show ?thesis
    by (elim exE, simp only:) (rule db_triple_conseq [OF txn], auto simp: ok_completion_def)
qed

lemma save_position_triple:
  assumes "job_args job = account # character # x_text # y_text # extra" and "stoi x_text = Inr x" and "stoi y_text = Inr y"
  shows "db_triple (view t None) (save_position my job) (\<lambda>c db. dc_ok c \<and> applied t account
      (\<lambda>player. store_position collate player character x y t) db)
    (\<lambda>e db. view t None db \<or> commit_error e \<and> applied t account
      (\<lambda>player. store_position collate player character x y t) db)"
proof -
  let ?m = "\<lambda>player. execute_prepared my sql_upsert_position
    [P_UInt64 player, P_String character, P_Int32 x, P_Int32 y]"
  let ?u = "\<lambda>player. store_position collate player character x y t"
  have "db_triple (view t (Some t)) (?m player) (\<lambda>_. view (?u player) (Some t)) (\<lambda>_. undone t (Some t))" for player
    by (rule prepared_triple) (use upserts_position in auto)
  note txn = transaction_triple [of t account ?m ?u, OF this]
  have "\<exists>line. save_position my job = db_bind (begin_txn my) (\<lambda>_. db_bind (with_rollback my
      (db_bind (select_player_id_for_update my account) (\<lambda>player. db_bind (?m player) (\<lambda>_. commit_txn my))))
      (\<lambda>_. db_return (ok_completion job line)))"
    using assms by (simp add: save_position_def sql_upsert_position_def Let_def) (rule exI, rule refl)
  then show ?thesis
    by (elim exE, simp only:) (rule db_triple_conseq [OF txn], auto simp: ok_completion_def)
qed

lemma save_item_triple:
  assumes "job_args job = account # slot_text # item_text # count_text # extra"
    and "stoul slot_text = Inr slot" and "stoull item_text = Inr item" and "stoul count_text = Inr count"
  shows "db_triple (view t None) (save_inventory_item my job) (\<lambda>c db. dc_ok c \<and> applied t account
      (\<lambda>player. store_item player (ucast slot) item (ucast count) t) db)
    (\<lambda>e db. view t None db \<or> commit_error e \<and> applied t account
      (\<lambda>player. store_item player (ucast slot) item (ucast count) t) db)"
proof -
  let ?slot = "ucast slot :: 32 word" and ?count = "ucast count :: 32 word"
  let ?m = "\<lambda>player. if ?count = 0 then execute_prepared my sql_delete_item [P_UInt64 player, P_UInt32 ?slot]
    else execute_prepared my sql_upsert_item [P_UInt64 player, P_UInt32 ?slot, P_UInt64 item, P_UInt32 ?count]"
  let ?u = "\<lambda>player. store_item player ?slot item ?count t"
  have "db_triple (view t (Some t)) (?m player) (\<lambda>_. view (?u player) (Some t)) (\<lambda>_. undone t (Some t))" for player
    by (cases "?count = 0")
      (simp_all, (rule prepared_triple, use deletes_item upserts_item in \<open>auto simp: store_item_def\<close>)+)
  note txn = transaction_triple [of t account ?m ?u, OF this]
  have "\<exists>line. save_inventory_item my job = db_bind (begin_txn my) (\<lambda>_. db_bind (with_rollback my
      (db_bind (select_player_id_for_update my account) (\<lambda>player. db_bind (?m player) (\<lambda>_. commit_txn my))))
      (\<lambda>_. db_return (ok_completion job line)))"
    using assms unfolding sql_delete_item_def sql_upsert_item_def
    by (simp add: save_inventory_item_def Let_def) (rule exI, rule refl)
  then show ?thesis
    by (elim exE, simp only:) (rule db_triple_conseq [OF txn], auto simp: ok_completion_def)
qed

definition registered :: "game_tables \<Rightarrow> string \<Rightarrow> string \<Rightarrow> 'db \<Rightarrow> bool" where
  "registered t account name db \<longleftrightarrow> tb_players t (collate account) = None \<and>
     (\<exists>player. view (add_account collate account \<lparr>pl_id = player, pl_display = name\<rparr> t) None db)"

lemma register_triple:
  assumes "job_args job = account # name # extra"
  shows "db_triple (view t None) (register_player my job)
    (\<lambda>c db. dc_ok c \<and> registered t account name db)
    (\<lambda>e db. view t None db \<or>
      e \<noteq> Runtime_Error (''account already exists: '' @ account) \<and> registered t account name db)"
proof -
  let ?exec = "\<lambda>db. case my_execute my sql_insert_player [P_String account, P_String name] db of
       (Inl (errno, message), db') \<Rightarrow>
         (Inl (Runtime_Error (if errno = ER_DUP_ENTRY then ''account already exists: '' @ account
            else ''mysql_stmt_execute failed: '' @ message)), db')
     | (Inr _, db') \<Rightarrow> (Inr (ok_completion job (''OK REGISTER account='' @ account @
            '' display_name='' @ name)), db')"
  let ?E = "\<lambda>e db. view t None db \<or>
      e \<noteq> Runtime_Error (''account already exists: '' @ account) \<and> registered t account name db"
  have eq: "register_player my job = with_statement my sql_insert_player (
     db_bind (bind_params my sql_insert_player [P_String account, P_String name]) (\<lambda>_. ?exec))"
    using assms by (simp add: register_player_def sql_insert_player_def Let_def)
  have exec: "db_triple (view t None) ?exec (\<lambda>c db. dc_ok c \<and> registered t account name db) ?E"
    unfolding db_triple_def
  proof (intro allI impI)
    fix db assume v: "view t None db"
    obtain r db' where m: "my_execute my sql_insert_player [P_String account, P_String name] db = (r, db')"
      by (cases "my_execute my sql_insert_player [P_String account, P_String name] db")
    show "case ?exec db of (Inl e, db') \<Rightarrow> ?E e db'
      | (Inr c, db') \<Rightarrow> dc_ok c \<and> registered t account name db'"
    proof (cases r)
      case (Inl e)
      obtain errno message where e: "e = (errno, message)" by (cases e)
      show ?thesis
        using v insert_fails [of account name db errno message db'] m Inl e
        by (auto simp: view_def registered_def)
    next
      case (Inr rows)
      then show ?thesis
        using v keeps_saved [of sql_insert_player _ db rows db'] inserts_player [of account name db rows db'] m
        by (auto simp: view_def registered_def ok_completion_def)
    qed
  qed
  show ?thesis
    unfolding eq
    by (rule statement_triple, rule db_triple_bind, rule db_triple_stmt, simp, rule exec)
      (auto simp: view_def registered_def)
qed

lemma login_triple:
  assumes "job_args job = account # extra"
  shows "db_triple (view t None) (login_player my job) (\<lambda>c db. view t None db \<and> dc_ok c \<and>
      (\<exists>p. tb_players t (collate account) = Some p \<and> length (pl_display p) \<le> 128 \<and>
         dc_line c = ''OK LOGIN player_id='' @ to_string_word (pl_id p) @ '' account='' @ account @
           '' display_name='' @ pl_display p))
    (\<lambda>_. view t None)"
proof -
  let ?sql = sql_select_login
  let ?R = "\<lambda>rows. rows = (case tb_players t (collate account) of None \<Rightarrow> []
        | Some p \<Rightarrow> [[SQL_Int (uint (pl_id p)), SQL_Text (pl_display p)]])"
  let ?rest = "\<lambda>rows. case rows of
       [] \<Rightarrow> db_result (Inl (Runtime_Error (''unknown account: '' @ account)))
     | row # _ \<Rightarrow>
         db_bind (db_check (my_fetch_error my ?sql 0) ''fetch player failed'') (\<lambda>_.
         let id = (fetch_word (column row 0) :: 64 word fetched);
             name = fetch_text 128 (column row 1) in
         if f_null id \<or> f_null name \<or> f_error id \<or> f_error name
         then db_result (Inl (Runtime_Error (''invalid player row for account: '' @ account)))
         else
           db_bind (execute_prepared my sql_update_login [P_UInt64 (f_value id)]) (\<lambda>_.
           db_return (ok_completion job (''OK LOGIN player_id='' @ to_string_word (f_value id) @
             '' account='' @ account @ '' display_name='' @ f_value name))))"
  let ?Q = "\<lambda>c db. view t None db \<and> dc_ok c \<and>
      (\<exists>p. tb_players t (collate account) = Some p \<and> length (pl_display p) \<le> 128 \<and>
         dc_line c = ''OK LOGIN player_id='' @ to_string_word (pl_id p) @ '' account='' @ account @
           '' display_name='' @ pl_display p)"
  have eq: "login_player my job = with_statement my ?sql (
     db_bind (bind_params my ?sql [P_String account]) (\<lambda>_.
     db_bind (stmt_execute my ?sql [P_String account]) (\<lambda>rows. db_bind (store_rows my ?sql) (\<lambda>_. ?rest rows))))"
    unfolding login_player_def sql_select_login_def sql_update_login_def Let_def using assms by simp
  have exec: "db_triple (view t None) (stmt_execute my ?sql [P_String account])
      (\<lambda>rows db. view t None db \<and> ?R rows) (\<lambda>_. view t None)"
    by (rule exec_triple [where s = None, simplified]) (use selects_login in \<open>auto simp: reads_def\<close>)
  have rest: "db_triple (\<lambda>db. view t None db \<and> ?R rows) (?rest rows) ?Q (\<lambda>_. view t None)" for rows
  proof (cases "rows \<noteq> [] \<and> ?R rows")
    case False
    then show ?thesis by (cases rows) (auto simp: db_triple_def db_result_def)
  next
    case True
    then obtain p where p: "tb_players t (collate account) = Some p"
        and rows: "rows = [[SQL_Int (uint (pl_id p)), SQL_Text (pl_display p)]]"
      by (auto split: option.splits)
    have upd: "db_triple (view t None) (execute_prepared my sql_update_login [P_UInt64 (pl_id p)])
        (\<lambda>_. view t None) (\<lambda>_. view t None)"
      by (rule prepared_triple [where s = None, simplified]) (use updates_login in \<open>auto simp: reads_def\<close>)
    show ?thesis
    proof (cases "length (pl_display p) \<le> 128")
      case True
      have "db_triple (view t None) (db_bind (execute_prepared my sql_update_login [P_UInt64 (pl_id p)])
          (\<lambda>_. db_return (ok_completion job (''OK LOGIN player_id='' @ to_string_word (pl_id p) @
             '' account='' @ account @ '' display_name='' @ pl_display p)))) ?Q (\<lambda>_. view t None)"
        by (rule db_triple_bind [OF upd]) (use p True in \<open>auto simp: ok_completion_def intro!: db_triple_return\<close>)
      then have "db_triple (view t None) (?rest rows) ?Q (\<lambda>_. view t None)"
        using True unfolding rows list.case
        by (intro db_triple_bind [OF db_triple_check]) (simp_all add: column_def fetch_word_uint fetch_text_def Let_def)
      then show ?thesis by (rule db_triple_conseq) auto
    next
      case False
      then have "db_triple (view t None) (?rest rows) ?Q (\<lambda>_. view t None)"
        unfolding rows list.case
        by (intro db_triple_bind [OF db_triple_check])
          (simp_all add: column_def fetch_word_uint fetch_text_def Let_def db_triple_throw)
      then show ?thesis by (rule db_triple_conseq) auto
    qed
  qed
  show ?thesis
    unfolding eq
    by (rule statement_triple, rule db_triple_bind, rule db_triple_stmt,
        assumption, rule db_triple_bind [OF exec], rule db_triple_bind, rule db_triple_stmt, simp, rule rest)
      (auto simp: view_def)
qed


text \<open>The shape the two loads share: look the account up, select its rows, decode each into a text.\<close>

lemma load_triple:
  assumes query: "\<And>db db' rows p. my_execute my sql [P_String account] db = (Inr rows, db') \<Longrightarrow>
      tb_players (tables db) (collate account) = Some p \<Longrightarrow> tables db' = tables db \<and> R (tables db) p rows"
    and "sql \<in> reads"
    and reply: "\<And>p rows texts. tb_players t (collate account) = Some p \<Longrightarrow> R t p rows \<Longrightarrow>
      map decode rows = map Some texts \<Longrightarrow> S p (reply texts)"
  shows "db_triple (view t None)
    (db_bind (select_player_id my account) (\<lambda>_. with_statement my sql (
     db_bind (bind_params my sql [P_String account]) (\<lambda>_. db_bind (stmt_execute my sql [P_String account]) (\<lambda>rows.
     db_bind (store_rows my sql) (\<lambda>_. db_bind (fetch_rows my sql context invalid decode 0 rows) (\<lambda>texts.
     db_return (reply texts))))))))
    (\<lambda>c db. view t None db \<and> (\<exists>p. tb_players t (collate account) = Some p \<and> S p c)) (\<lambda>_. view t None)"
proof (rule db_triple_bind [where R = "\<lambda>player db. view t None db \<and> owner collate t account player"])
  show "db_triple (view t None) (select_player_id my account)
      (\<lambda>player db. view t None db \<and> owner collate t account player) (\<lambda>_. view t None)"
    unfolding select_player_id_def sql_select_id_def [symmetric]
    by (rule db_triple_conseq [OF select_id_triple]) auto
next
  fix player
  let ?V = "\<lambda>db. view t None db \<and> owner collate t account player"
  show "db_triple ?V (with_statement my sql (
     db_bind (bind_params my sql [P_String account]) (\<lambda>_. db_bind (stmt_execute my sql [P_String account]) (\<lambda>rows.
     db_bind (store_rows my sql) (\<lambda>_. db_bind (fetch_rows my sql context invalid decode 0 rows) (\<lambda>texts.
     db_return (reply texts)))))))
    (\<lambda>c db. view t None db \<and> (\<exists>p. tb_players t (collate account) = Some p \<and> S p c)) (\<lambda>_. view t None)"
  proof (cases "owner collate t account player")
    case True
    then obtain p where p: "tb_players t (collate account) = Some p" by (auto simp: owner_def)
    let ?W = "\<lambda>rows db. view t None db \<and> R t p rows"
    have exec: "db_triple ?V (stmt_execute my sql [P_String account]) ?W (\<lambda>_. view t None)"
    proof (rule db_triple_conseq [OF exec_triple])
      show "\<And>db db' rows. my_execute my sql [P_String account] db = (Inr rows, db') \<Longrightarrow> tables db = t \<Longrightarrow>
          tables db' = t \<and> R t p rows"
        using query p by blast
    qed (use assms(2) in auto)
    have rest: "db_triple (?W rows) (db_bind (fetch_rows my sql context invalid decode 0 rows) (\<lambda>texts.
       db_return (reply texts)))
      (\<lambda>c db. view t None db \<and> (\<exists>p. tb_players t (collate account) = Some p \<and> S p c)) (\<lambda>_. view t None)" for rows
      by (rule db_triple_bind [OF db_triple_fetch_rows]) (auto intro!: db_triple_return reply p)
    show ?thesis
      by (rule statement_triple, rule db_triple_bind,
          rule db_triple_stmt, elim conjE, assumption, rule db_triple_bind [OF exec], rule db_triple_bind,
          rule db_triple_stmt, elim conjE, assumption, rule rest) (auto simp: view_def)
  qed (simp add: db_triple_def)
qed

lemma load_characters_triple:
  assumes "job_args job = account # extra"
  shows "db_triple (view t None) (load_characters my job)
    (\<lambda>c db. view t None db \<and> (\<exists>p. tb_players t (collate account) = Some p \<and>
      dc_ok c \<and> (\<exists>names. characters_of t (pl_id p) names \<and>
        (\<forall>name \<in> set names. length (ch_name (the (tb_characters t (pl_id p, name)))) \<le> 128) \<and>
        dc_line c = load_line account
          (map (\<lambda>name. character_entry (the (tb_characters t (pl_id p, name)))) names))))
    (\<lambda>_. view t None)"
proof -
  let ?reply = "\<lambda>entries. ok_completion job (load_line account entries)"
  let ?row = "\<lambda>t p name. the (tb_characters t (pl_id p, name))"
  let ?R = "\<lambda>t p rows. \<exists>names. characters_of t (pl_id p) names \<and>
      rows = map (\<lambda>name. character_columns (?row t p name)) names"
  have decoded: "(\<forall>name \<in> set names. length (ch_name (?row t p name)) \<le> 128) \<and>
      entries = map (\<lambda>name. character_entry (?row t p name)) names"
    if "map decode_character (map (\<lambda>name. character_columns (?row t p name)) names) = map Some entries"
    for names entries p
    using that
  proof (induction names arbitrary: entries)
    case (Cons name names)
    then show ?case by (cases entries) (auto simp: decode_character_columns split: if_splits)
  qed simp
  have eq: "load_characters my job = db_bind (select_player_id my account) (\<lambda>_.
     with_statement my sql_select_characters (
     db_bind (bind_params my sql_select_characters [P_String account]) (\<lambda>_.
     db_bind (stmt_execute my sql_select_characters [P_String account]) (\<lambda>rows.
     db_bind (store_rows my sql_select_characters) (\<lambda>_.
     db_bind (fetch_rows my sql_select_characters ''fetch character failed''
       (''invalid character row for account: '' @ account) decode_character 0 rows) (\<lambda>entries.
     db_return (?reply entries)))))))"
    unfolding load_characters_def sql_select_characters_def load_line_def Let_def using assms by simp
  show ?thesis
    unfolding eq
  proof (rule load_triple [where R = ?R])
    fix db db' rows p
    assume "my_execute my sql_select_characters [P_String account] db = (Inr rows, db')"
      and "tb_players (tables db) (collate account) = Some p"
    then show "tables db' = tables db \<and> ?R (tables db) p rows"
      using selects_characters unfolding characters_of_def by blast
  next
    show "sql_select_characters \<in> reads" by (simp add: reads_def)
  next
    fix p rows entries
    assume "?R t p rows" and "map decode_character rows = map Some entries"
    then obtain names where "characters_of t (pl_id p) names"
      and "map decode_character (map (\<lambda>name. character_columns (?row t p name)) names) = map Some entries" by blast
    with decoded [of p names entries]
    show "dc_ok (?reply entries) \<and> (\<exists>names. characters_of t (pl_id p) names \<and>
        (\<forall>name \<in> set names. length (ch_name (?row t p name)) \<le> 128) \<and>
        dc_line (?reply entries) = load_line account (map (\<lambda>name. character_entry (?row t p name)) names))"
      by (auto simp: ok_completion_def)
  qed
qed

lemma load_inventory_triple:
  assumes "job_args job = account # extra"
  shows "db_triple (view t None) (load_inventory my job)
    (\<lambda>c db. view t None db \<and> (\<exists>p. tb_players t (collate account) = Some p \<and>
      dc_ok c \<and> (\<exists>slots. slots_of t (pl_id p) slots \<and> dc_line c = load_inventory_line account
          (map (\<lambda>slot. item_entry slot (the (tb_items t (pl_id p, slot)))) slots))))
    (\<lambda>_. view t None)"
proof -
  let ?reply = "\<lambda>entries. ok_completion job (load_inventory_line account entries)"
  let ?row = "\<lambda>t p slot. the (tb_items t (pl_id p, slot))"
  let ?R = "\<lambda>t p rows. \<exists>slots. slots_of t (pl_id p) slots \<and>
      rows = map (\<lambda>slot. item_columns slot (?row t p slot)) slots"
  have decoded: "entries = map (\<lambda>slot. item_entry slot (?row t p slot)) slots"
    if "map decode_item (map (\<lambda>slot. item_columns slot (?row t p slot)) slots) = map Some entries"
    for slots entries p
    using that
  proof (induction slots arbitrary: entries)
    case (Cons slot slots)
    then show ?case by (cases entries) (auto simp: decode_item_columns)
  qed simp
  have eq: "load_inventory my job = db_bind (select_player_id my account) (\<lambda>_.
     with_statement my sql_select_items (
     db_bind (bind_params my sql_select_items [P_String account]) (\<lambda>_.
     db_bind (stmt_execute my sql_select_items [P_String account]) (\<lambda>rows.
     db_bind (store_rows my sql_select_items) (\<lambda>_.
     db_bind (fetch_rows my sql_select_items ''fetch inventory failed''
       (''invalid inventory row for account: '' @ account) decode_item 0 rows) (\<lambda>entries.
     db_return (?reply entries)))))))"
    unfolding load_inventory_def sql_select_items_def load_inventory_line_def Let_def using assms by simp
  show ?thesis
    unfolding eq
  proof (rule load_triple [where R = ?R])
    fix db db' rows p
    assume "my_execute my sql_select_items [P_String account] db = (Inr rows, db')"
      and "tb_players (tables db) (collate account) = Some p"
    then show "tables db' = tables db \<and> ?R (tables db) p rows"
      using selects_items unfolding slots_of_def by blast
  next
    show "sql_select_items \<in> reads" by (simp add: reads_def)
  next
    fix p rows entries
    assume "?R t p rows" and "map decode_item rows = map Some entries"
    then obtain slots where "slots_of t (pl_id p) slots"
      and "map decode_item (map (\<lambda>slot. item_columns slot (?row t p slot)) slots) = map Some entries" by blast
    with decoded [of p slots entries]
    show "dc_ok (?reply entries) \<and> (\<exists>slots. slots_of t (pl_id p) slots \<and>
        dc_line (?reply entries) = load_inventory_line account (map (\<lambda>slot. item_entry slot (?row t p slot)) slots))"
      by (auto simp: ok_completion_def)
  qed
qed

end

end
