(* ===== verification/Job_Contract.thy ===== *)
theory Job_Contract
  imports Game_Store
begin

text \<open>
  One contract for \<open>execute_job\<close>, whatever the operation and the arguments: \<open>job_change\<close> is the change to the
  tables a job asks for, and the triples of \<open>Game_Store\<close> give that an answered OK means exactly that change,
  an exception means none of it or, when the connection broke around a COMMIT or an INSERT, all of it, and no
  transaction stays open. Arguments that do not convert throw before any statement is sent.
\<close>

section \<open>The change a job asks for\<close>

definition job_change :: "(string \<Rightarrow> string) \<Rightarrow> db_job \<Rightarrow> game_tables \<Rightarrow> game_tables \<Rightarrow> bool" where
  "job_change collate job t t' \<longleftrightarrow> (case job_operation job of
     DbRegisterPlayer \<Rightarrow> (\<exists>account name extra player.
       job_args job = account # name # extra \<and> tb_players t (collate account) = None \<and>
       t' = add_account collate account \<lparr>pl_id = player, pl_display = name\<rparr> t)
   | DbSaveCharacter \<Rightarrow> (\<exists>account name level_text gold_text extra level gold player.
       job_args job = account # name # level_text # gold_text # extra \<and>
       stoul level_text = Inr level \<and> stoull gold_text = Inr gold \<and> owner collate t account player \<and>
       t' = store_character collate player name (ucast level) gold t)
   | DbSavePosition \<Rightarrow> (\<exists>account name x_text y_text extra x y player.
       job_args job = account # name # x_text # y_text # extra \<and>
       stoi x_text = Inr x \<and> stoi y_text = Inr y \<and> owner collate t account player \<and>
       t' = store_position collate player name x y t)
   | DbSaveInventoryItem \<Rightarrow> (\<exists>account slot_text item_text count_text extra slot item count player.
       job_args job = account # slot_text # item_text # count_text # extra \<and>
       stoul slot_text = Inr slot \<and> stoull item_text = Inr item \<and> stoul count_text = Inr count \<and>
       owner collate t account player \<and> t' = store_item player (ucast slot) item (ucast count) t)
   | DbLoginPlayer \<Rightarrow> t' = t
   | DbLoadCharacters \<Rightarrow> t' = t
   | DbLoadInventory \<Rightarrow> t' = t)"

text \<open>The exceptions after which the change may have been made: a failed COMMIT, and an INSERT of an account
  that failed for another reason than a duplicate.\<close>

definition uncertain :: "db_job \<Rightarrow> exn \<Rightarrow> bool" where
  "uncertain job e \<longleftrightarrow> commit_error e \<or> job_operation job = DbRegisterPlayer \<and>
     e \<noteq> Runtime_Error (''account already exists: '' @ hd (job_args job))"

section \<open>Arguments that throw\<close>

definition throws :: "('db, 'a) db_op \<Rightarrow> bool" where
  "throws m \<longleftrightarrow> (\<exists>e. m = db_result (Inl e))"

lemma throws_bind: "(\<And>x. r = Inr x \<Longrightarrow> throws (f x)) \<Longrightarrow> throws (db_bind (db_result r) f)"
  by (cases r) (auto simp: throws_def)

lemma throws_result [simp]: "throws (db_result (Inl e))"
  unfolding throws_def by blast

lemma throws_triple: "throws m \<Longrightarrow> db_triple P m Q (\<lambda>_. P)"
  by (auto simp: throws_def intro: db_triple_throw)

lemma vector_at_Inr: "vector_at xs i = Inr x \<longleftrightarrow> i < length xs \<and> xs ! i = x"
  by (simp add: vector_at_def)

lemma four_args:
  assumes "vector_at xs 0 = Inr a" and "vector_at xs 1 = Inr b" and "bind_result (vector_at xs 2) f = Inr c"
    and "bind_result (vector_at xs 3) g = Inr d"
  shows "\<exists>c' d' extra. xs = a # b # c' # d' # extra \<and> f c' = Inr c \<and> g d' = Inr d"
proof -
  obtain c' d' where at: "vector_at xs 2 = Inr c'" "f c' = Inr c" "vector_at xs 3 = Inr d'" "g d' = Inr d"
    using assms(3,4) by (auto simp: bind_result_Inr_iff)
  then show ?thesis
    using assms(1,2)
    by (cases xs; cases "tl xs"; cases "tl (tl xs)"; cases "tl (tl (tl xs))")
      (auto simp: vector_at_Inr)
qed

lemma save_character_throws:
  assumes "\<nexists>account name level_text gold_text extra level gold.
    job_args job = account # name # level_text # gold_text # extra \<and>
    stoul level_text = Inr level \<and> stoull gold_text = Inr gold"
  shows "throws (save_character my job)"
  unfolding save_character_def Let_def
  by (intro throws_bind, drule (3) four_args) (use assms in blast)

lemma save_position_throws:
  assumes "\<nexists>account name x_text y_text extra x y.
    job_args job = account # name # x_text # y_text # extra \<and> stoi x_text = Inr x \<and> stoi y_text = Inr y"
  shows "throws (save_position my job)"
  unfolding save_position_def Let_def
  by (intro throws_bind, drule (3) four_args) (use assms in blast)

lemma save_item_throws:
  assumes "\<nexists>account slot_text item_text count_text extra slot item count.
    job_args job = account # slot_text # item_text # count_text # extra \<and>
    stoul slot_text = Inr slot \<and> stoull item_text = Inr item \<and> stoul count_text = Inr count"
  shows "throws (save_inventory_item my job)"
proof -
  have shape: "\<exists>account slot_text item_text count_text extra.
      job_args job = account # slot_text # item_text # count_text # extra \<and>
      stoul slot_text = Inr slot \<and> stoull item_text = Inr item \<and> stoul count_text = Inr count"
    if at: "vector_at (job_args job) 0 = Inr a" "bind_result (vector_at (job_args job) 1) stoul = Inr slot"
      "bind_result (vector_at (job_args job) 2) stoull = Inr item"
      "bind_result (vector_at (job_args job) 3) stoul = Inr count" for a slot item count
  proof -
    obtain slot_text where "vector_at (job_args job) 1 = Inr slot_text" "stoul slot_text = Inr slot"
      using at(2) by (auto simp: bind_result_Inr_iff)
    with four_args [OF at(1) _ at(3,4)] show ?thesis by blast
  qed
  show ?thesis
    unfolding save_inventory_item_def Let_def
    by (intro throws_bind, drule (3) shape) (use assms in blast)
qed

lemma register_throws:
  assumes "\<nexists>account name extra. job_args job = account # name # extra"
  shows "throws (register_player my job)"
  unfolding register_player_def Let_def
proof (intro throws_bind)
  fix account name
  assume "vector_at (job_args job) 0 = Inr account" and "vector_at (job_args job) 1 = Inr name"
  then have "\<exists>extra. job_args job = account # name # extra"
    by (cases "job_args job"; cases "tl (job_args job)") (auto simp: vector_at_Inr)
  then show "throws (with_statement my ''INSERT INTO players(account, display_name) VALUES (?, ?)'' (
     db_bind (bind_params my ''INSERT INTO players(account, display_name) VALUES (?, ?)''
       [P_String account, P_String name]) (\<lambda>_ db.
     case my_execute my ''INSERT INTO players(account, display_name) VALUES (?, ?)''
       [P_String account, P_String name] db of
       (Inl (errno, message), db') \<Rightarrow>
         (Inl (Runtime_Error (if errno = ER_DUP_ENTRY then ''account already exists: '' @ account
            else ''mysql_stmt_execute failed: '' @ message)), db')
     | (Inr _, db') \<Rightarrow>
         (Inr (ok_completion job (''OK REGISTER account='' @ account @
            '' display_name='' @ name)), db'))))"
    using assms by blast
qed

lemma account_throws:
  assumes "job_args job = []"
  shows "throws (login_player my job)" "throws (load_characters my job)" "throws (load_inventory my job)"
  unfolding login_player_def load_characters_def load_inventory_def Let_def
  using assms by (auto intro!: throws_bind simp: vector_at_def)


section \<open>The contract\<close>

context game_store
begin

definition after_ok :: "game_tables \<Rightarrow> db_job \<Rightarrow> 'db \<Rightarrow> bool" where
  "after_ok t job db \<longleftrightarrow> saved db = None \<and> job_change collate job t (tables db)"

definition after_error :: "game_tables \<Rightarrow> db_job \<Rightarrow> exn \<Rightarrow> 'db \<Rightarrow> bool" where
  "after_error t job e db \<longleftrightarrow> saved db = None \<and>
     (tables db = t \<or> uncertain job e \<and> job_change collate job t (tables db))"

definition job_triple :: "game_tables \<Rightarrow> db_job \<Rightarrow> ('db, db_completion) db_op \<Rightarrow> bool" where
  "job_triple t job m \<longleftrightarrow> db_triple (view t None) m (\<lambda>_. after_ok t job) (after_error t job)"

lemma view_after_error [simp]: "view t None db \<Longrightarrow> after_error t job e db"
  by (simp add: view_def after_error_def)

lemma job_triple_throws: "throws m \<Longrightarrow> job_triple t job m"
  unfolding job_triple_def by (rule db_triple_conseq [OF throws_triple [where P = "view t None" and Q = "\<lambda>_. after_ok t job"]]) auto

lemma job_triple_reads:
  assumes "db_triple (view t None) m Q (\<lambda>_. view t None)" and "\<And>c db. Q c db \<Longrightarrow> view t None db"
    and "job_change collate job t t"
  shows "job_triple t job m"
  unfolding job_triple_def
  by (rule db_triple_conseq [OF assms(1)]) (use assms(2,3) in \<open>auto simp: after_ok_def view_def\<close>)

lemma job_triple_writes:
  assumes "db_triple (view t None) m Q (\<lambda>e db. view t None db \<or> E e db)"
    and "\<And>c db. Q c db \<Longrightarrow> after_ok t job db" and "\<And>e db. E e db \<Longrightarrow> uncertain job e \<and> after_ok t job db"
  shows "job_triple t job m"
  unfolding job_triple_def
  by (rule db_triple_conseq [OF assms(1)]) (use assms(2,3) in \<open>auto simp: after_ok_def after_error_def view_def\<close>)

lemma execute_job_triple: "job_triple t job (execute_job my job)"
proof (cases "job_operation job")
  case op: DbRegisterPlayer
  show ?thesis
  proof (cases "\<exists>account name extra. job_args job = account # name # extra")
    case True
    then obtain account name extra where args: "job_args job = account # name # extra" by blast
    have "after_ok t job db" if "registered t account name db" for db
      using that args op by (auto simp: registered_def after_ok_def view_def job_change_def)
    then have "job_triple t job (register_player my job)"
      by (intro job_triple_writes [OF register_triple [OF args]]) (auto simp: uncertain_def op args)
    then show ?thesis using op by (simp add: execute_job_def)
  next
    case False
    then show ?thesis using op job_triple_throws [OF register_throws] by (auto simp: execute_job_def)
  qed
next
  case op: DbSaveCharacter
  show ?thesis
  proof (cases "\<exists>account name level_text gold_text extra level gold.
      job_args job = account # name # level_text # gold_text # extra \<and>
      stoul level_text = Inr level \<and> stoull gold_text = Inr gold")
    case True
    then obtain account name level_text gold_text extra level gold
      where args: "job_args job = account # name # level_text # gold_text # extra"
        and nums: "stoul level_text = Inr level" "stoull gold_text = Inr gold" by blast
    have "after_ok t job db"
      if "applied t account (\<lambda>player. store_character collate player name (ucast level) gold t) db" for db
      using that args nums op by (auto simp: applied_def after_ok_def view_def job_change_def)
    then have "job_triple t job (save_character my job)"
      by (intro job_triple_writes [OF save_character_triple [OF args nums]]) (auto simp: uncertain_def)
    then show ?thesis using op by (simp add: execute_job_def)
  next
    case False
    then show ?thesis using op job_triple_throws [OF save_character_throws] by (simp add: execute_job_def)
  qed
next
  case op: DbSavePosition
  show ?thesis
  proof (cases "\<exists>account name x_text y_text extra x y.
      job_args job = account # name # x_text # y_text # extra \<and> stoi x_text = Inr x \<and> stoi y_text = Inr y")
    case True
    then obtain account name x_text y_text extra x y
      where args: "job_args job = account # name # x_text # y_text # extra"
        and nums: "stoi x_text = Inr x" "stoi y_text = Inr y" by blast
    have "after_ok t job db"
      if "applied t account (\<lambda>player. store_position collate player name x y t) db" for db
      using that args nums op by (auto simp: applied_def after_ok_def view_def job_change_def)
    then have "job_triple t job (save_position my job)"
      by (intro job_triple_writes [OF save_position_triple [OF args nums]]) (auto simp: uncertain_def)
    then show ?thesis using op by (simp add: execute_job_def)
  next
    case False
    then show ?thesis using op job_triple_throws [OF save_position_throws] by (simp add: execute_job_def)
  qed
next
  case op: DbSaveInventoryItem
  show ?thesis
  proof (cases "\<exists>account slot_text item_text count_text extra slot item count.
      job_args job = account # slot_text # item_text # count_text # extra \<and>
      stoul slot_text = Inr slot \<and> stoull item_text = Inr item \<and> stoul count_text = Inr count")
    case True
    then obtain account slot_text item_text count_text extra slot item count
      where args: "job_args job = account # slot_text # item_text # count_text # extra"
        and nums: "stoul slot_text = Inr slot" "stoull item_text = Inr item" "stoul count_text = Inr count" by blast
    have "after_ok t job db"
      if "applied t account (\<lambda>player. store_item player (ucast slot) item (ucast count) t) db" for db
      using that args nums op by (auto simp: applied_def after_ok_def view_def job_change_def)
    then have "job_triple t job (save_inventory_item my job)"
      by (intro job_triple_writes [OF save_item_triple [OF args nums]]) (auto simp: uncertain_def)
    then show ?thesis using op by (simp add: execute_job_def)
  next
    case False
    then show ?thesis using op job_triple_throws [OF save_item_throws] by (simp add: execute_job_def)
  qed
next
  case op: DbLoginPlayer
  then have same: "job_change collate job t t" by (simp add: job_change_def)
  show ?thesis
    by (cases "job_args job")
      (simp_all add: execute_job_def op job_triple_throws account_throws
        job_triple_reads [OF login_triple _ same])
next
  case op: DbLoadCharacters
  then have same: "job_change collate job t t" by (simp add: job_change_def)
  show ?thesis
    by (cases "job_args job")
      (simp_all add: execute_job_def op job_triple_throws account_throws
        job_triple_reads [OF load_characters_triple _ same])
next
  case op: DbLoadInventory
  then have same: "job_change collate job t t" by (simp add: job_change_def)
  show ?thesis
    by (cases "job_args job")
      (simp_all add: execute_job_def op job_triple_throws account_throws
        job_triple_reads [OF load_inventory_triple _ same])
qed

end

end
