(* ===== verification/Game_Engine.thy ===== *)
theory Game_Engine
  imports Game_Store Protocol "HOL-Library.AList"
begin

text \<open>
  A small relational engine for the statements of the program on the tables of db/schema.sql. It shows that
  the laws of \<open>game_store\<close> can hold together, and it is the database of the witnesses. Names are compared
  without regard to case, ids count upwards as AUTO_INCREMENT does, INSERT refuses a second row of an account
  and a name that cannot fit VARCHAR(64), and an upsert refuses a player that does not exist (the foreign
  keys of the schema). \<open>eg_stmts\<close> and \<open>eg_conns\<close> count the handles the client library has given out and not
  got back.
\<close>

section \<open>The data of the engine\<close>

record engine_tables =
  et_next :: "64 word"
  et_players :: "(string \<times> player_row) list"
  et_characters :: "((64 word \<times> string) \<times> character_row) list"
  et_items :: "((64 word \<times> 32 word) \<times> item_row) list"

record engine =
  eg_data :: engine_tables
  eg_saved :: "engine_tables option"
  eg_stmts :: int
  eg_conns :: int

definition engine_collate :: "string \<Rightarrow> string" where
  "engine_collate = upper"

definition tables_of :: "engine_tables \<Rightarrow> game_tables" where
  "tables_of d = \<lparr>tb_players = map_of (et_players d), tb_characters = map_of (et_characters d),
     tb_items = map_of (et_items d)\<rparr>"

definition engine_tables :: "engine \<Rightarrow> game_tables" where
  "engine_tables e = tables_of (eg_data e)"

definition engine_saved :: "engine \<Rightarrow> game_tables option" where
  "engine_saved e = map_option tables_of (eg_saved e)"

definition empty_engine :: engine where
  "empty_engine = \<lparr>eg_data = \<lparr>et_next = 1, et_players = [], et_characters = [], et_items = []\<rparr>, eg_saved = None,
     eg_stmts = 0, eg_conns = 0\<rparr>"

section \<open>Statements\<close>

definition text_param :: "mysql_param list \<Rightarrow> nat \<Rightarrow> string" where
  "text_param ps i = (case ps ! i of P_String s \<Rightarrow> s | _ \<Rightarrow> [])"

definition word_param :: "mysql_param list \<Rightarrow> nat \<Rightarrow> 64 word" where
  "word_param ps i = (case ps ! i of P_UInt64 w \<Rightarrow> w | P_UInt32 w \<Rightarrow> ucast w | P_Int32 x \<Rightarrow> word_of_int x | _ \<Rightarrow> 0)"

definition half_param :: "mysql_param list \<Rightarrow> nat \<Rightarrow> 32 word" where
  "half_param ps i = (case ps ! i of P_UInt32 w \<Rightarrow> w | P_UInt64 w \<Rightarrow> ucast w | P_Int32 x \<Rightarrow> word_of_int x | _ \<Rightarrow> 0)"

definition engine_player :: "engine \<Rightarrow> string \<Rightarrow> player_row option" where
  "engine_player e account = map_of (et_players (eg_data e)) (engine_collate account)"

definition engine_names :: "engine \<Rightarrow> 64 word \<Rightarrow> string list" where
  "engine_names e player = remdups (map snd (filter (\<lambda>key. fst key = player) (map fst (et_characters (eg_data e)))))"

definition engine_slots :: "engine \<Rightarrow> 64 word \<Rightarrow> 32 word list" where
  "engine_slots e player = sort (remdups (map snd (filter (\<lambda>key. fst key = player) (map fst (et_items (eg_data e))))))"

definition engine_select :: "string \<Rightarrow> string \<Rightarrow> engine \<Rightarrow> sql_row list" where
  "engine_select sql account e = (case engine_player e account of
       None \<Rightarrow> []
     | Some p \<Rightarrow>
         if sql = sql_select_login then [[SQL_Int (uint (pl_id p)), SQL_Text (pl_display p)]]
         else if sql = sql_select_characters then
           map (\<lambda>name. character_columns (the (map_of (et_characters (eg_data e)) (pl_id p, name)))) (engine_names e (pl_id p))
         else if sql = sql_select_items then
           map (\<lambda>slot. item_columns slot (the (map_of (et_items (eg_data e)) (pl_id p, slot)))) (engine_slots e (pl_id p))
         else [[SQL_Int (uint (pl_id p))]])"

definition engine_upsert_character :: "64 word \<Rightarrow> string \<Rightarrow> character_row \<Rightarrow> (character_row \<Rightarrow> character_row) \<Rightarrow> engine \<Rightarrow> engine" where
  "engine_upsert_character player name row change e =
     (let key = (player, engine_collate name); old = et_characters (eg_data e) in
      e\<lparr>eg_data := (eg_data e)\<lparr>et_characters :=
         AList.update key (case map_of old key of None \<Rightarrow> row | Some r \<Rightarrow> change r) old\<rparr>\<rparr>)"

definition engine_update_items ::
  "(((64 word \<times> 32 word) \<times> item_row) list \<Rightarrow> ((64 word \<times> 32 word) \<times> item_row) list) \<Rightarrow> engine \<Rightarrow> engine" where
  "engine_update_items f e = e\<lparr>eg_data := (eg_data e)\<lparr>et_items := f (et_items (eg_data e))\<rparr>\<rparr>"

definition engine_insert :: "string \<Rightarrow> string \<Rightarrow> engine \<Rightarrow> engine" where
  "engine_insert account name e = (let d = eg_data e in e\<lparr>eg_data := d\<lparr>et_next := et_next d + 1,
     et_players := AList.update (engine_collate account) \<lparr>pl_id = et_next d, pl_display = name\<rparr> (et_players d)\<rparr>\<rparr>)"

definition known_player :: "engine \<Rightarrow> 64 word \<Rightarrow> bool" where
  "known_player e player \<longleftrightarrow> player \<in> set (map (\<lambda>(_, p). pl_id p) (et_players (eg_data e)))"

definition no_reference :: "nat \<times> string" where
  "no_reference = (1452, ''Cannot add or update a child row: a foreign key constraint fails'')"

definition engine_execute ::
  "string \<Rightarrow> mysql_param list \<Rightarrow> engine \<Rightarrow> ((nat \<times> string) + sql_row list) \<times> engine" where
  "engine_execute sql ps e =
     (if sql = sql_insert_player then
        (if engine_player e (text_param ps 0) \<noteq> None then (Inl (ER_DUP_ENTRY, ''Duplicate entry''), e)
         else if 256 < length (text_param ps 1) then (Inl (1406, ''Data too long for column''), e)
         else (Inr [], engine_insert (text_param ps 0) (text_param ps 1) e))
      else if sql = sql_upsert_character then
        (if known_player e (word_param ps 0)
         then (Inr [], engine_upsert_character (word_param ps 0) (text_param ps 1)
           \<lparr>ch_name = text_param ps 1, ch_level = half_param ps 2, ch_gold = word_param ps 3, ch_x = 0, ch_y = 0\<rparr>
           (\<lambda>row. row\<lparr>ch_level := half_param ps 2, ch_gold := word_param ps 3\<rparr>) e)
         else (Inl no_reference, e))
      else if sql = sql_upsert_position then
        (if known_player e (word_param ps 0)
         then (Inr [], engine_upsert_character (word_param ps 0) (text_param ps 1)
           \<lparr>ch_name = text_param ps 1, ch_level = 1, ch_gold = 0, ch_x = half_param ps 2, ch_y = half_param ps 3\<rparr>
           (\<lambda>row. row\<lparr>ch_x := half_param ps 2, ch_y := half_param ps 3\<rparr>) e)
         else (Inl no_reference, e))
      else if sql = sql_upsert_item then
        (if known_player e (word_param ps 0)
         then (Inr [], engine_update_items (AList.update (word_param ps 0, half_param ps 1)
           \<lparr>it_item = word_param ps 2, it_count = half_param ps 3\<rparr>) e)
         else (Inl no_reference, e))
      else if sql = sql_delete_item then
        (Inr [], engine_update_items (AList.delete (word_param ps 0, half_param ps 1)) e)
      else if sql = sql_update_login then (Inr [], e)
      else (Inr (engine_select sql (text_param ps 0) e), e))"

definition engine_query :: "string \<Rightarrow> engine \<Rightarrow> string option \<times> engine" where
  "engine_query sql e =
     (if sql = ''BEGIN'' then (None, e\<lparr>eg_saved := Some (eg_data e)\<rparr>)
      else if sql = ''COMMIT'' then (None, e\<lparr>eg_saved := None\<rparr>)
      else (None, e\<lparr>eg_data := (case eg_saved e of None \<Rightarrow> eg_data e | Some d \<Rightarrow> d), eg_saved := None\<rparr>))"

definition engine_mysql :: "engine mysql" where
  "engine_mysql = \<lparr>my_init = (\<lambda>e. (True, e\<lparr>eg_conns := eg_conns e + 1\<rparr>)),
     my_connect = (\<lambda>_ e. (None, e)), my_close = (\<lambda>e. e\<lparr>eg_conns := eg_conns e - 1\<rparr>),
     my_stmt_init = (\<lambda>e. (None, e\<lparr>eg_stmts := eg_stmts e + 1\<rparr>)),
     my_stmt_prepare = (\<lambda>_ _. None), my_stmt_close = (\<lambda>e. e\<lparr>eg_stmts := eg_stmts e - 1\<rparr>),
     my_bind_param = (\<lambda>_ _ _. None), my_execute = engine_execute,
     my_bind_result = (\<lambda>_ _. None), my_store_result = (\<lambda>_ _. None), my_fetch_error = (\<lambda>_ _ _. None),
     my_query = engine_query\<rparr>"

section \<open>The engine satisfies the laws\<close>

lemma sql_distinct: "distinct [sql_insert_player, sql_upsert_character, sql_upsert_position, sql_upsert_item,
  sql_delete_item, sql_update_login, sql_select_login, sql_select_characters, sql_select_items, sql_select_id, sql_lock_id]"
  by (simp add: sql_insert_player_def sql_upsert_character_def sql_upsert_position_def sql_upsert_item_def
    sql_delete_item_def sql_update_login_def sql_select_login_def sql_select_characters_def sql_select_items_def
    sql_select_id_def sql_lock_id_def)

lemma sql_different:
  "distinct (rev [sql_insert_player, sql_upsert_character, sql_upsert_position, sql_upsert_item,
     sql_delete_item, sql_update_login, sql_select_login, sql_select_characters, sql_select_items,
     sql_select_id, sql_lock_id])"
  by (subst distinct_rev) (rule sql_distinct)

lemmas sql_neq [simp] = sql_distinct [simplified] sql_different [simplified]

lemma params_nth [simp]:
  "text_param (P_String s # ps) 0 = s" "word_param (P_UInt64 w # ps) 0 = w"
  "text_param (q # ps) (Suc i) = text_param ps i" "word_param (q # ps) (Suc i) = word_param ps i"
  "half_param (q # ps) (Suc i) = half_param ps i" "half_param (P_UInt32 h # ps) 0 = h"
  "half_param (P_Int32 x # ps) 0 = word_of_int x"
  by (simp_all add: text_param_def word_param_def half_param_def)

lemma params_numeral [simp]:
  "text_param (q # ps) 1 = text_param ps 0" "half_param (q # ps) 1 = half_param ps 0"
  "word_param (q # r # ps) 2 = word_param ps 0" "half_param (q # r # ps) 2 = half_param ps 0"
  "half_param (q # r # u # ps) 3 = half_param ps 0" "word_param (q # r # u # ps) 3 = word_param ps 0"
  by (simp_all add: text_param_def word_param_def half_param_def)

lemma engine_player_tables: "tb_players (engine_tables e) (engine_collate account) = engine_player e account"
  by (simp add: engine_tables_def tables_of_def engine_player_def)

lemma keys_of_player:
  "set (map snd (filter (\<lambda>key. fst key = player) (map fst al))) = {k. map_of al (player, k) \<noteq> None}"
  by (force simp: map_of_eq_None_iff image_iff)

lemma engine_names_set:
  "distinct (engine_names e player)"
  "set (engine_names e player) = {name. tb_characters (engine_tables e) (player, name) \<noteq> None}"
  using keys_of_player [of player "et_characters (eg_data e)"]
  by (simp_all add: engine_names_def engine_tables_def tables_of_def)

lemma engine_slots_set:
  "sorted_wrt (<) (engine_slots e player)"
  "set (engine_slots e player) = {slot. tb_items (engine_tables e) (player, slot) \<noteq> None}"
  using keys_of_player [of player "et_items (eg_data e)"]
  by (simp_all add: engine_slots_def engine_tables_def tables_of_def strict_sorted_iff)

lemma engine_insert_tables:
  "engine_tables (engine_insert account name e) = add_account engine_collate account
     \<lparr>pl_id = et_next (eg_data e), pl_display = name\<rparr> (engine_tables e)"
  by (simp add: engine_tables_def tables_of_def engine_insert_def add_account_def update_conv' Let_def)

lemma engine_upsert_tables:
  "engine_tables (engine_upsert_character player name row change e) = (engine_tables e)\<lparr>tb_characters :=
     (tb_characters (engine_tables e))((player, engine_collate name) \<mapsto>
       (case tb_characters (engine_tables e) (player, engine_collate name) of None \<Rightarrow> row | Some r \<Rightarrow> change r))\<rparr>"
  by (simp add: engine_tables_def tables_of_def engine_upsert_character_def update_conv' Let_def)

lemma engine_items_tables:
  "engine_tables (engine_update_items (AList.update k v) e) =
     (engine_tables e)\<lparr>tb_items := (tb_items (engine_tables e))(k \<mapsto> v)\<rparr>"
  "engine_tables (engine_update_items (AList.delete k) e) =
     (engine_tables e)\<lparr>tb_items := (tb_items (engine_tables e))(k := None)\<rparr>"
  by (simp_all add: engine_tables_def tables_of_def engine_update_items_def update_conv' delete_conv')

lemma engine_saved_updates [simp]:
  "engine_saved (engine_insert account name e) = engine_saved e"
  "engine_saved (engine_upsert_character player name row change e) = engine_saved e"
  "engine_saved (engine_update_items f e) = engine_saved e"
  by (simp_all add: engine_saved_def engine_insert_def engine_upsert_character_def engine_update_items_def Let_def)

lemma engine_selects:
  assumes "tb_players (engine_tables e) (engine_collate account) = Some p"
  shows "engine_select sql_select_characters account e = map (\<lambda>name. character_columns
      (the (tb_characters (engine_tables e) (pl_id p, name)))) (engine_names e (pl_id p))"
    and "engine_select sql_select_items account e = map (\<lambda>slot. item_columns slot
      (the (tb_items (engine_tables e) (pl_id p, slot)))) (engine_slots e (pl_id p))"
  using assms by (simp_all add: engine_player_tables engine_select_def) (simp_all add: engine_tables_def tables_of_def)

lemmas engine_simps = engine_mysql_def engine_execute_def

interpretation engine: game_store engine_mysql engine_tables engine_saved engine_collate
proof (unfold_locales, goal_cases)
  case (1 db b db')
  then show ?case by (auto simp: engine_mysql_def engine_tables_def engine_saved_def)
next
  case (2 config db r db')
  then show ?case by (simp add: engine_mysql_def)
next
  case (3 db)
  then show ?case by (simp add: engine_mysql_def engine_tables_def engine_saved_def)
next
  case (4 db r db')
  then show ?case by (auto simp: engine_mysql_def engine_tables_def engine_saved_def)
next
  case (5 db)
  then show ?case by (simp add: engine_mysql_def engine_tables_def engine_saved_def)
next
  case (6 db r db')
  then show ?case by (auto simp: engine_mysql_def engine_query_def engine_tables_def engine_saved_def)
next
  case (7 db db')
  then show ?case by (auto simp: engine_mysql_def engine_query_def engine_tables_def engine_saved_def)
next
  case (8 db message db' t)
  then show ?case by (auto simp: engine_mysql_def engine_query_def)
next
  case (9 db r db')
  then show ?case
    by (auto simp: engine_mysql_def engine_query_def engine_tables_def engine_saved_def split: option.splits)
next
  case (10 sql params db e db')
  then show ?case by (auto simp: engine_simps split: if_splits)
next
  case (11 sql params db rows db')
  then show ?case by (auto simp: engine_simps split: if_splits)
next
  case (12 sql account db rows db')
  then show ?case by (auto simp: engine_simps engine_select_def engine_player_tables split: option.splits)
next
  case (13 account db rows db')
  then show ?case by (auto simp: engine_simps engine_select_def engine_player_tables split: option.splits)
next
  case (14 player db rows db')
  then show ?case by (simp add: engine_simps)
next
  case (15 account name db rows db')
  then show ?case
    by (auto simp: engine_simps engine_player_tables engine_insert_tables split: if_splits)
next
  case (16 account name db errno message db')
  then show ?case by (auto simp: engine_simps split: if_splits)
next
  case (17 player name level gold db rows db')
  then show ?case
    by (auto simp: engine_simps engine_upsert_tables store_character_def split: if_splits option.splits)
next
  case (18 player name x y db rows db')
  then show ?case
    by (auto simp: engine_simps engine_upsert_tables store_position_def split: if_splits option.splits)
next
  case (19 player slot item count db rows db')
  then show ?case
    by (auto simp: engine_simps engine_items_tables store_item_def split: if_splits)
next
  case (20 player slot db rows db')
  then show ?case by (auto simp: engine_simps engine_items_tables)
next
  case (21 account db rows db' p)
  then show ?case
    using engine_names_set [of db "pl_id p"] by (auto simp: engine_simps engine_selects)
next
  case (22 account db rows db' p)
  then show ?case
    using engine_slots_set [of db "pl_id p"] by (auto simp: engine_simps engine_selects)
qed

end
