(* ===== verification/Database_Demo.thy ===== *)
theory Database_Demo
  imports Game_Engine Server_Demo Job_Contract
begin

text \<open>
  Concrete runs of database jobs on the engine, for the witnesses: a player is registered, logs in, saves a character
  and an item; and the run of the server of \<open>Server_Demo\<close> goes on until a worker has written the position that
  ENTER saves.
\<close>

section \<open>Jobs of one client\<close>

definition bob_job :: "db_operation \<Rightarrow> string \<Rightarrow> string list \<Rightarrow> db_job" where
  "bob_job op name args = \<lparr>job_client_fd = 5, job_client_generation = 1, job_request_id = 1,
     job_operation = op, job_command_name = name, job_args = args, job_notify_client = True\<rparr>"

definition bob_register :: db_job where
  "bob_register = bob_job DbRegisterPlayer ''REGISTER'' [''bob'', ''Bob'']"

definition bob_again :: db_job where
  "bob_again = bob_job DbRegisterPlayer ''REGISTER'' [''BOB'', ''Other'']"

definition bob_login :: db_job where
  "bob_login = bob_job DbLoginPlayer ''LOGIN'' [''BOB'']"

definition bob_save :: db_job where
  "bob_save = bob_job DbSaveCharacter ''SAVE'' [''bob'', ''Rogue'', ''7'', ''250'']"

definition bob_move :: db_job where
  "bob_move = bob_job DbSavePosition ''SAVE_POSITION'' [''bob'', ''Rogue'', ''-3'', ''4'']"

definition bob_load :: db_job where
  "bob_load = bob_job DbLoadCharacters ''LOAD'' [''bob'']"

definition bob_store :: db_job where
  "bob_store = bob_job DbSaveInventoryItem ''SAVE_ITEM'' [''bob'', ''2'', ''9'', ''4294967296'']"

definition bob_inventory :: db_job where
  "bob_inventory = bob_job DbLoadInventory ''LOAD_INVENTORY'' [''bob'']"

definition bob_data :: "((64 word \<times> string) \<times> character_row) list \<Rightarrow> ((64 word \<times> 32 word) \<times> item_row) list \<Rightarrow> engine" where
  "bob_data characters items = \<lparr>eg_data = \<lparr>et_next = 2,
     et_players = [(''BOB'', \<lparr>pl_id = 1, pl_display = ''Bob''\<rparr>)], et_characters = characters, et_items = items\<rparr>,
     eg_saved = None, eg_stmts = 0, eg_conns = 0\<rparr>"

definition bob_rogue :: "32 word \<Rightarrow> 32 word \<Rightarrow> character_row" where
  "bob_rogue x y = \<lparr>ch_name = ''Rogue'', ch_level = 7, ch_gold = 250, ch_x = x, ch_y = y\<rparr>"

definition bob_rogues :: "32 word \<Rightarrow> 32 word \<Rightarrow> engine" where
  "bob_rogues x y = bob_data [((1, ''ROGUE''), bob_rogue x y)] []"

definition bob_potion :: "((64 word \<times> 32 word) \<times> item_row) list" where
  "bob_potion = [((1, 2), \<lparr>it_item = 9, it_count = 3\<rparr>), ((1, 1), \<lparr>it_item = 8, it_count = 1\<rparr>)]"

lemma demo_unsigned:
  "stou name ''7'' = Inr 7" "stou name ''250'' = Inr 250" "stou name ''2'' = Inr 2" "stou name ''9'' = Inr 9"
proof -
  have "to_string_word (7 :: 64 word) = ''7''" "to_string_word (250 :: 64 word) = ''250''"
    "to_string_word (2 :: 64 word) = ''2''" "to_string_word (9 :: 64 word) = ''9''" by code_simp+
  then show "stou name ''7'' = Inr 7" "stou name ''250'' = Inr 250" "stou name ''2'' = Inr 2" "stou name ''9'' = Inr 9"
    using stou_to_string_word [of name 7] stou_to_string_word [of name 250] stou_to_string_word [of name 2]
      stou_to_string_word [of name 9] by simp_all
qed

lemma demo_unsigned_33: "stou name ''4294967296'' = Inr 4294967296"
proof -
  have "numeral_prefix ''4294967296'' = (False, ''4294967296'')" by code_simp
  then show ?thesis by (simp add: stou_def nat_val_def digit_val_def)
qed

lemma demo_signed: "stoi ''-3'' = Inr (- 3)" "stoi ''4'' = Inr 4"
  by code_simp+

lemma bob_registers: "execute_job engine_mysql bob_register empty_engine =
    (Inr (ok_completion bob_register ''OK REGISTER account=bob display_name=Bob''), bob_data [] [])"
  by code_simp

lemma bob_logs_in: "execute_job engine_mysql bob_login (bob_data [] []) =
    (Inr (ok_completion bob_login ''OK LOGIN player_id=1 account=BOB display_name=Bob''), bob_data [] [])"
  by code_simp

lemma bob_saves: "execute_job engine_mysql bob_save (bob_data [] []) =
    (Inr (ok_completion bob_save ''OK SAVE account=bob character=Rogue level=7 gold=250''), bob_rogues 0 0)"
proof -
  have "save_character engine_mysql bob_save (bob_data [] []) =
      (Inr (ok_completion bob_save ''OK SAVE account=bob character=Rogue level=7 gold=250''), bob_rogues 0 0)"
    unfolding save_character_def
    by (simp only: bob_save_def bob_job_def db_job.select_convs vector_at_def, simp add: demo_unsigned) code_simp
  then show ?thesis by (simp add: execute_job_def bob_save_def bob_job_def)
qed

lemma bob_moves: "execute_job engine_mysql bob_move (bob_rogues 0 0) =
    (Inr (ok_completion bob_move ''OK SAVE_POSITION account=bob character=Rogue x=-3 y=4''), bob_rogues (- 3) 4)"
  by code_simp

lemma bob_loads: "execute_job engine_mysql bob_load (bob_rogues (- 3) 4) =
    (Inr (ok_completion bob_load ''OK LOAD account=bob character_count=1 characters=Rogue:7:250:-3:4''),
     bob_rogues (- 3) 4)"
  by code_simp

lemma bob_stores: "execute_job engine_mysql bob_store (bob_data [] bob_potion) =
    (Inr (ok_completion bob_store ''OK SAVE_ITEM account=bob slot=2 item_id=9 count=0''),
     bob_data [] (tl bob_potion))"
proof -
  have "save_inventory_item engine_mysql bob_store (bob_data [] bob_potion) =
    (Inr (ok_completion bob_store ''OK SAVE_ITEM account=bob slot=2 item_id=9 count=0''),
     bob_data [] (tl bob_potion))"
    unfolding save_inventory_item_def
    by (simp only: bob_store_def bob_job_def db_job.select_convs vector_at_def,
        simp add: demo_unsigned demo_unsigned_33) code_simp
  then show ?thesis by (simp add: execute_job_def bob_store_def bob_job_def)
qed

lemma bob_lists: "execute_job engine_mysql bob_inventory (bob_data [] (tl bob_potion)) =
    (Inr (ok_completion bob_inventory ''OK LOAD_INVENTORY account=bob item_count=1 items=1:8:1''),
     bob_data [] (tl bob_potion))"
  by code_simp

section \<open>The server writes a position\<close>

text \<open>The run of \<open>Server_Demo\<close> up to ENTER, on a database where the account exists; then a worker takes the save
  of the position and writes it.\<close>

definition anna_engine :: "((64 word \<times> string) \<times> character_row) list \<Rightarrow> engine" where
  "anna_engine characters = \<lparr>eg_data = \<lparr>et_next = 2,
     et_players = [(''ANNA'', \<lparr>pl_id = 1, pl_display = ''Anna''\<rparr>)], et_characters = characters, et_items = []\<rparr>,
     eg_saved = None, eg_stmts = 0, eg_conns = 0\<rparr>"

definition anna_row :: character_row where
  "anna_row = \<lparr>ch_name = ''main'', ch_level = 1, ch_gold = 0, ch_x = 120, ch_y = 80\<rparr>"

definition anna_written :: engine where
  "anna_written = (anna_engine [((1, ''MAIN''), anna_row)])\<lparr>eg_conns := 1\<rparr>"

lemma loop_reaches:
  "(loop_step pf)\<^sup>*\<^sup>* sv sv' \<Longrightarrow> reachable my pf config db0 (sv, db) \<Longrightarrow> reachable my pf config db0 (sv', db)"
  by (induction rule: rtranclp_induct) (auto intro: reachable.step system_step.loop)

lemma anna_enters: "reachable my demo_platform demo_app db0 (demo_entered [] demo_busy, db0)"
  by (rule loop_reaches [OF demo_receive_run], rule loop_reaches [OF r_into_rtranclp, OF demo_send_run],
      rule loop_reaches [OF demo_accept_run], rule reachable.start [OF demo_start])

lemma anna_saves: "run_job engine_mysql default_database_config False demo_save (anna_engine []) =
    (True, ok_completion demo_save ''OK SAVE_POSITION account=anna character=main x=120 y=80'', anna_written)"
  by code_simp

lemma anna_worker: "\<exists>d1 d2. worker_pop 0 (sv_database (demo_entered [] demo_busy)) = Some d1 \<and>
    worker_finish engine_mysql 0 d1 (anna_engine []) = Some (d2, anna_written)"
proof -
  let ?d = "sv_database (demo_entered [] demo_busy)"
  have "replicate 4 fresh_worker = fresh_worker # replicate 3 fresh_worker" by (simp add: numeral_eq_Suc)
  then obtain ws where ws: "dd_workers ?d = fresh_worker # ws" and config: "dd_config ?d = default_database_config"
      and queue: "dd_jobs ?d = bq_empty\<lparr>bq_queue := [demo_save]\<rparr>"
    by (auto simp: demo_entered_def submit_def dispatcher_start_def dispatcher_new_def bq_push_def
        bq_empty_def default_database_config_def)
  let ?d1 = "?d\<lparr>dd_jobs := bq_empty, dd_workers := fresh_worker\<lparr>wk_job := Some demo_save\<rparr> # ws\<rparr>"
  have "worker_pop 0 ?d = Some ?d1"
    by (simp add: worker_pop_def ws queue bq_pop_def bq_empty_def fresh_worker_def)
  moreover have "\<exists>d2. worker_finish engine_mysql 0 ?d1 (anna_engine []) = Some (d2, anna_written)"
    using anna_saves by (simp add: worker_finish_def config fresh_worker_def)
  ultimately show ?thesis by blast
qed

lemma anna_written_reached: "\<exists>sv. reachable engine_mysql demo_platform demo_app (anna_engine []) (sv, anna_written)"
proof -
  let ?sv = "demo_entered [] demo_busy"
  obtain d1 d2 where pop: "worker_pop 0 (sv_database ?sv) = Some d1"
      and finish: "worker_finish engine_mysql 0 d1 (anna_engine []) = Some (d2, anna_written)"
    using anna_worker by blast
  have "reachable engine_mysql demo_platform demo_app (anna_engine []) (?sv\<lparr>sv_database := d1\<rparr>, anna_engine [])"
    by (rule reachable.step [OF anna_enters]) (rule system_step.work, rule worker_step_pop [OF pop worker_finish_running [OF finish]])
  then have "reachable engine_mysql demo_platform demo_app (anna_engine [])
      (?sv\<lparr>sv_database := d1\<rparr>\<lparr>sv_database := d2\<rparr>, anna_written)"
    by (rule reachable.step) (rule system_step.work, rule worker_step.finish [of _ 0], simp add: finish)
  then show ?thesis by blast
qed

end
