(* ===== verification/Database_Properties.thy ===== *)
theory Database_Properties
  imports Job_Contract Database_Demo System
begin

text \<open>
  The properties of the database side against the contract of \<open>Game_Store\<close>: what a job does to the tables, what
  the whole program can make of them, and what a client reads back. The hypothesis \<open>game_store my tables
  saved collate\<close> states the documented behaviour of MySQL; the witnesses run on the engine of \<open>Game_Engine\<close>.
\<close>

section \<open>Facts on the contract\<close>

lemma execute_job_change:
  assumes "game_store my tables saved collate" and "saved db = None" and "execute_job my job db = (r, db')"
  shows "saved db' = None"
    and "r = Inr c \<Longrightarrow> job_change collate job (tables db) (tables db')"
    and "r = Inl e \<Longrightarrow> tables db' = tables db \<or>
      uncertain job e \<and> job_change collate job (tables db) (tables db')"
proof -
  note defs = game_store.job_triple_def [OF assms(1)] game_store.after_ok_def [OF assms(1)]
    game_store.after_error_def [OF assms(1)] game_store.view_def [OF assms(1)]
  have "db_triple (\<lambda>d. tables d = tables db \<and> saved d = None) (execute_job my job)
      (\<lambda>_ d. saved d = None \<and> job_change collate job (tables db) (tables d))
      (\<lambda>e d. saved d = None \<and> (tables d = tables db \<or>
        uncertain job e \<and> job_change collate job (tables db) (tables d)))"
    using game_store.execute_job_triple [OF assms(1), of "tables db" job] unfolding defs [abs_def] .
  note triple = db_tripleD [OF this, of db, simplified, OF assms(2)]
  show "saved db' = None" using triple assms(3) by (cases r) auto
  show "r = Inr c \<Longrightarrow> job_change collate job (tables db) (tables db')"
    "r = Inl e \<Longrightarrow> tables db' = tables db \<or> uncertain job e \<and> job_change collate job (tables db) (tables db')"
    using triple assms(3) by auto
qed

lemma connection_change:
  assumes store: "game_store my tables saved collate" and "saved db = None"
    and "connection_new my config db = (r, db')"
  shows "tables db' = tables db \<and> saved db' = None"
proof -
  obtain b db1 where init: "my_init my db = (b, db1)" by (cases "my_init my db")
  obtain r2 db2 where connect: "my_connect my config db1 = (r2, db2)" by (cases "my_connect my config db1")
  have "tables db1 = tables db \<and> saved db1 = None" "tables db2 = tables db1 \<and> saved db2 = saved db1"
    using game_store.inits [OF store init] game_store.connects [OF store connect] assms(2) by simp_all
  then show ?thesis
    using assms(3) init connect game_store.closes [OF store, of db2]
    by (auto simp: connection_new_def split: bool.splits option.splits)
qed

lemma run_job_change:
  assumes store: "game_store my tables saved collate" and "saved db = None"
    and run: "run_job my config connected job db = (connected', c, db')"
  shows "saved db' = None"
    and "dc_ok c \<Longrightarrow> job_change collate job (tables db) (tables db')"
    and "\<not> dc_ok c \<Longrightarrow> \<exists>e. c = error_completion job e \<and> (tables db' = tables db \<or>
      uncertain job e \<and> job_change collate job (tables db) (tables db'))"
proof -
  obtain r1 db1 where conn: "(if connected then (Inr (), db) else connection_new my config db) = (r1, db1)"
    by (cases "if connected then (Inr (), db) else connection_new my config db")
  have same: "tables db1 = tables db \<and> saved db1 = None"
    using conn connection_change [OF store assms(2), of config r1 db1] assms(2) by (auto split: if_splits)
  show "saved db' = None"
    and "dc_ok c \<Longrightarrow> job_change collate job (tables db) (tables db')"
    and "\<not> dc_ok c \<Longrightarrow> \<exists>e. c = error_completion job e \<and> (tables db' = tables db \<or>
      uncertain job e \<and> job_change collate job (tables db) (tables db'))"
  proof -
    consider (refused) e where "r1 = Inl e" "c = error_completion job e" "db' = db1"
      | (threw) e where "execute_job my job db1 = (Inl e, db')" "c = error_completion job e"
      | (ran) "execute_job my job db1 = (Inr c, db')"
      using run unfolding run_job_def conn by (auto split: sum.splits prod.splits)
    note cases = this
    note change = execute_job_change [OF store, of db1 job]
    show "saved db' = None"
      using cases same change(1) by cases auto
    show "dc_ok c \<Longrightarrow> job_change collate job (tables db) (tables db')"
      using cases
    proof cases
      case ran
      then show ?thesis using same change(2) [of "Inr c" db' c] by simp
    qed (simp_all add: error_completion_def)
    show "\<exists>e. c = error_completion job e \<and> (tables db' = tables db \<or>
      uncertain job e \<and> job_change collate job (tables db) (tables db'))" if "\<not> dc_ok c"
      using cases
    proof cases
      case refused
      then show ?thesis using same by auto
    next
      case (threw e)
      then show ?thesis using same change(3) [of "Inl e" db' e] by auto
    next
      case ran
      with execute_job_answers [of my job] have "dc_ok c"
        unfolding db_ensures_def by (metis answers_def ensures_Inr fst_conv ok_completion_def
          db_completion.select_convs(4) db_completion.surjective db_completion.update_convs(4,5))
      then show ?thesis using that by simp
    qed
  qed
qed

section \<open>A job and the tables\<close>

text \<open>
  C6. Every job is all or nothing. Whatever the operation and its arguments, a worker that starts a job on a
  database without an open transaction leaves none open; an answer OK means that exactly the change the job asks
  for has been made (nothing, for LOGIN and the loads); an answer ERR means that nothing has changed, or,
  only when COMMIT itself or the INSERT of REGISTER reported a failure other than a duplicate, that the whole
  change has been made. No half of a change is ever kept.
\<close>
theorem job_is_atomic:
  assumes "game_store my tables saved collate" and "saved db = None"
    and "run_job my config connected job db = (connected', c, db')"
  shows "saved db' = None \<and> (if dc_ok c then job_change collate job (tables db) (tables db')
    else \<exists>e. c = error_completion job e \<and> (tables db' = tables db \<or>
      uncertain job e \<and> job_change collate job (tables db) (tables db')))"
  using run_job_change [OF assms] by simp


lemma job_is_atomic_witness:
  "engine_saved (bob_data [] []) = None \<and>
   job_change engine_collate bob_register (engine_tables empty_engine) (engine_tables (bob_data [] []))"
proof -
  have run: "run_job engine_mysql default_database_config True bob_register empty_engine =
      (True, ok_completion bob_register ''OK REGISTER account=bob display_name=Bob'', bob_data [] [])"
    using bob_registers by (simp add: run_job_def)
  have "engine_saved empty_engine = None" by (simp add: engine_saved_def empty_engine_def)
  from job_is_atomic [OF engine.game_store_axioms this run] show ?thesis by (simp add: ok_completion_def)
qed

section \<open>What a client reads back\<close>

lemma login_result:
  assumes "game_store my tables saved collate" and "saved db = None"
    and "job_operation job = DbLoginPlayer" and "job_args job = account # extra"
    and "execute_job my job db = (Inr c, db')"
  shows "tables db' = tables db" and "saved db' = None"
    and "\<exists>p. tb_players (tables db) (collate account) = Some p \<and> length (pl_display p) \<le> 128 \<and>
      dc_line c = ''OK LOGIN player_id='' @ to_string_word (pl_id p) @ '' account='' @ account @
        '' display_name='' @ pl_display p"
  using db_tripleD(1) [OF game_store.login_triple [OF assms(1) assms(4), of "tables db"], of db c db'] assms(2,3,5)
  by (auto simp: execute_job_def game_store.view_def [OF assms(1)])

lemma load_result:
  assumes "game_store my tables saved collate" and "saved db = None"
    and "job_operation job = DbLoadCharacters" and "job_args job = account # extra"
    and "execute_job my job db = (Inr c, db')"
  shows "\<exists>p names. tb_players (tables db) (collate account) = Some p \<and>
      characters_of (tables db) (pl_id p) names \<and> dc_line c = load_line account
        (map (\<lambda>name. character_entry (the (tb_characters (tables db) (pl_id p, name)))) names)"
  using db_tripleD(1) [OF game_store.load_characters_triple [OF assms(1) assms(4), of "tables db"], of db c db'] assms(2,3,5)
  by (auto simp: execute_job_def game_store.view_def [OF assms(1)])

lemma load_inventory_result:
  assumes "game_store my tables saved collate" and "saved db = None"
    and "job_operation job = DbLoadInventory" and "job_args job = account # extra"
    and "execute_job my job db = (Inr c, db')"
  shows "\<exists>p slots. tb_players (tables db) (collate account) = Some p \<and>
      slots_of (tables db) (pl_id p) slots \<and> dc_line c = load_inventory_line account
        (map (\<lambda>slot. item_entry slot (the (tb_items (tables db) (pl_id p, slot)))) slots)"
  using db_tripleD(1) [OF game_store.load_inventory_triple [OF assms(1) assms(4), of "tables db"], of db c db'] assms(2,3,5)
  by (auto simp: execute_job_def game_store.view_def [OF assms(1)])

text \<open>
  C13. REGISTER and LOGIN agree. After an accepted REGISTER, a LOGIN of the account (under any spelling the
  collation identifies) that is answered OK reports the registered display name and changes no table; it can only be
  answered OK when that name has at most 128 bytes, and a second REGISTER of the account is never accepted.
\<close>
theorem register_then_login:
  assumes store: "game_store my tables saved collate" and none: "saved db = None"
    and reg: "job_operation register = DbRegisterPlayer" "job_args register = account # name # extra"
    and first: "execute_job my register db = (Inr c, db1)"
    and same: "collate account' = collate account"
  shows "(job_operation login = DbLoginPlayer \<and> job_args login = account' # extra' \<and>
        execute_job my login db1 = (Inr c', db2) \<longrightarrow> length name \<le> 128 \<and> tables db2 = tables db1 \<and>
        (\<exists>player. dc_line c' = ''OK LOGIN player_id='' @ to_string_word (player :: 64 word) @ '' account='' @
          account' @ '' display_name='' @ name)) \<and>
    (job_operation again = DbRegisterPlayer \<and> job_args again = account' # extra'' \<longrightarrow>
      (\<exists>e. fst (execute_job my again db1) = Inl e))"
proof (intro conjI impI)
  from execute_job_change(1,2) [OF store none first] have none1: "saved db1 = None"
    and change: "job_change collate register (tables db) (tables db1)" by auto
  from change reg obtain player where
      there: "tb_players (tables db1) (collate account') = Some \<lparr>pl_id = player, pl_display = name\<rparr>"
    by (auto simp: job_change_def add_account_def same)
  {
    assume login: "job_operation login = DbLoginPlayer \<and> job_args login = account' # extra' \<and>
        execute_job my login db1 = (Inr c', db2)"
    note result = login_result [OF store none1, of login account' extra' c' db2]
    show "length name \<le> 128" and "tables db2 = tables db1" and
        "\<exists>player. dc_line c' = ''OK LOGIN player_id='' @ to_string_word (player :: 64 word) @ '' account='' @
          account' @ '' display_name='' @ name"
      using result login there by auto
  }
  assume again: "job_operation again = DbRegisterPlayer \<and> job_args again = account' # extra''"
  obtain r db3 where run: "execute_job my again db1 = (r, db3)" by (cases "execute_job my again db1")
  show "\<exists>e. fst (execute_job my again db1) = Inl e"
  proof (cases r)
    case (Inr c3)
    with execute_job_change(2) [OF store none1 run] again there show ?thesis
      by (auto simp: job_change_def)
  qed (simp add: run)
qed


lemma register_then_login_witness:
  "(\<exists>player. ''OK LOGIN player_id=1 account=BOB display_name=Bob'' = ''OK LOGIN player_id='' @
     to_string_word (player :: 64 word) @ '' account='' @ ''BOB'' @ '' display_name='' @ ''Bob'') \<and>
   (\<exists>e. fst (execute_job engine_mysql bob_again (bob_data [] [])) = Inl e)"
proof -
  have none: "engine_saved empty_engine = None" by (simp add: engine_saved_def empty_engine_def)
  have jobs: "job_operation bob_register = DbRegisterPlayer" "job_args bob_register = ''bob'' # ''Bob'' # []"
    "job_operation bob_login = DbLoginPlayer" "job_args bob_login = ''BOB'' # []"
    "job_operation bob_again = DbRegisterPlayer" "job_args bob_again = ''BOB'' # [''Other'']"
    by (simp_all add: bob_register_def bob_login_def bob_again_def bob_job_def)
  have same: "engine_collate ''BOB'' = engine_collate ''bob''" by code_simp
  note both = register_then_login [OF engine.game_store_axioms none jobs(1,2) bob_registers same,
      of bob_login "[]" "ok_completion bob_login ''OK LOGIN player_id=1 account=BOB display_name=Bob''"
        "bob_data [] []" bob_again "[''Other'']"]
  have line: "dc_line (ok_completion bob_login l) = l" for l by (simp add: ok_completion_def)
  show ?thesis using both jobs bob_logs_in unfolding line by blast
qed

text \<open>
  C11. SAVE, then SAVE_POSITION, then LOAD gives back what was saved. When the three jobs of one account are answered
  OK one after the other, the answer of LOAD lists one entry per character of the player, among them one with the
  saved level (reduced to 32 bits), gold and position, under the name the character was first stored
  with; every other character of the player is listed unchanged.
\<close>
theorem save_then_load:
  assumes store: "game_store my tables saved collate" and none: "saved db = None"
    and save: "job_operation save = DbSaveCharacter" "job_args save = account # name # level_text # gold_text # extra"
      "stoul level_text = Inr level" "stoull gold_text = Inr gold" "execute_job my save db = (Inr c1, db1)"
    and pos: "job_operation move = DbSavePosition" "job_args move = account # name # x_text # y_text # extra"
      "stoi x_text = Inr x" "stoi y_text = Inr y" "execute_job my move db1 = (Inr c2, db2)"
    and load: "job_operation load = DbLoadCharacters" "job_args load = account # extra"
      "execute_job my load db2 = (Inr c3, db3)"
  shows "\<exists>player entries. owner collate (tables db) account player \<and> dc_line c3 = load_line account entries \<and>
      character_entry \<lparr>ch_name = (case tb_characters (tables db) (player, collate name) of
          None \<Rightarrow> name | Some row \<Rightarrow> ch_name row),
        ch_level = ucast level, ch_gold = gold, ch_x = word_of_int x, ch_y = word_of_int y\<rparr> \<in> set entries \<and>
      (\<forall>key row. key \<noteq> collate name \<longrightarrow> tb_characters (tables db) (player, key) = Some row \<longrightarrow>
        character_entry row \<in> set entries) \<and>
      length entries = card (insert (collate name) {key. tb_characters (tables db) (player, key) \<noteq> None})"
proof -
  let ?t = "tables db" and ?t1 = "tables db1" and ?t2 = "tables db2"
  have none1: "saved db1 = None" and ch1: "job_change collate save ?t ?t1"
    using execute_job_change(1,2) [OF store none save(5)] by auto
  have none2: "saved db2 = None" and ch2: "job_change collate move ?t1 ?t2"
    using execute_job_change(1,2) [OF store none1 pos(5)] by auto
  from ch1 save obtain player where own: "owner collate ?t account player"
      and t1: "?t1 = store_character collate player name (ucast level) gold ?t"
    by (auto simp: job_change_def)
  from ch2 pos t1 own have t2: "?t2 = store_position collate player name x y ?t1"
    by (auto simp: job_change_def owner_def store_character_def)
  from load_result [OF store none2 load] obtain p names where
      p: "tb_players ?t2 (collate account) = Some p" and names: "characters_of ?t2 (pl_id p) names"
      and line: "dc_line c3 = load_line account
        (map (\<lambda>name. character_entry (the (tb_characters ?t2 (pl_id p, name)))) names)" by blast
  have id: "pl_id p = player"
    using p own by (simp add: t2 t1 store_position_def store_character_def owner_def)
  let ?key = "(player, collate name)"
  have here: "tb_characters ?t2 ?key = Some \<lparr>ch_name = (case tb_characters ?t ?key of
          None \<Rightarrow> name | Some row \<Rightarrow> ch_name row),
        ch_level = ucast level, ch_gold = gold, ch_x = word_of_int x, ch_y = word_of_int y\<rparr>"
    by (simp add: t2 t1 store_position_def store_character_def split: option.split)
  have others: "tb_characters ?t2 (player, key) = tb_characters ?t (player, key)" if "key \<noteq> collate name" for key
    using that by (simp add: t2 t1 store_position_def store_character_def)
  have keys: "set names = insert (collate name) {key. tb_characters ?t (player, key) \<noteq> None}"
  proof -
    have "tb_characters ?t2 (player, key) \<noteq> None \<longleftrightarrow>
        key = collate name \<or> tb_characters ?t (player, key) \<noteq> None" for key
      by (cases "key = collate name") (simp_all add: here others del: not_None_eq)
    with names show ?thesis by (auto simp: characters_of_def id simp del: not_None_eq)
  qed
  let ?entries = "map (\<lambda>name. character_entry (the (tb_characters ?t2 (player, name)))) names"
  have listed: "character_entry row \<in> set ?entries" if "tb_characters ?t2 (player, key) = Some row" for key row
    using that names by (force simp: characters_of_def id)
  show ?thesis
  proof (intro exI conjI allI impI)
    show "owner collate ?t account player" by (rule own)
    show "dc_line c3 = load_line account ?entries" using line by (simp add: id)
    show "length ?entries = card (insert (collate name) {key. tb_characters ?t (player, key) \<noteq> None})"
      using names distinct_card [of names] by (simp add: keys characters_of_def)
    show "character_entry row \<in> set ?entries"
      if "key \<noteq> collate name" "tb_characters ?t (player, key) = Some row" for key row
      using listed others that by metis
  qed (rule listed [OF here])
qed


lemma save_then_load_witness:
  "\<exists>entries. ''OK LOAD account=bob character_count=1 characters=Rogue:7:250:-3:4'' = load_line ''bob'' entries \<and>
     character_entry (bob_rogue (- 3) 4) \<in> set entries"
proof -
  have none: "engine_saved (bob_data [] []) = None" by (simp add: engine_saved_def bob_data_def)
  have save: "job_operation bob_save = DbSaveCharacter" "job_args bob_save = ''bob'' # ''Rogue'' # ''7'' # ''250'' # []"
    by (simp_all add: bob_save_def bob_job_def)
  have move: "job_operation bob_move = DbSavePosition" "job_args bob_move = ''bob'' # ''Rogue'' # ''-3'' # ''4'' # []"
    by (simp_all add: bob_move_def bob_job_def)
  have load: "job_operation bob_load = DbLoadCharacters" "job_args bob_load = ''bob'' # []"
    by (simp_all add: bob_load_def bob_job_def)
  have row: "\<lparr>ch_name = (case tb_characters (engine_tables (bob_data [] [])) k of None \<Rightarrow> ''Rogue'' | Some row \<Rightarrow> ch_name row),
      ch_level = ucast (7 :: 64 word), ch_gold = 250, ch_x = word_of_int (- 3), ch_y = word_of_int 4\<rparr> = bob_rogue (- 3) 4" for k
    by (simp add: bob_data_def engine_tables_def tables_of_def bob_rogue_def)
  show ?thesis
    using save_then_load [OF engine.game_store_axioms none save demo_unsigned(1,2) bob_saves move demo_signed bob_moves
        load bob_loads]
    unfolding row by (auto simp: ok_completion_def)
qed

text \<open>
  C12. SAVE_ITEM, then LOAD_INVENTORY gives back what was saved. Slot, and stack count are reduced to 32 bits; the slot is
  listed exactly when the reduced count is not 0, with the saved item and count, so a count of 4294967296
  deletes the item; every other slot is listed as before, and the list is sorted by slot.
\<close>
theorem save_item_then_load:
  assumes store: "game_store my tables saved collate" and none: "saved db = None"
    and save: "job_operation save = DbSaveInventoryItem"
      "job_args save = account # slot_text # item_text # count_text # extra"
      "stoul slot_text = Inr slot" "stoull item_text = Inr item" "stoul count_text = Inr stack"
      "execute_job my save db = (Inr c1, db1)"
    and load: "job_operation load = DbLoadInventory" "job_args load = account # extra"
      "execute_job my load db1 = (Inr c2, db2)"
  shows "\<exists>player slots row. owner collate (tables db) account player \<and> sorted_wrt (<) slots \<and>
      dc_line c2 = load_inventory_line account (map (\<lambda>s. item_entry s (row s)) slots) \<and>
      (ucast slot \<in> set slots \<longleftrightarrow> (ucast stack :: 32 word) \<noteq> 0) \<and>
      (ucast slot \<in> set slots \<longrightarrow> row (ucast slot) = \<lparr>it_item = item, it_count = ucast stack\<rparr>) \<and>
      (\<forall>s. s \<noteq> ucast slot \<longrightarrow>
        (if s \<in> set slots then Some (row s) else None) = tb_items (tables db) (player, s))"
proof -
  let ?t = "tables db" and ?t1 = "tables db1"
  have none1: "saved db1 = None" and ch: "job_change collate save ?t ?t1"
    using execute_job_change(1,2) [OF store none save(6)] by auto
  from ch save obtain player where own: "owner collate ?t account player"
      and t1: "?t1 = store_item player (ucast slot) item (ucast stack) ?t"
    by (auto simp: job_change_def)
  from load_inventory_result [OF store none1 load] obtain p slots where
      p: "tb_players ?t1 (collate account) = Some p" and slots: "slots_of ?t1 (pl_id p) slots"
      and line: "dc_line c2 = load_inventory_line account
        (map (\<lambda>slot. item_entry slot (the (tb_items ?t1 (pl_id p, slot)))) slots)" by blast
  have id: "pl_id p = player" using p own by (simp add: t1 store_item_def owner_def)
  let ?row = "\<lambda>s. the (tb_items ?t1 (player, s))"
  have "owner collate ?t account player \<and> sorted_wrt (<) slots \<and>
      dc_line c2 = load_inventory_line account (map (\<lambda>s. item_entry s (?row s)) slots) \<and>
      (ucast slot \<in> set slots \<longleftrightarrow> (ucast stack :: 32 word) \<noteq> 0) \<and>
      (ucast slot \<in> set slots \<longrightarrow> ?row (ucast slot) = \<lparr>it_item = item, it_count = ucast stack\<rparr>) \<and>
      (\<forall>s. s \<noteq> ucast slot \<longrightarrow> (if s \<in> set slots then Some (?row s) else None) = tb_items ?t (player, s))"
    using own slots line by (auto simp: id slots_of_def t1 store_item_def)
  then show ?thesis by (intro exI)
qed


lemma save_item_then_load_witness:
  "\<exists>slots row. ''OK LOAD_INVENTORY account=bob item_count=1 items=1:8:1'' =
     load_inventory_line ''bob'' (map (\<lambda>s. item_entry s (row s)) slots) \<and> 2 \<notin> set slots"
proof -
  have none: "engine_saved (bob_data [] bob_potion) = None" by (simp add: engine_saved_def bob_data_def)
  have save: "job_operation bob_store = DbSaveInventoryItem"
      "job_args bob_store = ''bob'' # ''2'' # ''9'' # ''4294967296'' # []"
    by (simp_all add: bob_store_def bob_job_def)
  have load: "job_operation bob_inventory = DbLoadInventory" "job_args bob_inventory = ''bob'' # []"
    by (simp_all add: bob_inventory_def bob_job_def)
  have casts: "ucast (2 :: 64 word) = (2 :: 32 word)" "ucast (4294967296 :: 64 word) = (0 :: 32 word)"
    by simp_all
  show ?thesis
    using save_item_then_load [OF engine.game_store_axioms none save demo_unsigned(3,4) demo_unsigned_33 bob_stores load bob_lists]
    unfolding casts by (auto simp: ok_completion_def)
qed

section \<open>The tables and the whole program\<close>

lemma worker_step_change:
  assumes store: "game_store my tables saved collate" and none: "saved db = None"
    and step: "worker_step my (d, db) (d', db')"
  shows "saved db' = None \<and> (tables db' = tables db \<or> (\<exists>job. job_change collate job (tables db) (tables db')))"
  using step
proof (cases rule: worker_step_cases)
  case (pop i)
  then show ?thesis using none game_store.closes [OF store none] by (simp add: worker_release_def Let_def)
next
  case (finish i)
  from finish show ?thesis
  proof (cases rule: worker_finish_cases)
    case (1 us w vs job connected c)
    note change = run_job_change [OF store none 1(4)]
    show ?thesis using change by (cases "dc_ok c") auto
  qed
qed




section \<open>A connection that has died\<close>

text \<open>
  A worker opens a connection when it has none and keeps it. \<open>dead\<close> is a set of states in which the server is
  gone for the connection: no statement can be prepared, no query runs, and that does not change by itself (automatic
  reconnection is off unless it is asked for), nor by taking or giving back a handle.
\<close>

definition dead_link :: "'db mysql \<Rightarrow> 'db set \<Rightarrow> bool" where
  "dead_link my dead \<longleftrightarrow> (\<forall>db \<in> dead. (\<forall>sql. my_stmt_prepare my sql db \<noteq> None) \<and>
     (\<forall>sql r db'. my_query my sql db = (r, db') \<longrightarrow> r \<noteq> None \<and> db' \<in> dead) \<and>
     snd (my_stmt_init my db) \<in> dead \<and> my_stmt_close my db \<in> dead \<and> my_close my db \<in> dead)"

lemma dead_stmt:
  assumes "dead_link my dead" and "db \<in> dead"
  shows "\<exists>e db'. stmt_new my sql db = (Inl e, db') \<and> db' \<in> dead"
proof -
  obtain r db1 where init: "my_stmt_init my db = (r, db1)" by (cases "my_stmt_init my db")
  then have "db1 \<in> dead" using assms by (metis dead_link_def snd_conv)
  then have "my_stmt_prepare my sql db1 \<noteq> None" "my_stmt_close my db1 \<in> dead"
    using assms(1) by (metis dead_link_def)+
  then show ?thesis using init \<open>db1 \<in> dead\<close> by (auto simp: stmt_new_def split: option.splits)
qed

lemma dead_begin: "dead_link my dead \<Longrightarrow> db \<in> dead \<Longrightarrow> \<exists>e db'. begin_txn my db = (Inl e, db') \<and> db' \<in> dead"
  by (cases "my_query my ''BEGIN'' db") (auto simp: dead_link_def begin_txn_def sql_exec_def split: option.splits)

definition dies :: "'db set \<Rightarrow> ('db, 'a) db_op \<Rightarrow> bool" where
  "dies dead m \<longleftrightarrow> (\<forall>db \<in> dead. \<exists>e db'. m db = (Inl e, db') \<and> db' \<in> dead)"

lemma dies_result: "(\<And>x. r = Inr x \<Longrightarrow> dies dead (f x)) \<Longrightarrow> dies dead (db_bind (db_result r) f)"
  by (cases r) (auto simp: dies_def db_result_def)

lemma dies_bind: "dies dead m \<Longrightarrow> dies dead (db_bind m f)"
  by (fastforce simp: dies_def db_bind_def)

lemma dies_stmt: "dead_link my dead \<Longrightarrow> dies dead (with_statement my sql m)"
  unfolding with_statement_def by (rule dies_bind) (simp add: dies_def dead_stmt)

lemma dies_begin: "dead_link my dead \<Longrightarrow> dies dead (begin_txn my)"
  unfolding dies_def by (intro ballI dead_begin)

lemma dies_select: "dead_link my dead \<Longrightarrow> dies dead (select_player_id my account)"
  unfolding select_player_id_def select_player_id_impl_def by (rule dies_stmt)

lemmas dies_rules = dies_result dies_stmt dies_bind [OF dies_begin] dies_bind [OF dies_select]

lemma dies_operations:
  assumes "dead_link my dead"
  shows "dies dead (register_player my job)" "dies dead (login_player my job)"
    "dies dead (save_character my job)" "dies dead (save_position my job)" "dies dead (load_characters my job)"
    "dies dead (save_inventory_item my job)" "dies dead (load_inventory my job)"
  unfolding register_player_def login_player_def save_character_def save_position_def load_characters_def
    save_inventory_item_def load_inventory_def Let_def
  by (intro dies_rules assms)+

lemma dies_execute_job: "dead_link my dead \<Longrightarrow> dies dead (execute_job my job)"
  by (cases "job_operation job") (simp_all add: execute_job_def dies_operations)

definition gone_mysql :: "unit mysql" where
  "gone_mysql = \<lparr>my_init = (\<lambda>db. (True, db)), my_connect = (\<lambda>_ db. (None, db)), my_close = (\<lambda>db. db),
     my_stmt_init = (\<lambda>db. (None, db)), my_stmt_prepare = (\<lambda>_ _. Some ''MySQL server has gone away''),
     my_stmt_close = (\<lambda>db. db), my_bind_param = (\<lambda>_ _ _. None),
     my_execute = (\<lambda>_ _ db. (Inr [], db)), my_bind_result = (\<lambda>_ _. None), my_store_result = (\<lambda>_ _. None),
     my_fetch_error = (\<lambda>_ _ _. None), my_query = (\<lambda>_ db. (Some ''MySQL server has gone away'', db))\<rparr>"

definition gone_dispatcher :: dispatcher where
  "gone_dispatcher = (dispatcher_new default_database_config)\<lparr>dd_started := True,
     dd_workers := [\<lparr>wk_connected = True, wk_job = Some bob_login, wk_done = False\<rparr>], dd_completions := []\<rparr>"

text \<open>
  C14. A dead connection is never replaced. Once the connection of every worker has died, every further job,
  whatever it asks for, is answered ERR, for as long as the program runs: the workers stay
  connected to the dead connection and no completion with OK is produced any more.
\<close>
theorem dead_connections_stay_dead:
  assumes dead: "dead_link my dead" and steps: "(worker_step my)\<^sup>*\<^sup>* (d, db) (d', db')"
    and start: "db \<in> dead" "\<forall>w \<in> set (dd_workers d). wk_connected w"
  shows "db' \<in> dead \<and> (\<forall>w \<in> set (dd_workers d'). wk_connected w) \<and>
    (\<exists>answers. dd_completions d' = dd_completions d @ answers \<and>
      (\<forall>c \<in> set answers. \<exists>job e. c = error_completion job e))"
  using steps
proof (induction "(d', db')" arbitrary: d' db' rule: rtranclp_induct)
  case base
  then show ?case using start by simp
next
  case (step s)
  obtain d1 db1 where s: "s = (d1, db1)" by (cases s)
  from step(3) [OF s] obtain answers where before: "db1 \<in> dead" "\<forall>w \<in> set (dd_workers d1). wk_connected w"
      "dd_completions d1 = dd_completions d @ answers" "\<forall>c \<in> set answers. \<exists>job e. c = error_completion job e"
    by blast
  from step(2) have "worker_step my (d1, db1) (d', db')" by (simp add: s)
  then show ?case
  proof (cases rule: worker_step_cases)
    case (pop i)
    have "my_close my db1 \<in> dead" using dead before(1) by (metis dead_link_def)
    then have "db' \<in> dead" using before(1) pop(2) by (simp add: worker_release_def Let_def)
    with pop(1) show ?thesis using before(2-4) by (cases rule: worker_pop_cases) auto
  next
    case (finish i)
    from finish show ?thesis
    proof (cases rule: worker_finish_cases)
      case (1 us w vs job connected c)
      have con: "wk_connected w" using before(2) 1(1) by simp
      obtain e db2 where "execute_job my job db1 = (Inl e, db2)" "db2 \<in> dead"
        using dies_execute_job [OF dead, of job] before(1) unfolding dies_def by blast
      then have "connected \<and> c = error_completion job e \<and> db' \<in> dead"
        using 1(4) con by (simp add: run_job_def)
      then show ?thesis
        using 1(1,5) before(2,3,4) by (auto simp: push_completion_def intro!: exI [of _ "answers @ [c]"])
    qed
  qed
qed


lemma dead_connections_stay_dead_witness:
  "\<exists>d. (worker_step gone_mysql)\<^sup>*\<^sup>* (gone_dispatcher, ()) (d, ()) \<and>
     (\<exists>c job e. dd_completions d = [c] \<and> c = error_completion job e)"
proof -
  have dead: "dead_link gone_mysql UNIV" by (simp add: dead_link_def gone_mysql_def)
  obtain d where run: "worker_finish gone_mysql 0 gone_dispatcher () = Some (d, ())"
    by (cases "run_job gone_mysql default_database_config True bob_login ()")
      (simp add: worker_finish_def gone_dispatcher_def dispatcher_new_def)
  then have one: "length (dd_completions d) = 1"
    by (auto simp: worker_finish_def gone_dispatcher_def push_completion_def split: prod.splits)
  from run have steps: "(worker_step gone_mysql)\<^sup>*\<^sup>* (gone_dispatcher, ()) (d, ())"
    by (blast intro: worker_step.finish)
  have "\<forall>w \<in> set (dd_workers gone_dispatcher). wk_connected w" "dd_completions gone_dispatcher = []"
    by (simp_all add: gone_dispatcher_def)
  with dead_connections_stay_dead [OF dead steps] one show ?thesis
    using steps by (cases "dd_completions d") auto
qed

end
