(* ===== verification/System_Refinement.thy ===== *)
theory System_Refinement
  imports System
begin

text \<open>
  The program refines the worker pool with an arbitrary client. The histories of a run are read off the
  dispatcher: a job is submitted when it appears in the job queue during a step of the event loop, a
  completion is answered when it disappears from the completion queue. With these histories every run of
  the program is a run of \<open>pool_step\<close>, so what holds of the pool with any client holds of the program.

  The relation \<open>feeds\<close> says that a piece of the event loop changes the dispatcher only by
  submitting jobs; the frames of Server.thy carry it through every handler.
\<close>

section \<open>The handlers only submit\<close>

definition feeds :: "server \<Rightarrow> server \<Rightarrow> bool" where
  "feeds sv sv' \<longleftrightarrow> (\<exists>jobs. sv_database sv' = fold submit jobs (sv_database sv))"

lemma feeds_same: "sv_database sv' = sv_database sv \<Longrightarrow> feeds sv sv'"
  unfolding feeds_def by (rule exI [of _ "[]"]) simp

lemma feeds_refl [simp]: "feeds sv sv"
  by (rule feeds_same) simp

lemma feeds_trans: "feeds sv sv1 \<Longrightarrow> feeds sv1 sv2 \<Longrightarrow> feeds sv sv2"
  unfolding feeds_def by (metis fold_append o_apply)

lemma feeds_push: "ensures (push_sqe pf token sv) (feeds sv)"
  by (auto simp: ensures_iff elim!: push_sqe_cases intro: feeds_same)

lemma feeds_update: "feeds sv (update_session fd f sv)"
  by (rule feeds_same) (simp add: update_session_def)

lemma feeds_post_send: "ensures (post_send pf fd sv) (feeds sv)"
  unfolding ensures_iff
proof (intro allI impI)
  fix sv' assume "post_send pf fd sv = Inr sv'"
  then show "feeds sv sv'" by (cases rule: post_send_cases) (auto intro: feeds_same)
qed

lemma feeds_respond: "ensures (queue_response pf fd generation line sv) (feeds sv)"
  unfolding ensures_iff
proof (intro allI impI)
  fix sv' assume "queue_response pf fd generation line sv = Inr sv'"
  then show "feeds sv sv'" by (cases rule: queue_response_cases) (auto intro: feeds_same)
qed

lemma feeds_job: "feeds sv (submit_job j sv)"
  unfolding feeds_def by (rule exI [of _ "[j]"]) (simp add: submit_job_def)

lemma feeds_farewell: "ensures (farewell pf fd generation line sv) (feeds sv)"
  unfolding farewell_def
  by (rule ensures_bind, rule ensures_mono [OF feeds_respond]) (auto intro: feeds_trans feeds_update)

interpretation feeds: line_frame pf feeds fd generation "\<lambda>_. True" for pf fd generation
  by unfold_locales (auto intro: feeds_trans feeds_respond feeds_job feeds_farewell feeds_update feeds_same)

interpretation feeds_close: closing_frame pf feeds for pf
  by unfold_locales (auto intro: feeds_same)

lemma feeds_bind:
  "ensures r (feeds sv) \<Longrightarrow> (\<And>sv1. ensures (f sv1) (feeds sv1)) \<Longrightarrow> ensures (bind_result r f) (feeds sv)"
  by (cases r) (auto simp: ensures_iff intro: feeds_trans)

lemma feeds_start: "feeds sv sv1 \<Longrightarrow> ensures r (feeds sv1) \<Longrightarrow> ensures r (feeds sv)"
  by (auto simp: ensures_iff intro: feeds_trans)

lemma feeds_process_lines: "ensures (process_lines pf fd g sv) (feeds sv)"
  by (rule process_lines_frame) (auto intro: feeds_trans feeds_update feeds.client_line)

lemma feeds_on_recv: "ensures (on_recv pf token result data sv) (feeds sv)"
proof -
  let ?fd = "t_fd token" and ?g = "t_generation token"
  have "ensures (bind_result (process_lines pf ?fd ?g sv1) (\<lambda>sv1.
        if \<not> session_matches sv1 ?fd ?g then Inr sv1
        else
          bind_result (if too_long sv1 ?fd
            then farewell pf ?fd ?g ''ERR line too long'' sv1 else Inr sv1) (\<lambda>sv2.
          if \<not> is_closing sv2 ?fd then post_recv pf ?fd ?g sv2
          else maybe_close_after_flush pf ?fd sv2))) (feeds sv1)" for sv1
    by (rule feeds_bind [OF feeds_process_lines])
      (auto intro!: feeds_bind simp: post_recv_def feeds_push feeds_farewell feeds_close.maybe_close)
  note body = feeds_start [OF feeds_update this]
  show ?thesis
    using feeds_close.close [of pf ?fd sv] by (simp add: on_recv_def Let_def body)
qed

lemma feeds_on_send: "ensures (on_send pf token result sv) (feeds sv)"
proof -
  let ?fd = "t_fd token"
  have "ensures (bind_result (post_send pf ?fd sv1) (maybe_close_after_flush pf ?fd)) (feeds sv1)" for sv1
    by (rule feeds_bind [OF feeds_post_send feeds_close.maybe_close])
  then have "ensures (bind_result (post_send pf ?fd (update_session ?fd f (update_session ?fd g sv)))
      (maybe_close_after_flush pf ?fd)) (feeds sv)" for f g
    using feeds_start [OF feeds_trans [OF feeds_update feeds_update]] by blast
  moreover have "ensures (close_session pf ?fd (update_session ?fd g sv)) (feeds sv)" for g
    by (rule feeds_start [OF feeds_update feeds_close.close])
  ultimately show ?thesis by (simp add: on_send_def Let_def)
qed

lemma feeds_on_accept: "ensures (on_accept pf result sv) (feeds sv)"
proof -
  have "feeds sv (add_session s (sv\<lparr>sv_next_session_generation := g\<rparr>))" for s g
    by (rule feeds_same) (simp add: add_session_def split: option.split)
  note added = this
  have "ensures (open_session pf fd sv) (feeds sv)" for fd
    unfolding open_session_def Let_def
    by (rule feeds_start [OF added feeds_bind [OF feeds_respond]]) (simp add: post_recv_def feeds_push)
  then show ?thesis
    unfolding on_accept_def
    by (intro feeds_bind) (auto simp: post_accept_def feeds_push intro: feeds_same)
qed

lemma feeds_on_completion: "ensures (on_completion pf completion sv) (feeds sv)"
proof -
  have "ensures (bind_result (queue_response pf fd g line (update_session fd f sv))
      (maybe_close_after_flush pf fd)) (feeds sv)" for fd g line f
    by (rule feeds_start [OF feeds_update feeds_bind [OF feeds_respond feeds_close.maybe_close]])
  then show ?thesis by (auto simp: on_completion_def Let_def intro: feeds_same)
qed

lemma fold_submit_simps [simp]:
  "dd_completions (fold submit jobs d) = dd_completions d"
  "dd_event_count (fold submit jobs d) = dd_event_count d"
  "bq_closed (dd_jobs (fold submit jobs d)) = bq_closed (dd_jobs d)"
  by (induction jobs arbitrary: d) (simp_all add: submit_def bq_push_def)

lemma fold_submit_queue:
  "\<not> bq_closed (dd_jobs d) \<Longrightarrow> bq_queue (dd_jobs (fold submit jobs d)) = bq_queue (dd_jobs d) @ jobs"
  by (induction jobs arbitrary: d) (simp_all add: submit_def bq_push_def)

lemma fold_submit_completions:
  "(fold submit jobs d)\<lparr>dd_completions := cs\<rparr> = fold submit jobs (d\<lparr>dd_completions := cs\<rparr>)"
proof (induction jobs arbitrary: d)
  case (Cons j jobs)
  have "(submit j d)\<lparr>dd_completions := cs\<rparr> = submit j (d\<lparr>dd_completions := cs\<rparr>)"
    by (cases d) (simp add: submit_def)
  with Cons show ?case by simp
qed simp

text \<open>Draining takes the completions that were there, and submits.\<close>

lemma drain_database:
  "ensures (drain_completions pf sv) (\<lambda>sv'. \<exists>jobs.
     sv_database sv' = fold submit jobs ((sv_database sv)\<lparr>dd_completions := []\<rparr>))"
proof (induction pf sv rule: drain_completions.induct)
  case (1 pf sv)
  let ?d = "sv_database sv"
  show ?case
  proof (cases "dd_completions ?d")
    case Nil
    then have "?d\<lparr>dd_completions := []\<rparr> = ?d" by simp
    with Nil show ?thesis
      by (simp add: drain_completions.simps [of pf sv] pop_completion_def) (rule exI [of _ "[]"], simp)
  next
    case (Cons c cs)
    let ?sv0 = "sv\<lparr>sv_database := ?d\<lparr>dd_completions := cs\<rparr>\<rparr>"
    have pop: "pop_completion ?d = (Some c, ?d\<lparr>dd_completions := cs\<rparr>)"
      using Cons by (simp add: pop_completion_def)
    have "\<exists>jobs. sv_database sv2 = fold submit jobs (?d\<lparr>dd_completions := []\<rparr>)"
      if c: "on_completion pf c ?sv0 = Inr sv1" and r: "drain_completions pf sv1 = Inr sv2" for sv1 sv2
    proof -
      obtain js1 where "sv_database sv1 = fold submit js1 (?d\<lparr>dd_completions := cs\<rparr>)"
        using ensuresD [OF feeds_on_completion c] by (auto simp: feeds_def)
      moreover obtain js2 where "sv_database sv2 = fold submit js2 ((sv_database sv1)\<lparr>dd_completions := []\<rparr>)"
        using ensuresD [OF "1.IH" [OF pop [symmetric] refl c] r] by blast
      ultimately have "sv_database sv2 = fold submit (js1 @ js2) (?d\<lparr>dd_completions := []\<rparr>)"
        by (simp add: fold_submit_completions)
      then show ?thesis ..
    qed
    then show ?thesis
      by (auto simp: drain_completions.simps [of pf sv] pop ensures_iff bind_result_Inr_iff)
  qed
qed


section \<open>The histories of a run\<close>

definition new_jobs :: "server \<Rightarrow> server \<Rightarrow> db_job list" where
  "new_jobs sv sv' = drop (length (bq_queue (dd_jobs (sv_database sv)))) (bq_queue (dd_jobs (sv_database sv')))"

definition taken_completions :: "server \<Rightarrow> server \<Rightarrow> db_completion list" where
  "taken_completions sv sv' = take (length (dd_completions (sv_database sv)) -
     length (dd_completions (sv_database sv'))) (dd_completions (sv_database sv))"

inductive program_run :: "'db mysql \<Rightarrow> platform \<Rightarrow> app_config \<Rightarrow> 'db \<Rightarrow>
    server \<Rightarrow> 'db \<Rightarrow> request_key list \<Rightarrow> request_key list \<Rightarrow> bool" for my pf config db0 where
  start: "program_start pf config listen_fd entries = Inr sv \<Longrightarrow> program_run my pf config db0 sv db0 [] []"
| loop: "program_run my pf config db0 sv db asked told \<Longrightarrow> loop_step pf sv sv' \<Longrightarrow>
    program_run my pf config db0 sv' db (asked @ map job_key (new_jobs sv sv'))
      (told @ map completion_key (taken_completions sv sv'))"
| work: "program_run my pf config db0 sv db asked told \<Longrightarrow>
    worker_step my (sv_database sv, db) (d, db') \<Longrightarrow>
    program_run my pf config db0 (sv\<lparr>sv_database := d\<rparr>) db' asked told"

lemma program_run_reachable:
  "program_run my pf config db0 sv db asked told \<Longrightarrow> reachable my pf config db0 (sv, db)"
  by (induction rule: program_run.induct)
    (auto intro: reachable.start reachable.step system_step.loop system_step.work)

lemma reachable_program_run:
  assumes "reachable my pf config db0 s"
  shows "\<exists>asked told. program_run my pf config db0 (fst s) (snd s) asked told"
  using assms
proof induction
  case (start listen_fd entries sv)
  then show ?case using program_run.start by fastforce
next
  case (step s s')
  then obtain asked told where run: "program_run my pf config db0 (fst s) (snd s) asked told" by blast
  from step(2) show ?case
  proof cases
    case (loop sv sv' db)
    then show ?thesis using program_run.loop [OF run] by auto
  next
    case (work sv db d db')
    then show ?thesis using program_run.work [OF run] by auto
  qed
qed

section \<open>The simulation\<close>

lemma pool_submits:
  "\<not> bq_closed (dd_jobs d) \<Longrightarrow>
   (pool_step my)\<^sup>*\<^sup>* (r, d, db, subs, dels) (r, fold submit jobs d, db, subs @ map job_key jobs, dels)"
proof (induction jobs arbitrary: d subs)
  case (Cons j jobs)
  have "pool_step my (r, d, db, subs, dels) (r, submit j d, db, subs @ [job_key j], dels)"
    using Cons.prems by (rule pool_step.submit)
  moreover have "\<not> bq_closed (dd_jobs (submit j d))"
    using Cons.prems by (simp add: submit_def bq_push_def)
  ultimately show ?case
    using Cons.IH [of "submit j d" "subs @ [job_key j]"] by (simp add: converse_rtranclp_into_rtranclp)
qed simp

lemma pool_delivers:
  "(pool_step my)\<^sup>*\<^sup>* (True, d, db, subs, dels)
     (False, d\<lparr>dd_completions := []\<rparr>, db, subs, dels @ map completion_key (dd_completions d))"
proof (induction "dd_completions d" arbitrary: d dels)
  case Nil
  then have "pop_completion d = (None, d)" and same: "d\<lparr>dd_completions := []\<rparr> = d"
    by (simp_all add: pop_completion_def)
  with pool_step.drained [of d d my db subs dels] show ?case
    unfolding same by (simp add: Nil(1) [symmetric] r_into_rtranclp)
next
  case (Cons c cs)
  let ?d = "d\<lparr>dd_completions := cs\<rparr>"
  have "pop_completion d = (Some c, ?d)" using Cons(2) [symmetric] by (simp add: pop_completion_def)
  then have "pool_step my (True, d, db, subs, dels) (True, ?d, db, subs, dels @ [completion_key c])"
    by (rule pool_step.deliver)
  with Cons(1) [of ?d "dels @ [completion_key c]"] Cons(2) [symmetric] show ?case
    by (simp add: converse_rtranclp_into_rtranclp)
qed

lemma pool_open:
  assumes "(pool_step my)\<^sup>*\<^sup>* (pool_init config db0) (r, d, db, subs, dels)"
  shows "\<not> bq_closed (dd_jobs d)"
proof -
  have open_step: "\<not> bq_closed (dd_jobs (fst (snd t)))"
    if "pool_step my s t" "\<not> bq_closed (dd_jobs (fst (snd s)))" for s t :: "'a pool_state"
    using that
  proof (induction rule: pool_step.induct)
    case (work d db d' db' reading subs dels)
    from work(1) show ?case
    proof (cases rule: worker_step_cases)
      case (pop i)
      from pop(1) show ?thesis using work(2) by (cases rule: worker_pop_cases) auto
    next
      case (finish i)
      from finish(1) show ?thesis
        using work(2) by (cases rule: worker_finish_cases) (auto simp: push_completion_def)
    qed
  next
    case (deliver d c d' db subs dels)
    then show ?case by (auto simp: pop_completion_def split: list.splits)
  next
    case (drained d d' db subs dels)
    then show ?case by (auto simp: pop_completion_def split: list.splits)
  qed (simp_all add: submit_def bq_push_def event_read_def)
  have "\<not> bq_closed (dd_jobs (fst (snd (r, d, db, subs, dels))))"
    using assms
  proof (induction rule: rtranclp_induct)
    case base
    show ?case by (simp add: pool_init_def dispatcher_start_def dispatcher_new_def bq_empty_def)
  next
    case (step s t)
    then show ?case using open_step by blast
  qed
  then show ?thesis by simp
qed

text \<open>A database event takes every completion, and may feed the pool.\<close>

lemma on_database_event_database:
  assumes "on_database_event pf sv = Inr sv'"
  shows "\<exists>jobs. sv_database sv' = fold submit jobs ((event_read (sv_database sv))\<lparr>dd_completions := []\<rparr>)"
proof -
  from assms obtain sv1 where "drain_completions pf (sv\<lparr>sv_database := event_read (sv_database sv)\<rparr>) = Inr sv1"
      and post: "(if \<not> sv_stopping sv1 then post_eventfd_poll pf sv1 else Inr sv1) = Inr sv'"
    by (auto simp: on_database_event_def bind_result_Inr_iff)
  then obtain jobs where "sv_database sv1 =
      fold submit jobs ((event_read (sv_database sv))\<lparr>dd_completions := []\<rparr>)"
    using ensuresD [OF drain_database] by fastforce
  moreover have "sv_database sv' = sv_database sv1"
    using post by (auto simp: post_eventfd_poll_def elim!: push_sqe_cases split: if_splits)
  ultimately show ?thesis by metis
qed

text \<open>One step of the event loop: it feeds the pool, or handles a database event.\<close>

lemma loop_step_database:
  assumes "loop_step pf sv sv'"
  obtains (fed) jobs where "sv_database sv' = fold submit jobs (sv_database sv)"
  | (event) jobs where "sv_database sv' =
      fold submit jobs ((event_read (sv_database sv))\<lparr>dd_completions := []\<rparr>)"
  using assms
proof (cases rule: loop_step_cases)
  case (submitted n)
  then show ?thesis by (intro fed [of "[]"]) simp
next
  case (accepted token result)
  then show ?thesis using ensuresD [OF feeds_on_accept accepted(4)] fed by (auto simp: feeds_def)
next
  case (received token result data)
  then show ?thesis using ensuresD [OF feeds_on_recv received(5)] fed by (auto simp: feeds_def)
next
  case (sent token result)
  then show ?thesis using ensuresD [OF feeds_on_send sent(4)] fed by (auto simp: feeds_def)
next
  case (database token)
  from on_database_event_database [OF database(3)] event show ?thesis by auto
qed

lemma pool_simulates_loop:
  assumes step: "loop_step pf sv sv'"
    and pool: "(pool_step my)\<^sup>*\<^sup>* (pool_init config db0) (False, sv_database sv, db, asked, told)"
  shows "(pool_step my)\<^sup>*\<^sup>* (pool_init config db0) (False, sv_database sv', db,
    asked @ map job_key (new_jobs sv sv'), told @ map completion_key (taken_completions sv sv'))"
proof -
  let ?d = "sv_database sv"
  have op: "\<not> bq_closed (dd_jobs ?d)" using pool_open [OF pool] .
  have wake: "dd_completions ?d \<noteq> [] \<longrightarrow> 0 < dd_event_count ?d"
    using pool_reachable_inv [OF pool] by (simp add: wake_inv_def)
  from step show ?thesis
  proof (cases rule: loop_step_database)
    case (fed jobs)
    have "new_jobs sv sv' = jobs" "taken_completions sv sv' = []"
      using fed fold_submit_queue [OF op] by (simp_all add: new_jobs_def taken_completions_def)
    then show ?thesis
      using rtranclp_trans [OF pool pool_submits [OF op, of my False db asked told jobs]] fed by simp
  next
    case (event jobs)
    let ?e = "event_read ?d"
    have op': "\<not> bq_closed (dd_jobs (?e\<lparr>dd_completions := []\<rparr>))" using op by (simp add: event_read_def)
    have "new_jobs sv sv' = jobs" "taken_completions sv sv' = dd_completions ?d"
      using event fold_submit_queue [OF op'] by (simp_all add: new_jobs_def taken_completions_def event_read_def)
    moreover have "(pool_step my)\<^sup>*\<^sup>* (False, ?d, db, asked, told)
        (False, ?e\<lparr>dd_completions := []\<rparr>, db, asked, told @ map completion_key (dd_completions ?d))"
    proof (cases "dd_event_count ?d = 0")
      case True
      with wake have "dd_completions ?d = []" by auto
      moreover from this True have "?e\<lparr>dd_completions := []\<rparr> = ?d" by (simp add: event_read_def)
      ultimately show ?thesis by simp
    next
      case False
      then have "pool_step my (False, ?d, db, asked, told) (True, ?e, db, asked, told)"
        by (intro pool_step.wake) simp
      moreover have "dd_completions ?e = dd_completions ?d" by (simp add: event_read_def)
      ultimately show ?thesis
        using pool_delivers [of my ?e db asked told] by (simp add: converse_rtranclp_into_rtranclp)
    qed
    ultimately show ?thesis
      using rtranclp_trans [OF pool] rtranclp_trans [OF _ pool_submits [OF op', of my False db asked _ jobs]]
        event by (metis (no_types, lifting))
  qed
qed

lemma program_run_pool:
  assumes "program_run my pf config db0 sv db asked told"
  shows "(pool_step my)\<^sup>*\<^sup>* (pool_init (app_database config) db0) (False, sv_database sv, db, asked, told)"
  using assms
proof induction
  case (start listen_fd entries sv)
  have "sv_database sv = dispatcher_start (dispatcher_new (app_database config))"
    using start by (auto simp: program_start_def run_begin_def server_new_def post_accept_def
        post_eventfd_poll_def bind_result_Inr_iff elim!: push_sqe_cases)
  then show ?case by (simp add: pool_init_def)
next
  case (loop sv db asked told sv')
  from pool_simulates_loop [OF loop(2,3)] show ?case .
next
  case (work sv db asked told d db')
  from work(3) pool_step.work [OF work(2), of False asked told] show ?case
    by (simp add: rtranclp.rtrancl_into_rtrancl)
qed

end
