(* ===== verification/Server_Faults.thy ===== *)
theory Server_Faults
  imports Server_Effects "HOL-Library.Sublist"
begin

text \<open>
  What can end the event loop. With a kernel that takes what is submitted, no completion of any kind makes a handler
  throw, except a receive whose data completes an \<open>ENTER\<close> or \<open>MOVE\<close> line with coordinates that do not fit.
  \<open>breaks_only F\<close> says that an operation can fail only with a fault in \<open>F\<close>.
\<close>

definition coordinate_fault :: "fault \<Rightarrow> bool" where
  "coordinate_fault f \<longleftrightarrow> f = Exn (Out_Of_Range ''stoi'') \<or> f = Signed_Overflow"

definition breaks_only :: "(fault \<Rightarrow> bool) \<Rightarrow> server_result \<Rightarrow> bool" where
  "breaks_only F r \<longleftrightarrow> (\<forall>f. r = Inl f \<longrightarrow> F f)"

lemma breaks_only_Inr [simp]: "breaks_only F (Inr sv)"
  by (simp add: breaks_only_def)

lemma breaks_only_Inl [simp]: "breaks_only F (Inl f) = F f"
  by (simp add: breaks_only_def)

lemma returns_breaks: "returns r P \<Longrightarrow> breaks_only F r"
  by (auto simp: returns_iff)

lemma breaks_bind:
  "breaks_only F r \<Longrightarrow> (\<And>sv. r = Inr sv \<Longrightarrow> breaks_only F (f sv)) \<Longrightarrow> breaks_only F (bind_result r f)"
  by (cases r) auto

section \<open>The ring keeps its size\<close>

definition rooms :: "server \<Rightarrow> server \<Rightarrow> bool" where
  "rooms sv sv' \<longleftrightarrow> ring_entries (sv_ring sv') = ring_entries (sv_ring sv)"

lemma rooms_push: "ensures (push_sqe pf token sv) (rooms sv)"
  by (auto simp: ensures_iff push_sqe_def bind_result_Inr_iff rooms_def get_sqe_def kernel_takes_def Let_def
      split: if_splits)

lemma rooms_update: "rooms sv (update_session fd f sv)"
  by (simp add: rooms_def update_session_def)

lemma rooms_trans: "rooms sv sv1 \<Longrightarrow> rooms sv1 sv2 \<Longrightarrow> rooms sv sv2"
  by (simp add: rooms_def)

lemma rooms_start: "rooms sv sv1 \<Longrightarrow> ensures r (rooms sv1) \<Longrightarrow> ensures r (rooms sv)"
  by (auto simp: ensures_iff intro: rooms_trans)

lemma rooms_post_send: "ensures (post_send pf fd sv) (rooms sv)"
proof (cases "sv_sessions sv fd")
  case None
  then show ?thesis by (simp add: post_send_def rooms_def)
next
  case (Some s)
  then show ?thesis
    using rooms_start [OF rooms_update rooms_push] by (simp add: post_send_def) (simp add: rooms_def)
qed

lemma rooms_respond: "ensures (queue_response pf fd generation line sv) (rooms sv)"
  using rooms_start [OF rooms_update rooms_post_send] by (simp add: queue_response_def) (simp add: rooms_def)

lemma rooms_farewell: "ensures (farewell pf fd generation line sv) (rooms sv)"
  unfolding farewell_def
  by (rule ensures_bind, rule ensures_mono [OF rooms_respond]) (auto intro: rooms_trans rooms_update)

interpretation rooms: line_frame pf rooms fd generation "\<lambda>_. True" for pf fd generation
  by unfold_locales
    (auto intro: rooms_respond rooms_farewell simp: rooms_def submit_job_def update_session_def)

interpretation rooms_close: closing_frame pf rooms for pf
  by unfold_locales (simp add: rooms_def)

lemma roomy_rooms: "roomy pf sv \<Longrightarrow> rooms sv sv' \<Longrightarrow> roomy pf sv'"
  by (simp add: roomy_def rooms_def)

lemma rooms_process_lines: "ensures (process_lines pf fd g sv) (rooms sv)"
  by (rule process_lines_frame) (auto intro: rooms.refl rooms_trans rooms_update rooms.client_line)

section \<open>Lines\<close>

text \<open>The lines that can throw: accepted ENTER and MOVE lines.\<close>

definition coordinate_line :: "string \<Rightarrow> bool" where
  "coordinate_line line \<longleftrightarrow> ok (parse_line line) \<and>
     req_type (parsed_request (parse_line line)) \<in> {KEnterWorld, KMove}"

lemma deadly_coordinates: "deadly sv ref line \<Longrightarrow> coordinate_line line"
  by (auto simp: deadly_def coordinate_line_def Let_def split: command_type.splits)

lemma enter_fault:
  assumes "world_ok sv" and "valid_order (pf_order pf)" and "is_signed_number x" and "is_signed_number y"
    and "\<not> coords_ok (sv_world sv) (signed_value x) (signed_value y)"
  shows "breaks_only coordinate_fault (handle_enter pf fd generation [account, character, x, y] sv)"
  using assms enter_unsafe [of "sv_world sv" "pf_order pf"]
  by (auto simp: handle_enter_def stoi_signed world_ok_def coordinate_fault_def)

lemma move_fault:
  assumes "world_ok sv" and "is_signed_number x" and "is_signed_number y"
    and "\<not> (in_i32 (signed_value x) \<and> in_i32 (signed_value y)) \<or>
      players (sv_world sv) \<lparr>sr_fd = fd, sr_generation = generation\<rparr> \<noteq> None \<and>
      \<not> coords_ok (sv_world sv) (signed_value x) (signed_value y)"
  shows "breaks_only coordinate_fault (handle_move pf fd generation [x, y] sv)"
  using assms move_unsafe [of "sv_world sv"]
  by (auto simp: handle_move_def stoi_signed world_ok_def coordinate_fault_def)

lemma line_fault:
  assumes ok: "world_ok sv" and ord: "valid_order (pf_order pf)" and room: "roomy pf sv"
    and broke: "handle_client_line pf fd generation line sv = Inl f"
  shows "coordinate_fault f \<and> coordinate_line line"
proof -
  let ?ref = "\<lparr>sr_fd = fd, sr_generation = generation\<rparr>" and ?req = "parsed_request (parse_line line)"
  have dead: "deadly sv ?ref line" using line_returns_iff [OF ok ord room, of fd generation line] broke by simp
  then have parsed: "ok (parse_line line)" by (simp add: deadly_def)
  then have v: "valid_request ?req" by (rule ok_valid)
  from deadly_coordinates [OF dead] consider "req_type ?req = KEnterWorld" | "req_type ?req = KMove"
    by (auto simp: coordinate_line_def)
  then have "breaks_only coordinate_fault (handle_client_line pf fd generation line sv)"
  proof cases
    case 1
    with v obtain a c x y where args: "req_args ?req = [a, c, x, y]"
        and num: "is_signed_number x" "is_signed_number y"
      by (auto simp: valid_request_def elim!: args_allowed.elims)
    then show ?thesis
      using enter_fault [OF ok ord num, of fd generation a c] dead parsed 1
      by (simp add: handle_client_line_def deadly_def is_world_command_def Let_def)
  next
    case 2
    with v obtain x y where args: "req_args ?req = [x, y]"
        and num: "is_signed_number x" "is_signed_number y"
      by (auto simp: valid_request_def elim!: args_allowed.elims)
    then show ?thesis
      using move_fault [OF ok num, of fd generation pf] dead parsed 2
      by (simp add: handle_client_line_def deadly_def is_world_command_def Let_def)
  qed
  then show ?thesis using broke deadly_coordinates [OF dead] by simp
qed

lemma take_line_parts:
  assumes "take_line input = Some (line, rest)"
  shows "input = line @ CHR 0x0A # rest"
proof -
  let ?P = "\<lambda>c. c \<noteq> CHR 0x0A"
  obtain c where c: "dropWhile ?P input = c # rest" and line: "line = takeWhile ?P input"
    using assms by (auto simp: take_line_def split: list.splits)
  then have "\<not> ?P c" using hd_dropWhile [of ?P input] by simp
  with c line show ?thesis using takeWhile_dropWhile_id [of ?P input] by simp
qed

text \<open>A line that throws is one of the complete lines of the buffer.\<close>

lemma process_lines_fault:
  assumes "server_inv S (Some fd) sv" and "world_ok sv" and ord: "valid_order (pf_order pf)" and "roomy pf sv"
    and "sv_sessions sv fd = Some s" and "s_generation s = generation" and "suffix (s_input s) buffer"
    and "process_lines pf fd generation sv = Inl f"
  shows "coordinate_fault f \<and> (\<exists>line. coordinate_line line \<and> sublist (line @ [CHR 0x0A]) buffer)"
  using assms(1,2,4-8)
proof (induction "input_length fd sv" arbitrary: sv s rule: less_induct)
  case less
  note s = less.prems(4) and broke = less.prems(7)
  have fd: "s_fd s = fd" using server_inv_key [OF less.prems(1) s] .
  obtain l rest where l: "take_line (s_input s) = Some (l, rest)"
    using broke s by (cases "take_line (s_input s)") (auto simp: process_lines.simps [of pf fd generation sv])
  obtain pre where buffer: "buffer = pre @ l @ CHR 0x0A # rest"
    using less.prems(6) take_line_parts [OF l] by (auto simp: suffix_def)
  let ?sv0 = "update_session fd (s_input_update (\<lambda>_. rest)) sv"
  have inv0: "server_inv S (Some fd) ?sv0"
    using tells_inv [OF tells_input less.prems(1)] .
  have ok0: "world_ok ?sv0" using less.prems(2) by (rule world_ok_update) simp
  have room0: "roomy pf ?sv0" using less.prems(3) by simp
  have s0: "sv_sessions ?sv0 fd = Some (s\<lparr>s_input := rest\<rparr>)" using s by (simp add: update_session_def)
  have m0: "session_matches ?sv0 fd generation" using s0 less.prems(5) by (simp add: session_matches_def)
  have eq: "process_lines pf fd generation sv =
      bind_result (handle_client_line pf fd generation l ?sv0) (\<lambda>sv1.
        if \<not> session_matches sv1 fd generation \<or> is_closing sv1 fd then Inr sv1
        else process_lines pf fd generation sv1)"
    unfolding process_lines.simps [of pf fd generation sv] s option.case l prod.case fd less.prems(5) ..
  show ?case
  proof (cases "handle_client_line pf fd generation l ?sv0")
    case (Inl g)
    then have "f = g" using broke eq by simp
    moreover have "coordinate_fault g \<and> coordinate_line l" using line_fault [OF ok0 ord room0 Inl] .
    moreover have "sublist (l @ [CHR 0x0A]) buffer"
      unfolding sublist_def buffer by (intro exI [of _ pre] exI [of _ rest]) simp
    ultimately show ?thesis by blast
  next
    case (Inr sv1)
    have "steady ?sv0 sv1" using ensuresD [OF steady.client_line Inr] by simp
    then obtain s1 where s1: "sv_sessions sv1 fd = Some s1" "session_grows (s\<lparr>s_input := rest\<rparr>) s1"
      using s0 by (rule steady_session)
    have inv1: "server_inv S (Some fd) sv1"
      using ensuresD [OF keeps.client_line [OF m0] Inr] inv0 unfolding keeps_def by blast
    have ok1: "world_ok sv1" using ensuresD [OF joins_line [OF ok0 ord m0] Inr] by (simp add: joins_def)
    have room1: "roomy pf sv1" using roomy_rooms [OF room0 ensuresD [OF rooms.client_line Inr]] by simp
    have "input_length fd sv1 < input_length fd sv"
      using take_line_shrinks [OF l] s s1 by (simp add: input_length_def session_grows_def)
    moreover have "suffix (s_input s1) buffer"
      using s1(2) unfolding suffix_def buffer
      by (intro exI [of _ "pre @ l @ [CHR 0x0A]"]) (simp add: session_grows_def)
    moreover have "process_lines pf fd generation sv1 = Inl f"
      using broke eq Inr by (auto split: if_splits)
    ultimately show ?thesis
      using less.hyps [OF _ inv1 ok1 room1 s1(1)] s1(2) less.prems(5) by (simp add: session_grows_def)
  qed
qed

section \<open>Completions\<close>

lemma close_room:
  assumes "world_inv (sv_world sv)" and "valid_order (pf_order pf)" and "roomy pf sv"
  shows "returns (close_session pf fd sv) (\<lambda>_. True)"
proof (cases "sv_sessions sv fd")
  case None
  then show ?thesis by (simp add: close_session_def)
next
  case (Some s)
  have "returns (if sv_stopping sv then Inr sv else leave_and_save pf (s_fd s) (s_generation s) sv) (roomy pf)"
    using leave_and_save_room [OF assms] assms(3) by simp
  then show ?thesis unfolding close_session_def Some option.case by (rule returns_bind) simp
qed

lemma maybe_close_room:
  assumes "world_inv (sv_world sv)" and "valid_order (pf_order pf)" and "roomy pf sv"
  shows "returns (maybe_close_after_flush pf fd sv) (\<lambda>_. True)"
  using close_room [OF assms] by (simp add: maybe_close_after_flush_def split: option.split)

lemma push_room: "roomy pf sv \<Longrightarrow> returns (push_sqe pf token sv) (\<lambda>_. True)"
  by (rule returns_mono [OF push_sqe_room]) auto

lemma accept_room:
  assumes "roomy pf sv"
  shows "returns (on_accept pf result sv) (\<lambda>_. True)"
proof -
  have "returns (open_session pf result sv) (roomy pf)"
  proof -
    let ?s = "new_session\<lparr>s_fd := result, s_generation := sv_next_session_generation sv\<rparr>"
    have "roomy pf (add_session ?s (sv\<lparr>sv_next_session_generation := sv_next_session_generation sv + 1\<rparr>))"
      using roomy_cong [OF assms] by (simp add: add_session_def split: option.split)
    from respond_room [OF this] show ?thesis
      unfolding open_session_def Let_def post_recv_def
      by (rule returns_bind) (rule returns_mono [OF push_sqe_room], auto simp: room_kept_def)
  qed
  moreover have "roomy pf (sv\<lparr>sv_log := log\<rparr>)" for log using roomy_cong [OF assms] by simp
  ultimately show ?thesis
    using assms unfolding on_accept_def
    by (intro returns_bind [where P = "roomy pf"]) (auto simp: post_accept_def push_room)
qed

lemma send_room:
  assumes wi: "world_inv (sv_world sv)" and ord: "valid_order (pf_order pf)" and room: "roomy pf sv"
  shows "returns (on_send pf token result sv) (\<lambda>_. True)"
proof -
  have world: "sv_world (update_session fd f sv1) = sv_world sv1" for fd f sv1 by (simp add: update_session_def)
  have sent: "returns (post_send pf fd sv1) (\<lambda>sv2. roomy pf sv2 \<and> world_inv (sv_world sv2))"
    if "roomy pf sv1" "world_inv (sv_world sv1)" for fd sv1
  proof -
    note here = that
    obtain sv2 where p: "post_send pf fd sv1 = Inr sv2" and "roomy pf sv2"
      using post_send_room [OF here(1), of fd] by (auto simp: returns_iff)
    moreover from p have "sv_world sv2 = sv_world sv1" by (cases rule: post_send_cases) simp_all
    ultimately show ?thesis using here(2) by simp
  qed
  have rest: "returns (bind_result (post_send pf fd sv1) (maybe_close_after_flush pf fd)) (\<lambda>_. True)"
    if "roomy pf sv1" "world_inv (sv_world sv1)" for fd sv1
    by (rule returns_bind [OF sent [OF that]]) (elim conjE, rule maybe_close_room [OF _ ord])
  show ?thesis
    using rest close_room [OF _ ord] wi room by (simp add: on_send_def Let_def world)
qed

lemma database_event_room:
  assumes "roomy pf sv"
  shows "returns (on_database_event pf sv) (\<lambda>_. True)"
proof -
  have "roomy pf (sv\<lparr>sv_database := event_read (sv_database sv)\<rparr>)" using roomy_cong [OF assms] by simp
  from drain_exact [OF this] show ?thesis
    unfolding on_database_event_def post_eventfd_poll_def by (rule returns_bind) (simp add: push_room)
qed

lemma recv_fault:
  assumes inv: "server_inv {} None sv" and ok: "world_ok sv" and ord: "valid_order (pf_order pf)"
    and room: "roomy pf sv" and tok: "token \<in> set (ring_inflight (sv_ring sv))" and type: "t_type token = KRecv"
    and broke: "on_recv pf token result data (take_token token sv) = Inl f"
  shows "coordinate_fault f \<and> (\<exists>s line. sv_sessions sv (t_fd token) = Some s \<and> coordinate_line line \<and>
      sublist (line @ [CHR 0x0A]) (s_input s @ data)) \<and>
    0 < result \<and> session_matches sv (t_fd token) (t_generation token) \<and>
    process_lines pf (t_fd token) (t_generation token) (update_session (t_fd token)
      (s_input_update (\<lambda>input. input @ data)) (take_token token sv)) = Inl f"
proof -
  let ?fd = "t_fd token" and ?g = "t_generation token" and ?sv0 = "take_token token sv"
  have ok0: "world_ok ?sv0" using ok by (rule world_ok_cong) simp_all
  have room0: "roomy pf ?sv0" using room by (simp add: roomy_def take_token_def)
  have "returns (close_session pf ?fd ?sv0) (\<lambda>_. True)"
    using ok0 by (intro close_room [OF _ ord room0]) (simp add: world_ok_def)
  then have m: "session_matches sv ?fd ?g" and pos: "0 < result"
    using broke by (auto simp: on_recv_def Let_def not_less split: if_splits)
  then obtain s where s: "sv_sessions sv ?fd = Some s" "s_generation s = ?g" by (auto elim: matches_session)
  let ?sv1 = "update_session ?fd (s_input_update (\<lambda>input. input @ data)) ?sv0"
  have "server_inv {} (Some ?fd) ?sv0" using take_recv [OF inv tok type m] .
  then have inv1: "server_inv {} (Some ?fd) ?sv1" by (rule tells_inv [OF tells_input])
  have ok1: "world_ok ?sv1" using ok0 by (rule world_ok_update) simp
  have room1: "roomy pf ?sv1" using room0 by simp
  have m1: "session_matches ?sv1 ?fd ?g" using m by (simp add: matches_update)
  have s1: "sv_sessions ?sv1 ?fd = Some (s\<lparr>s_input := s_input s @ data\<rparr>)"
    using s by (simp add: update_session_def)
  have eq: "on_recv pf token result data ?sv0 =
      bind_result (process_lines pf ?fd ?g ?sv1) (\<lambda>sv2.
        if \<not> session_matches sv2 ?fd ?g then Inr sv2
        else bind_result (if too_long sv2 ?fd
          then farewell pf ?fd ?g ''ERR line too long'' sv2 else Inr sv2) (\<lambda>sv3.
          if \<not> is_closing sv3 ?fd then post_recv pf ?fd ?g sv3
          else maybe_close_after_flush pf ?fd sv3))"
    using m pos by (simp add: on_recv_def Let_def)
  show ?thesis
  proof (cases "process_lines pf ?fd ?g ?sv1")
    case (Inl g)
    then have "f = g" using broke eq by simp
    with process_lines_fault [OF inv1 ok1 ord room1 s1 _ _ Inl, of "s_input s @ data"] s m pos Inl show ?thesis by simp
  next
    case (Inr sv2)
    have ok2: "world_ok sv2" using ensuresD [OF process_lines_world [OF inv1 ok1 ord m1] Inr] .
    have "rooms ?sv1 sv2"
      using ensuresD [OF rooms_process_lines Inr] .
    then have room2: "roomy pf sv2" using room1 roomy_rooms by blast
    have last: "returns (if \<not> is_closing sv3 ?fd then post_recv pf ?fd ?g sv3
        else maybe_close_after_flush pf ?fd sv3) (\<lambda>_. True)" if "roomy pf sv3" "world_ok sv3" for sv3
      using that push_room maybe_close_room [OF _ ord] by (simp add: post_recv_def world_ok_def)
    have "returns (if too_long sv2 ?fd then farewell pf ?fd ?g ''ERR line too long'' sv2 else Inr sv2)
        (\<lambda>sv3. roomy pf sv3 \<and> world_ok sv3)"
      using farewell_room [OF room2, of ?fd ?g "''ERR line too long''"] ok2 room2
        ensuresD [OF joins_farewell [OF ok2]]
      by (auto simp: returns_iff joins_def)
    then have "returns (bind_result (if too_long sv2 ?fd
          then farewell pf ?fd ?g ''ERR line too long'' sv2 else Inr sv2) (\<lambda>sv3.
          if \<not> is_closing sv3 ?fd then post_recv pf ?fd ?g sv3
          else maybe_close_after_flush pf ?fd sv3)) (\<lambda>_. True)"
      by (rule returns_bind) (elim conjE, rule last)
    then show ?thesis using broke eq Inr by (auto simp: returns_iff split: if_splits)
  qed
qed

end
