(* ===== verification/Program_Properties.thy ===== *)
theory Program_Properties
  imports System_Refinement Database_Demo Server_Faults Command_Properties
begin

text \<open>
  Properties of the whole program: the composition of the event loop with the worker pool, and what can end it.
\<close>



text \<open>
  C24. Nothing else ends the event loop. In every reachable state, with a kernel that takes what is submitted, a
  completion of any kind and with any result can make the loop throw only if it is a receive whose data completes an
  accepted ENTER or MOVE line in the input buffer of its session, and then the fault is the conversion or the
  arithmetic of its coordinates. Accepts, sends, database events, hang-ups, and every other line are always handled.
\<close>
theorem only_coordinates_end_the_loop:
  assumes "reachable my pf config db0 (sv, db)" and "valid_order (pf_order pf)" and "roomy pf sv"
    and "token \<in> set (ring_inflight (sv_ring sv))"
    and "dispatch pf token result data (take_token token sv) = Inl f"
  shows "coordinate_fault f \<and> t_type token = KRecv \<and>
    (\<exists>s line. sv_sessions sv (t_fd token) = Some s \<and> coordinate_line line \<and>
      sublist (line @ [CHR 0x0A]) (s_input s @ data))"
proof -
  have ok: "server_inv {} None sv" "world_ok sv"
    using reachable_ok [OF assms(1,2)] by (simp_all add: system_ok_def server_ok_def loop_inv_def)
  have room: "roomy pf (take_token token sv)" using assms(3) by (simp add: roomy_def take_token_def)
  have world: "world_inv (sv_world (take_token token sv))" using ok(2) by (simp add: world_ok_def)
  show ?thesis
  proof (cases "t_type token")
    case KRecv
    with assms(5) have "on_recv pf token result data (take_token token sv) = Inl f" by (simp add: dispatch_def)
    from recv_fault [OF ok assms(2,3,4) KRecv this] KRecv show ?thesis by simp
  qed (use assms(5) accept_room [OF room, of result] send_room [OF world assms(2) room, of token result]
      database_event_room [OF room] in \<open>auto simp: dispatch_def returns_iff\<close>)
qed

lemma only_coordinates_end_the_loop_witness:
  "\<exists>f. dispatch demo_platform demo_recv 19 (''MOVE 99999999999 0'' @ [CHR 0x0A])
      (take_token demo_recv (demo_idle [] demo_rest)) = Inl f \<and> coordinate_fault f"
proof -
  let ?data = "''MOVE 99999999999 0'' @ [CHR 0x0A]" and ?sv = "demo_idle [] demo_rest"
  have room: "roomy demo_platform ?sv"
    by (simp add: roomy_def demo_idle_def demo_connected_def demo_server_def)
  have flight: "demo_recv \<in> set (ring_inflight (sv_ring ?sv))"
    by (simp add: demo_idle_def demo_connected_def demo_server_def demo_rest_def)
  have here: "sv_sessions ?sv 5 = Some (demo_session\<lparr>s_outbox := [], s_write_in_flight := False\<rparr>)"
    by (simp add: demo_idle_def)
  have broke: "dispatch demo_platform demo_recv 19 ?data (take_token demo_recv ?sv) = Inl (Exn (Out_Of_Range ''stoi''))"
    by (rule crash_dispatch [OF here]) (simp_all add: demo_session_def demo_recv_def)
  from only_coordinates_end_the_loop [OF demo_reaches(3) [unfolded demo_reached_def] demo_platform_ok(2) room flight this]
  show ?thesis using broke by blast
qed

end
