(* ===== verification/Startup.thy ===== *)
theory Startup
  imports System
begin

text \<open>
  The start of the program before the first wait of the event loop: \<open>main\<close> (src/main.cpp), the constructor of
  \<open>DbDispatcher\<close>, \<open>MysqlLibrary\<close>, and the socket setup at the start of \<open>IoUringGameServer::run\<close> (src/server.cpp). The
  answers of the operating system are a parameter: a record of results, each with the value of errno that
  goes with a failure. An exception keeps the state it leaves, since the destructors run on it.

  The output streams, the SIGPIPE handler, and \<open>set_tcp_nodelay\<close>, whose result is ignored, have no effect on the
  state of the model.
\<close>

record kernel =
  kn_library_init :: int
  kn_eventfd :: "int \<times> int"
  kn_socket :: "int \<times> int"
  kn_reuseaddr :: "int \<times> int"
  kn_getfl :: "int \<times> int"
  kn_setfl :: "int \<Rightarrow> int \<times> int"
  kn_bind :: "16 word \<Rightarrow> int \<times> int"
  kn_listen :: "int \<Rightarrow> int \<times> int"
  kn_ring_init :: "32 word \<Rightarrow> int"
  kn_ring_entries :: nat

type_synonym 'a server_op = "(server, 'a) db_op"

section \<open>Socket setup\<close>

text \<open>A system call whose failure throws \<open>context: strerror(errno)\<close>.\<close>

definition sys_error :: "platform \<Rightarrow> string \<Rightarrow> int \<Rightarrow> exn" where
  "sys_error pf context errno = Runtime_Error (context @ '': '' @ pf_strerror pf errno)"

definition sys_call :: "platform \<Rightarrow> string \<Rightarrow> int \<times> int \<Rightarrow> int server_op" where
  "sys_call pf context answer =
     (if fst answer < 0 then db_result (Inl (sys_error pf context (snd answer))) else db_return (fst answer))"

definition O_NONBLOCK :: int where "O_NONBLOCK = 2048"

definition set_nonblocking :: "platform \<Rightarrow> kernel \<Rightarrow> unit server_op" where
  "set_nonblocking pf kn =
     db_bind (sys_call pf ''fcntl(F_GETFL) failed'' (kn_getfl kn)) (\<lambda>flags.
     db_bind (sys_call pf ''fcntl(F_SETFL) failed'' (kn_setfl kn (or flags O_NONBLOCK))) (\<lambda>_.
     db_return ()))"

definition set_reuseaddr :: "platform \<Rightarrow> kernel \<Rightarrow> unit server_op" where
  "set_reuseaddr pf kn =
     db_bind (sys_call pf ''setsockopt(SO_REUSEADDR) failed'' (kn_reuseaddr kn)) (\<lambda>_. db_return ())"

text \<open>The two calls after which the code closes the socket before it throws.\<close>

definition or_close :: "platform \<Rightarrow> string \<Rightarrow> int \<times> int \<Rightarrow> unit server_op" where
  "or_close pf context answer sv =
     (if fst answer < 0 then (Inl (sys_error pf context (snd answer)), close_listen_socket sv) else (Inr (), sv))"

definition setup_listen_socket :: "platform \<Rightarrow> kernel \<Rightarrow> unit server_op" where
  "setup_listen_socket pf kn sv =
     (let sv1 = sv\<lparr>sv_listen_fd := fst (kn_socket kn)\<rparr>; config = sv_config sv in
      if sv_listen_fd sv1 < 0 then (Inl (sys_error pf ''socket failed'' (snd (kn_socket kn))), sv1)
      else db_bind (set_reuseaddr pf kn) (\<lambda>_.
           db_bind (set_nonblocking pf kn) (\<lambda>_.
           db_bind (or_close pf ''bind failed'' (kn_bind kn (cfg_port config))) (\<lambda>_.
           or_close pf ''listen failed'' (kn_listen kn (cfg_backlog config))))) sv1)"

text \<open>\<open>run\<close> up to its loop; its first entries fit the ring, or the exception leaves the server as it was.\<close>

definition run_setup :: "platform \<Rightarrow> kernel \<Rightarrow> (fault + server) server_op" where
  "run_setup pf kn =
     db_bind (setup_listen_socket pf kn) (\<lambda>_ sv.
       let init_result = kn_ring_init kn (cfg_ring_entries (sv_config sv)) in
       if init_result < 0
       then (Inl (sys_error pf ''io_uring_queue_init failed'' (- init_result)), sv)
       else (Inr (run_begin pf (sv_listen_fd sv) (kn_ring_entries kn) sv), sv))"

section \<open>main\<close>

text \<open>
  What \<open>main\<close> comes to before its loop: the loop runs, or the program has ended with the message it prints after
  \<open>fatal:\<close> and exit status 1; the descriptors closed by the destructors are listed in order.
\<close>

datatype start_result = Running server | Fatal string "int list"

definition destroy :: "platform \<Rightarrow> int \<Rightarrow> server \<Rightarrow> int list" where
  "destroy pf event_fd sv = (case server_stop pf [] sv of
       Inr sv' \<Rightarrow> sv_closed sv' @ (if 0 \<le> event_fd then [event_fd] else [])
     | Inl _ \<Rightarrow> [])"

fun fault_message :: "fault \<Rightarrow> string" where
  "fault_message (Exn e) = what e"
| "fault_message Signed_Overflow = ''''"

definition start_server :: "platform \<Rightarrow> kernel \<Rightarrow> int \<Rightarrow> server \<Rightarrow> start_result" where
  "start_server pf kn event_fd sv = (case run_setup pf kn sv of
       (Inl e, sv') \<Rightarrow> Fatal (what e) (destroy pf event_fd sv')
     | (Inr (Inl f), sv') \<Rightarrow> Fatal (fault_message f) (destroy pf event_fd sv')
     | (Inr (Inr sv''), _) \<Rightarrow> Running sv'')"

definition mysql_library_new :: "kernel \<Rightarrow> exn + unit" where
  "mysql_library_new kn =
     (if kn_library_init kn \<noteq> 0 then Inl (Runtime_Error ''mysql_library_init failed'') else Inr ())"

definition eventfd_new :: "platform \<Rightarrow> kernel \<Rightarrow> exn + int" where
  "eventfd_new pf kn = (let (fd, errno) = kn_eventfd kn in
     if fd < 0 then Inl (sys_error pf ''eventfd failed'' errno) else Inr fd)"

definition main_start :: "platform \<Rightarrow> kernel \<Rightarrow> environment \<Rightarrow> start_result" where
  "main_start pf kn env = (case mysql_library_new kn of
       Inl e \<Rightarrow> Fatal (what e) []
     | Inr _ \<Rightarrow> (case load_config_from_env env of
         Inl e \<Rightarrow> Fatal (what e) []
       | Inr config \<Rightarrow> (case eventfd_new pf kn of
           Inl e \<Rightarrow> Fatal (what e) []
         | Inr event_fd \<Rightarrow> (case make_sector_world 100 1 of
             Inl e \<Rightarrow> Fatal (what e) [event_fd]
           | Inr world \<Rightarrow> start_server pf kn event_fd (server_new (app_server config)
               (dispatcher_start (dispatcher_new (app_database config))) world)))))"

lemmas main_start_simps = main_start_def mysql_library_new_def eventfd_new_def

section \<open>Lemmas\<close>

text \<open>The outcomes of the setup: the socket is listening, was closed, or is left to the destructor.\<close>

lemma sys_call_cases:
  "sys_call pf context answer sv = (if fst answer < 0
     then (Inl (sys_error pf context (snd answer)), sv) else (Inr (fst answer), sv))"
  by (simp add: sys_call_def db_result_def db_return_def)

lemma setup_cases:
  assumes "setup_listen_socket pf kn sv = (r, sv')"
  obtains (listening) "r = Inr ()" and "sv' = sv\<lparr>sv_listen_fd := fst (kn_socket kn)\<rparr>" and "0 \<le> fst (kn_socket kn)"
      and "0 \<le> fst (kn_getfl kn)" and "0 \<le> fst (kn_setfl kn (or (fst (kn_getfl kn)) O_NONBLOCK))"
      and "0 \<le> fst (kn_bind kn (cfg_port (sv_config sv)))" and "0 \<le> fst (kn_listen kn (cfg_backlog (sv_config sv)))"
  | (failed) e where "r = Inl e" and "sv' = sv\<lparr>sv_listen_fd := fst (kn_socket kn)\<rparr>"
  | (closed) e where "r = Inl e" and "0 \<le> fst (kn_socket kn)"
      and "sv' = close_listen_socket (sv\<lparr>sv_listen_fd := fst (kn_socket kn)\<rparr>)"
  using assms
  by (auto simp: setup_listen_socket_def set_reuseaddr_def set_nonblocking_def db_bind_def sys_call_cases
      db_return_def or_close_def Let_def not_less split: if_splits)

lemma destroy_closes:
  "destroy pf event_fd sv = sv_closed sv @ (if 0 \<le> sv_listen_fd sv then [sv_listen_fd sv] else []) @
     (if 0 \<le> event_fd then [event_fd] else [])"
  by (simp add: destroy_def server_stop_def close_listen_socket_def)

lemma destroy_closed:
  "0 \<le> sv_listen_fd sv \<Longrightarrow> destroy pf event_fd (close_listen_socket sv) = destroy pf event_fd sv"
  by (simp add: destroy_closes close_listen_socket_def)

section \<open>The start as a whole\<close>

text \<open>The descriptors the program has opened by the end of its start, in the order the destructors close them.\<close>

definition opened :: "kernel \<Rightarrow> environment \<Rightarrow> int list" where
  "opened kn env =
     (if kn_library_init kn \<noteq> 0 \<or> isl (load_config_from_env env) \<or> fst (kn_eventfd kn) < 0 then []
      else (if fst (kn_socket kn) < 0 then [] else [fst (kn_socket kn)]) @ [fst (kn_eventfd kn)])"

text \<open>Every call the start depends on succeeds, and the socket is bound to the configured port.\<close>

definition calls_succeed :: "kernel \<Rightarrow> app_config \<Rightarrow> bool" where
  "calls_succeed kn config \<longleftrightarrow> kn_library_init kn = 0 \<and> 0 \<le> fst (kn_eventfd kn) \<and> 0 \<le> fst (kn_socket kn) \<and>
     0 \<le> fst (kn_reuseaddr kn) \<and> 0 \<le> fst (kn_getfl kn) \<and>
     0 \<le> fst (kn_setfl kn (or (fst (kn_getfl kn)) O_NONBLOCK)) \<and>
     0 \<le> fst (kn_bind kn (cfg_port (app_server config))) \<and>
     0 \<le> fst (kn_listen kn (cfg_backlog (app_server config))) \<and>
     0 \<le> kn_ring_init kn (cfg_ring_entries (app_server config))"

lemma run_begin_returns:
  "2 \<le> entries \<Longrightarrow> \<exists>sv'. run_begin pf listen_fd entries sv = Inr sv'"
  by (simp add: run_begin_def post_accept_def post_eventfd_poll_def push_sqe_def get_sqe_def)

definition boot_server :: "app_config \<Rightarrow> sector_world \<Rightarrow> server" where
  "boot_server config world = server_new (app_server config)
     (dispatcher_start (dispatcher_new (app_database config))) world"

lemma boot_server_sel [simp]:
  "sv_config (boot_server config world) = app_server config" "sv_closed (boot_server config world) = []"
  by (simp_all add: boot_server_def server_new_def)

lemma setup_succeeds:
  assumes "calls_succeed kn config" and "sv_config sv = app_server config"
  shows "setup_listen_socket pf kn sv = (Inr (), sv\<lparr>sv_listen_fd := fst (kn_socket kn)\<rparr>)"
  using assms by (simp add: calls_succeed_def setup_listen_socket_def set_reuseaddr_def set_nonblocking_def
      db_bind_def sys_call_cases db_return_def or_close_def Let_def)

text \<open>When a call of the server fails, the destructors close what was opened.\<close>

lemma start_server_fails:
  assumes "\<not> calls_succeed kn config" and "kn_library_init kn = 0" and "0 \<le> event_fd"
    and "event_fd = fst (kn_eventfd kn)"
  shows "\<exists>message. start_server pf kn event_fd (boot_server config world) = Fatal message
    ((if fst (kn_socket kn) < 0 then [] else [fst (kn_socket kn)]) @ [event_fd])"
proof -
  let ?sv = "boot_server config world" and ?fd = "fst (kn_socket kn)"
  obtain r sv1 where ran: "setup_listen_socket pf kn ?sv = (r, sv1)"
    by (cases "setup_listen_socket pf kn ?sv")
  have freed: "destroy pf event_fd (?sv\<lparr>sv_listen_fd := ?fd\<rparr>) =
      (if ?fd < 0 then [] else [?fd]) @ [event_fd]"
    using assms(3) by (simp add: destroy_closes)
  from ran show ?thesis
  proof (cases rule: setup_cases)
    case listening
    have "kn_ring_init kn (cfg_ring_entries (app_server config)) < 0 \<or> fst (kn_reuseaddr kn) < 0"
      using assms listening by (auto simp: calls_succeed_def)
    moreover have "\<not> fst (kn_reuseaddr kn) < 0"
      using ran listening(1,3)
      by (auto simp: setup_listen_socket_def set_reuseaddr_def db_bind_def sys_call_cases Let_def split: if_splits)
    ultimately show ?thesis
      using listening(1,2) ran freed by (simp add: start_server_def run_setup_def db_bind_def Let_def)
  next
    case (failed e)
    then show ?thesis using ran freed by (simp add: start_server_def run_setup_def db_bind_def)
  next
    case (closed e)
    then have "destroy pf event_fd sv1 = (if ?fd < 0 then [] else [?fd]) @ [event_fd]"
      using freed destroy_closed [of "?sv\<lparr>sv_listen_fd := ?fd\<rparr>"] by simp
    then show ?thesis using closed(1) ran by (simp add: start_server_def run_setup_def db_bind_def)
  qed
qed

text \<open>
  C25. The start is all or nothing. For any answers of the operating system, either every call succeeds and the
  server runs its loop on a listening, non-blocking socket bound to the configured port, in a starting state of the
  reachability of the whole program; or some call fails or the configuration is rejected, \<open>main\<close> ends with a
  message, and the destructors have closed exactly the descriptors that were opened, each once, also after
  the failures for which the code closes the socket itself.
\<close>
theorem start_is_all_or_nothing:
  assumes "2 \<le> kn_ring_entries kn"
  shows "case main_start pf kn env of
      Running sv \<Rightarrow> \<exists>config. load_config_from_env env = Inr config \<and> calls_succeed kn config \<and>
        program_start pf config (fst (kn_socket kn)) (kn_ring_entries kn) = Inr sv
    | Fatal message closed \<Rightarrow> closed = opened kn env \<and>
        (\<forall>config. load_config_from_env env = Inr config \<longrightarrow> \<not> calls_succeed kn config)"
proof (cases "load_config_from_env env")
  case (Inl e)
  then show ?thesis by (simp add: main_start_simps opened_def)
next
  case (Inr config)
  obtain world where world: "make_sector_world 100 1 = Inr world" by (simp add: make_sector_world_def)
  obtain event_fd errno where efd: "kn_eventfd kn = (event_fd, errno)" by (cases "kn_eventfd kn")
  show ?thesis
  proof (cases "kn_library_init kn \<noteq> 0 \<or> event_fd < 0")
    case True
    then show ?thesis using Inr efd by (auto simp: main_start_simps opened_def calls_succeed_def)
  next
    case False
    then have main: "main_start pf kn env = start_server pf kn event_fd (boot_server config world)"
      using Inr efd world by (simp add: main_start_simps boot_server_def)
    show ?thesis
    proof (cases "calls_succeed kn config")
      case True
      obtain sv where sv: "run_begin pf (fst (kn_socket kn)) (kn_ring_entries kn) (boot_server config world) = Inr sv"
        using run_begin_returns [OF assms] by blast
      moreover have "run_begin pf (fst (kn_socket kn)) (kn_ring_entries kn)
          ((boot_server config world)\<lparr>sv_listen_fd := fst (kn_socket kn)\<rparr>) = Inr sv"
        using sv by (simp add: run_begin_def)
      ultimately have "main_start pf kn env = Running sv"
        using True main setup_succeeds [OF True, of "boot_server config world" pf]
        by (simp add: start_server_def run_setup_def db_bind_def Let_def calls_succeed_def)
      moreover have "program_start pf config (fst (kn_socket kn)) (kn_ring_entries kn) = Inr sv"
        using sv world by (simp add: program_start_def boot_server_def)
      ultimately show ?thesis using Inr True by simp
    next
      case no: False
      have "kn_library_init kn = 0" "0 \<le> event_fd" using False by auto
      with start_server_fails [OF no this, of pf world] efd main obtain message where
        "main_start pf kn env = Fatal message ((if fst (kn_socket kn) < 0 then [] else [fst (kn_socket kn)]) @ [event_fd])"
        by auto
      then show ?thesis using no Inr efd False by (simp add: opened_def)
    qed
  qed
qed

definition busy_kernel :: kernel where
  "busy_kernel = \<lparr>kn_library_init = 0, kn_eventfd = (4, 0), kn_socket = (3, 0), kn_reuseaddr = (0, 0),
     kn_getfl = (2, 0), kn_setfl = (\<lambda>_. (0, 0)), kn_bind = (\<lambda>port. if port = 9090 then (-1, 98) else (0, 0)),
     kn_listen = (\<lambda>_. (0, 0)), kn_ring_init = (\<lambda>_. 0), kn_ring_entries = 512\<rparr>"

definition quiet_platform :: platform where
  "quiet_platform = \<lparr>pf_submit = \<lambda>r. int (length (ring_sq r)), pf_strerror = \<lambda>_. ''Address already in use'',
     pf_order = sorted_order\<rparr>"

lemma start_is_all_or_nothing_witness:
  "main_start quiet_platform busy_kernel (\<lambda>_. None) = Fatal ''bind failed: Address already in use'' [3, 4] \<and>
   [3, 4] = opened busy_kernel (\<lambda>_. None)"
proof -
  have "load_config_from_env (\<lambda>_. None) = Inr \<lparr>app_server = default_server_config, app_database = default_database_config\<rparr>"
    by (simp add: load_config_from_env_def env_uint_unset env_string_unset Let_def
        default_server_config_def default_database_config_def)
  then have run: "main_start quiet_platform busy_kernel (\<lambda>_. None) = Fatal ''bind failed: Address already in use'' [3, 4]"
    by (simp add: main_start_simps busy_kernel_def quiet_platform_def make_sector_world_def start_server_def run_setup_def
        setup_listen_socket_def set_reuseaddr_def set_nonblocking_def db_bind_def sys_call_cases db_return_def
        or_close_def server_new_def default_server_config_def close_listen_socket_def destroy_closes sys_error_def)
  have "2 \<le> kn_ring_entries busy_kernel" by (simp add: busy_kernel_def)
  from start_is_all_or_nothing [OF this, where pf = quiet_platform and env = "\<lambda>_. None"] run show ?thesis by simp
qed

end
