(* ===== verification/Shutdown.thy ===== *)
theory Shutdown
  imports Dispatcher_Properties
begin

text \<open>
  The end of the worker pool: the destructor of \<open>DbDispatcher\<close> calls \<open>stop\<close>, which closes the job queue and joins
  the workers. What holds of the pool when it is stopped in any of its reachable states.
\<close>

lemma stop_begin_close: "dd_started d \<Longrightarrow> stop_begin d = d\<lparr>dd_jobs := bq_close (dd_jobs d)\<rparr>"
  by (simp add: stop_begin_def)

lemma stop_begin_same [simp]:
  "outstanding (stop_begin d) = outstanding d" "work_left (stop_begin d) = work_left d"
  "dd_workers (stop_begin d) = dd_workers d" "dd_started (stop_begin d) = dd_started d"
  by (simp_all add: stop_begin_def bq_close_def outstanding_def work_left_def)

lemma stop_begin_inv: "workers_inv d \<Longrightarrow> workers_inv (stop_begin d)"
  by (auto simp: stop_begin_def bq_close_def workers_inv_def)

lemma worker_step_kept:
  assumes "worker_step my (d, db) (d', db')"
  shows "dd_started d' = dd_started d" and "bq_closed (dd_jobs d') = bq_closed (dd_jobs d)"
proof -
  have "dd_started d' = dd_started d \<and> bq_closed (dd_jobs d') = bq_closed (dd_jobs d)"
    using assms
  proof (cases rule: worker_step_cases)
    case (pop i)
    from pop(1) show ?thesis by (cases rule: worker_pop_cases) auto
  next
    case (finish i)
    from finish(1) show ?thesis by (cases rule: worker_finish_cases) (auto simp: push_completion_def)
  qed
  then show "dd_started d' = dd_started d" "bq_closed (dd_jobs d') = bq_closed (dd_jobs d)" by auto
qed

lemma worker_steps_kept:
  "(worker_step my)\<^sup>*\<^sup>* s s' \<Longrightarrow>
     dd_started (fst s') = dd_started (fst s) \<and> bq_closed (dd_jobs (fst s')) = bq_closed (dd_jobs (fst s))"
  by (induction rule: rtranclp_induct) (auto dest: worker_step_kept)

lemma worker_steps_work_left:
  "((worker_step my) ^^ n) s s' \<Longrightarrow> n + work_left (fst s') \<le> work_left (fst s)"
proof (induction n arbitrary: s')
  case (Suc n)
  then obtain t where "((worker_step my) ^^ n) s t" "worker_step my t s'" by auto
  with Suc.IH worker_step_work_left [of my "fst t" "snd t" "fst s'" "snd s'"] show ?case by fastforce
qed simp

lemma pool_started:
  "(pool_step my)\<^sup>*\<^sup>* (pool_init config db0) s \<Longrightarrow> dd_started (fst (snd s))"
proof (induction rule: rtranclp_induct)
  case base
  show ?case by (simp add: pool_init_def dispatcher_start_def dispatcher_new_def)
next
  case (step s t)
  from step(2,3) show ?case
    by (cases rule: pool_step.cases)
      (auto simp: submit_def event_read_def pop_completion_def worker_step_kept split: list.splits)
qed

text \<open>With the queue closed, the workers can always move until all their loops have ended.\<close>

lemma stuck_closed_joined:
  assumes stuck: "\<And>s. \<not> worker_step my (d, db) s" and inv: "workers_inv d" and "dd_workers d \<noteq> []"
    and closed: "bq_closed (dd_jobs d)"
  shows "workers_joined d"
proof (rule ccontr)
  assume "\<not> workers_joined d"
  then obtain i where i: "i < length (dd_workers d)" "\<not> wk_done (dd_workers d ! i)"
    by (auto simp: workers_joined_def list_all_length)
  have idle: "bq_queue (dd_jobs d) = []" "running_keys (dd_workers d) = []"
    using stuck_pool_idle [OF stuck inv assms(3)] by auto
  have "wk_job (dd_workers d ! i) = None"
  proof (rule ccontr)
    assume "wk_job (dd_workers d ! i) \<noteq> None"
    then obtain j where "wk_job (dd_workers d ! i) = Some j" by auto
    moreover have "dd_workers d ! i \<in> set (dd_workers d)" using i(1) by simp
    ultimately show False using idle(2) by (force simp: running_keys_def)
  qed
  then have "worker_pop i d \<noteq> None" using i idle(1) closed by (simp add: worker_pop_def bq_pop_def)
  then show False using stuck worker_step.pop by fastforce
qed

lemma joined_drained:
  assumes "workers_joined d" and "workers_inv d" and "dd_workers d \<noteq> []"
  shows "bq_queue (dd_jobs d) = []" and "running_keys (dd_workers d) = []"
proof -
  have all: "wk_job w = None \<and> bq_queue (dd_jobs d) = []" if "w \<in> set (dd_workers d)" for w
    using assms(1,2) that by (auto simp: workers_joined_def workers_inv_def list_all_iff)
  show "bq_queue (dd_jobs d) = []" using all assms(3) by (cases "dd_workers d") auto
  show "running_keys (dd_workers d) = []" using all by (auto simp: running_keys_def)
qed

text \<open>
  Stopping the pool ends, and loses no job. When \<open>stop\<close> closes the queue in any reachable state of the pool, the
  workers make at most \<open>work_left\<close> further steps; when none can move, all their loops have ended and \<open>stop\<close>
  returns; and whenever \<open>stop\<close> can return, every request that was ever submitted has been executed and its
  completion has been delivered or is in the queue.
\<close>
lemma stop_runs_every_job:
  assumes "(pool_step my)\<^sup>*\<^sup>* (pool_init config db0) (reading, d, db, subs, dels)"
    and "db_pool_size config \<noteq> 0"
  shows "(\<forall>n s. ((worker_step my) ^^ n) (stop_begin d, db) s \<longrightarrow> n \<le> work_left d) \<and>
    (\<forall>d' db'. (worker_step my)\<^sup>*\<^sup>* (stop_begin d, db) (d', db') \<longrightarrow>
      ((\<forall>s. \<not> worker_step my (d', db') s) \<longrightarrow> stop_end d' = Some (d'\<lparr>dd_started := False\<rparr>)) \<and>
      (stop_end d' \<noteq> None \<longrightarrow> bq_queue (dd_jobs d') = [] \<and>
        mset subs = mset dels + mset (map completion_key (dd_completions d'))))"
proof (intro conjI allI impI)
  show "n \<le> work_left d" if "((worker_step my) ^^ n) (stop_begin d, db) s" for n s
    using worker_steps_work_left [OF that] by simp
next
  fix d' db'
  assume run: "(worker_step my)\<^sup>*\<^sup>* (stop_begin d, db) (d', db')"
  have inv: "pool_inv (unat (db_pool_size config)) (reading, d, db, subs, dels)"
    by (rule pool_reachable_inv [OF assms(1)])
  then have start: "workers_inv d" "length (dd_workers d) = unat (db_pool_size config)"
    "mset subs = mset dels + outstanding d" by simp_all
  have started: "dd_started d" using pool_started [OF assms(1)] by simp
  have kept: "dd_started d'" "bq_closed (dd_jobs d')"
    using worker_steps_kept [OF run] started by (simp_all add: stop_begin_def bq_close_def)
  have inv': "workers_inv d'" using worker_steps_inv(2) [OF run] stop_begin_inv [OF start(1)] by simp
  have out: "outstanding d' = outstanding d" using worker_steps_inv(1) [OF run] by simp
  have "length (dd_workers d') = unat (db_pool_size config)" using worker_steps_inv(4) [OF run] start(2) by simp
  then have ne: "dd_workers d' \<noteq> []" using assms(2) by (auto simp: unat_eq_zero)
  have joined: "stop_end d' \<noteq> None \<longleftrightarrow> workers_joined d'" using kept(1) by (simp add: stop_end_def)
  {
    assume "\<forall>s. \<not> worker_step my (d', db') s"
    then have "workers_joined d'" by (intro stuck_closed_joined [OF _ inv' ne kept(2), of my db']) (rule spec)
    then show "stop_end d' = Some (d'\<lparr>dd_started := False\<rparr>)" using kept(1) by (simp add: stop_end_def)
  }
  assume "stop_end d' \<noteq> None"
  then have drained: "bq_queue (dd_jobs d') = []" "running_keys (dd_workers d') = []"
    using joined_drained [OF _ inv' ne] joined by auto
  show "bq_queue (dd_jobs d') = []" by (rule drained)
  show "mset subs = mset dels + mset (map completion_key (dd_completions d'))"
    using start(3) out drained by (simp add: outstanding_def)
qed

text \<open>From any state the workers reach one in which none can move.\<close>

lemma workers_come_to_rest:
  "\<exists>s'. (worker_step my)\<^sup>*\<^sup>* s s' \<and> (\<forall>t. \<not> worker_step my s' t)"
proof (induction "work_left (fst s)" arbitrary: s rule: less_induct)
  case less
  show ?case
  proof (cases "\<exists>t. worker_step my s t")
    case True
    then obtain t where t: "worker_step my s t" by blast
    then have "work_left (fst t) < work_left (fst s)"
      using worker_step_work_left [of my "fst s" "snd s" "fst t" "snd t"] by simp
    from less [OF this] t show ?thesis by (meson converse_rtranclp_into_rtranclp)
  next
    case False
    then show ?thesis by (intro exI [of _ s]) simp
  qed
qed

end
