(* ===== verification/Program_End.thy ===== *)
theory Program_End
  imports Startup Shutdown System_Refinement Server_Faults Command_Properties
begin

text \<open>
  The end of the program: the ways \<open>run\<close> (src/server.cpp) leaves its loop, with the state it leaves, the two
  destructors \<open>main\<close> runs on it, in the order of the source, and the exit status (src/main.cpp).

  The handlers of Event_Loop.thy do not keep the state of an exception. The one exception a kernel with room leaves
  is a coordinate that does not convert (Server_Faults.thy); it is thrown before the line has any effect, so
  \<open>line_throws\<close> gives its state exactly. Not modelled is the state after an \<open>io_uring_submit\<close> that fails in
  the middle of a handler.
\<close>

section \<open>The ends of the loop\<close>

definition EINTR :: int where "EINTR = 4"

text \<open>The test of the result of \<open>io_uring_submit_and_wait\<close>: a signal is ignored, any other error is thrown.\<close>

definition on_wait :: "platform \<Rightarrow> int \<Rightarrow> server \<Rightarrow> server_result" where
  "on_wait pf wait_result sv =
     (if wait_result < 0 \<and> wait_result \<noteq> - EINTR
      then Inl (Exn (sys_error pf ''io_uring_submit_and_wait failed'' (- wait_result)))
      else Inr sv)"

text \<open>
  The loop over the lines of a buffer, up to the line that throws: the earlier lines have been handled, and this one
  has left the buffer. A \<open>Runtime_Error\<close> is the failure of a submission, which comes later in the line.
\<close>

inductive line_throws :: "platform \<Rightarrow> int \<Rightarrow> 64 word \<Rightarrow> server \<Rightarrow> exn \<Rightarrow> server \<Rightarrow> bool" for pf fd generation where
  this_line: "sv_sessions sv fd = Some session \<Longrightarrow> take_line (s_input session) = Some (line, rest) \<Longrightarrow>
    handle_client_line pf (s_fd session) (s_generation session) line
      (update_session fd (s_input_update (\<lambda>_. rest)) sv) = Inl (Exn e) \<Longrightarrow> \<forall>m. e \<noteq> Runtime_Error m \<Longrightarrow>
    line_throws pf fd generation sv e (update_session fd (s_input_update (\<lambda>_. rest)) sv)"
| later_line: "sv_sessions sv fd = Some session \<Longrightarrow> take_line (s_input session) = Some (line, rest) \<Longrightarrow>
    handle_client_line pf (s_fd session) (s_generation session) line
      (update_session fd (s_input_update (\<lambda>_. rest)) sv) = Inr sv1 \<Longrightarrow>
    session_matches sv1 fd generation \<Longrightarrow> \<not> is_closing sv1 fd \<Longrightarrow>
    line_throws pf fd generation sv1 e sv2 \<Longrightarrow> line_throws pf fd generation sv e sv2"

text \<open>\<open>run\<close> returns when \<open>stopping_\<close> is set (\<open>None\<close>), or throws (\<open>Some e\<close>), and leaves a state.\<close>

inductive loop_ends :: "platform \<Rightarrow> server \<Rightarrow> exn option \<Rightarrow> server \<Rightarrow> bool" for pf sv where
  stopped: "sv_stopping sv \<Longrightarrow> loop_ends pf sv None sv"
| wait_failed: "\<not> sv_stopping sv \<Longrightarrow> on_wait pf wait_result sv = Inl (Exn e) \<Longrightarrow> loop_ends pf sv (Some e) sv"
| line_threw: "token \<in> set (ring_inflight (sv_ring sv)) \<Longrightarrow> t_type token = KRecv \<Longrightarrow>
    outcome_ok sv token result data \<Longrightarrow> 0 < result \<Longrightarrow> session_matches sv (t_fd token) (t_generation token) \<Longrightarrow>
    line_throws pf (t_fd token) (t_generation token)
      (update_session (t_fd token) (s_input_update (\<lambda>input. input @ data)) (take_token token sv)) e sv1 \<Longrightarrow>
    loop_ends pf sv (Some e) sv1"

inductive_cases loop_endsE: "loop_ends pf sv r sv1"

section \<open>The destructors and main\<close>

record program_exit =
  ex_status :: int
  ex_stderr :: string
  ex_closed :: "int list"
  ex_pool :: dispatcher

text \<open>The destructor of the dispatcher, once its \<open>stop\<close> has returned: close the eventfd.\<close>

definition close_event_fd :: "int \<Rightarrow> int list" where
  "close_event_fd event_fd = (if 0 \<le> event_fd then [event_fd] else [])"

definition exit_status :: "exn option \<Rightarrow> int \<times> string" where
  "exit_status r = (case r of None \<Rightarrow> (0, '''') | Some e \<Rightarrow> (1, ''fatal: '' @ what e))"

text \<open>
  The server is destroyed first (\<open>fds\<close> are its sessions in the order of the map), then the dispatcher, while the
  workers run on.
\<close>

inductive program_ends :: "'db mysql \<Rightarrow> platform \<Rightarrow> int \<Rightarrow> exn option \<Rightarrow> 'db system \<Rightarrow> program_exit \<Rightarrow> 'db \<Rightarrow> bool"
  for my pf event_fd r where
  "distinct fds \<Longrightarrow> set fds = dom (sv_sessions sv) \<Longrightarrow>
   server_stop pf fds sv = Inr sv' \<Longrightarrow> (worker_step my)\<^sup>*\<^sup>* (sv_database sv', db) (d, db1) \<Longrightarrow>
   (worker_step my)\<^sup>*\<^sup>* (stop_begin d, db1) (d', db') \<Longrightarrow> stop_end d' = Some pool \<Longrightarrow>
   program_ends my pf event_fd r (sv, db)
     \<lparr>ex_status = fst (exit_status r), ex_stderr = snd (exit_status r),
      ex_closed = sv_closed sv' @ close_event_fd event_fd, ex_pool = pool\<rparr> db'"

inductive_cases program_endsE: "program_ends my pf event_fd r (sv, db) x db'"

section \<open>Every end of the loop\<close>

text \<open>The two views of the loop over the lines agree.\<close>

lemma line_throws_process:
  "line_throws pf fd generation sv e sv2 \<Longrightarrow> process_lines pf fd generation sv = Inl (Exn e)"
proof (induction rule: line_throws.induct)
  case (this_line sv session line rest e)
  then show ?case by (simp add: process_lines.simps [of pf fd generation sv])
next
  case (later_line sv session line rest sv1 e sv2)
  then show ?case by (simp add: process_lines.simps [of pf fd generation sv])
qed

lemma process_line_throws:
  assumes "process_lines pf fd generation sv = Inl (Exn e)" and "\<forall>m. e \<noteq> Runtime_Error m"
  shows "\<exists>sv2. line_throws pf fd generation sv e sv2"
  using assms
proof (induction pf fd generation sv rule: process_lines.induct)
  case (1 pf fd generation sv)
  obtain session line rest where here: "sv_sessions sv fd = Some session"
      "take_line (s_input session) = Some (line, rest)"
    using "1.prems"(1) by (auto simp: process_lines.simps [of pf fd generation sv] split: option.splits)
  let ?sv0 = "update_session fd (s_input_update (\<lambda>_. rest)) sv"
  have eq: "bind_result (handle_client_line pf (s_fd session) (s_generation session) line ?sv0) (\<lambda>sv1.
      if \<not> session_matches sv1 fd generation \<or> is_closing sv1 fd then Inr sv1
      else process_lines pf fd generation sv1) = Inl (Exn e)"
    using "1.prems"(1) here by (simp add: process_lines.simps [of pf fd generation sv])
  show ?case
  proof (cases "handle_client_line pf (s_fd session) (s_generation session) line ?sv0")
    case (Inl f)
    then show ?thesis using eq line_throws.this_line [OF here _ "1.prems"(2)] by auto
  next
    case (Inr sv1)
    then have more: "session_matches sv1 fd generation" "\<not> is_closing sv1 fd"
        "process_lines pf fd generation sv1 = Inl (Exn e)"
      using eq by (auto split: if_splits)
    then obtain sv2 where "line_throws pf fd generation sv1 e sv2"
      using "1.IH" [OF here(1) here(2) refl Inr] "1.prems"(2) by auto
    then show ?thesis using line_throws.later_line [OF here Inr more(1,2)] by blast
  qed
qed

lemma line_throws_frame:
  assumes "line_throws pf fd generation sv e sv2"
    and trans: "\<And>sv sv1 sv2. R sv sv1 \<Longrightarrow> R sv1 sv2 \<Longrightarrow> R sv sv2"
    and input: "\<And>f sv. R sv (update_session fd (s_input_update f) sv)"
    and line: "\<And>fd g l sv. ensures (handle_client_line pf fd g l sv) (R sv)"
  shows "R sv sv2"
  using assms(1)
proof (induction rule: line_throws.induct)
  case (later_line sv session l rest sv1 e sv2)
  then show ?case using trans [OF trans [OF input ensuresD [OF line later_line(3)]]] by blast
qed (rule input)

text \<open>With a kernel that takes what is submitted, every exception of a handler is covered.\<close>

lemma loop_ends_complete:
  assumes "reachable my pf config db0 (sv, db)" and "valid_order (pf_order pf)" and "roomy pf sv"
    and "token \<in> set (ring_inflight (sv_ring sv))" and "outcome_ok sv token result data"
    and broke: "dispatch pf token result data (take_token token sv) = Inl (Exn e)"
  shows "\<exists>sv1. loop_ends pf sv (Some e) sv1"
proof -
  have ok: "server_inv {} None sv" "world_ok sv"
    using reachable_ok [OF assms(1,2)] by (simp_all add: system_ok_def server_ok_def loop_inv_def)
  have room: "roomy pf (take_token token sv)" using assms(3) by (simp add: roomy_def take_token_def)
  have world: "world_inv (sv_world (take_token token sv))" using ok(2) by (simp add: world_ok_def)
  show ?thesis
  proof (cases "t_type token")
    case KRecv
    then have "on_recv pf token result data (take_token token sv) = Inl (Exn e)" using broke by (simp add: dispatch_def)
    note f = recv_fault [OF ok assms(2,3,4) KRecv this]
    then obtain sv1 where "line_throws pf (t_fd token) (t_generation token) (update_session (t_fd token)
        (s_input_update (\<lambda>input. input @ data)) (take_token token sv)) e sv1"
      using process_line_throws [of pf "t_fd token" "t_generation token" _ e] by (auto simp: coordinate_fault_def)
    with f show ?thesis using loop_ends.line_threw [OF assms(4) KRecv assms(5)] by blast
  qed (use broke accept_room [OF room, of result] send_room [OF world assms(2) room, of token result]
      database_event_room [OF room] in \<open>auto simp: dispatch_def returns_iff\<close>)
qed

text \<open>What the lines before the throw keep of the sockets.\<close>

definition sockets_kept :: "server \<Rightarrow> server \<Rightarrow> bool" where
  "sockets_kept sv sv' \<longleftrightarrow> sv_closed sv' = sv_closed sv \<and> sv_listen_fd sv' = sv_listen_fd sv \<and>
     (\<forall>fd. map_option s_fd (sv_sessions sv' fd) = map_option s_fd (sv_sessions sv fd))"

lemma sockets_kept_trans: "sockets_kept sv sv1 \<Longrightarrow> sockets_kept sv1 sv2 \<Longrightarrow> sockets_kept sv sv2"
  by (simp add: sockets_kept_def)

lemma sockets_kept_update: "(\<And>s. s_fd (f s) = s_fd s) \<Longrightarrow> sockets_kept sv (update_session fd f sv)"
  by (cases "sv_sessions sv fd") (simp_all add: sockets_kept_def update_session_def)

lemma sockets_kept_respond: "ensures (queue_response pf fd generation line sv) (sockets_kept sv)"
  unfolding ensures_iff
proof (intro allI impI)
  fix sv' assume "queue_response pf fd generation line sv = Inr sv'"
  then show "sockets_kept sv sv'"
    by (cases rule: queue_response_cases) (auto simp: sockets_kept_def)
qed

lemma sockets_kept_farewell: "ensures (farewell pf fd generation line sv) (sockets_kept sv)"
  unfolding farewell_def
  by (rule ensures_bind, rule ensures_mono [OF sockets_kept_respond])
    (auto intro: sockets_kept_trans [OF _ sockets_kept_update])

interpretation sockets: line_frame pf sockets_kept fd generation "\<lambda>_. True" for pf fd generation
proof unfold_locales
  show "sockets_kept sv (update_session fd (s_pending_db_update f) sv)" for sv f
    by (rule sockets_kept_update) simp
qed (auto intro: sockets_kept_trans sockets_kept_respond sockets_kept_farewell simp: sockets_kept_def submit_job_def)

text \<open>Every session has an operation in flight or submitted, so there are finitely many.\<close>

lemma finite_sessions:
  assumes "server_inv {} None sv"
  shows "finite (dom (sv_sessions sv))"
proof (rule finite_subset)
  show "dom (sv_sessions sv) \<subseteq> t_fd ` set_mset (ring_tokens (sv_ring sv))"
  proof
    fix fd
    assume "fd \<in> dom (sv_sessions sv)"
    then obtain s where "sv_sessions sv fd = Some s" by auto
    then have so: "session_ok {} None sv fd s" using assms by (simp add: server_inv_def)
    have "sends_of sv fd (s_generation s) + recvs_of sv fd (s_generation s) \<noteq> {#}"
      using so by (cases "s_close_after_flush s") (auto simp: session_ok_def)
    then obtain t where "t \<in># sends_of sv fd (s_generation s) + recvs_of sv fd (s_generation s)"
      by (auto simp: multiset_eq_iff elim: multiset_nonemptyE)
    then have "t_fd t = fd" "t \<in># ring_tokens (sv_ring sv)"
      by (auto simp: sends_of_def recvs_of_def)
    then show "fd \<in> t_fd ` set_mset (ring_tokens (sv_ring sv))" by blast
  qed
qed simp

text \<open>Workers that run on before the queue is closed are part of the pool's run.\<close>

lemma pool_works_on:
  assumes "(worker_step my)\<^sup>*\<^sup>* s s'" and "(pool_step my)\<^sup>*\<^sup>* p (reading, fst s, snd s, subs, dels)"
  shows "(pool_step my)\<^sup>*\<^sup>* p (reading, fst s', snd s', subs, dels)"
  using assms(1)
proof (induction rule: rtranclp_induct)
  case (step t u)
  then have "pool_step my (reading, fst t, snd t, subs, dels) (reading, fst u, snd u, subs, dels)"
    by (intro pool_step.work) simp
  with step.IH show ?case by (rule rtranclp.rtrancl_into_rtrancl)
qed (use assms(2) in simp)

text \<open>Whatever ends the loop, the pool is where the abstract pool can be, and the sockets are as before.\<close>

lemma loop_ends_pool:
  assumes "loop_ends pf sv r sv1" and "(pool_step my)\<^sup>*\<^sup>* p (False, sv_database sv, db, asked, given)"
    and "\<not> bq_closed (dd_jobs (sv_database sv))"
  shows "(pool_step my)\<^sup>*\<^sup>* p (False, sv_database sv1, db, asked @ map job_key (new_jobs sv sv1), given)"
    and "sockets_kept sv sv1"
proof -
  have kept: "feeds sv sv1 \<and> sockets_kept sv sv1"
    using assms(1)
  proof cases
    case (line_threw token result data e)
    let ?sv0 = "update_session (t_fd token) (s_input_update (\<lambda>input. input @ data)) (take_token token sv)"
    have "feeds ?sv0 sv1"
      by (rule line_throws_frame [OF line_threw(7)]) (auto intro: feeds_trans feeds_update feeds.client_line)
    moreover have "feeds sv ?sv0" by (rule feeds_same) (simp add: update_session_def)
    moreover have "sockets_kept ?sv0 sv1"
      by (rule line_throws_frame [OF line_threw(7)])
        (auto intro: sockets_kept_trans sockets.client_line intro!: sockets_kept_update)
    moreover have "sockets_kept sv ?sv0"
      by (rule sockets_kept_trans [OF _ sockets_kept_update]) (simp_all add: sockets_kept_def take_token_def)
    ultimately show ?thesis using feeds_trans sockets_kept_trans by blast
  qed (simp_all add: feeds_same sockets_kept_def)
  then obtain jobs where "sv_database sv1 = fold submit jobs (sv_database sv)" by (auto simp: feeds_def)
  moreover from this have "new_jobs sv sv1 = jobs"
    using fold_submit_queue [OF assms(3)] by (simp add: new_jobs_def)
  ultimately show "(pool_step my)\<^sup>*\<^sup>* p (False, sv_database sv1, db, asked @ map job_key (new_jobs sv sv1), given)"
    using rtranclp_trans [OF assms(2) pool_submits [OF assms(3)]] by simp
  show "sockets_kept sv sv1" using kept by simp
qed

lemma sockets_kept_key:
  assumes "sockets_kept sv sv1" and "server_inv {} None sv" and "sv_sessions sv1 q = Some s"
  shows "s_fd s = q"
proof -
  have "map_option s_fd (sv_sessions sv1 q) = map_option s_fd (sv_sessions sv q)"
    using assms(1) by (simp add: sockets_kept_def)
  then obtain s0 where "sv_sessions sv q = Some s0" "s_fd s0 = s_fd s"
    using assms(3) by (cases "sv_sessions sv q") auto
  then show ?thesis using server_inv_key [OF assms(2)] by metis
qed

text \<open>What the destructors do from there.\<close>

lemma destructors_return:
  assumes pool: "(pool_step my)\<^sup>*\<^sup>* (pool_init config db0) (False, sv_database sv1, db, asked, given)"
    and "db_pool_size config \<noteq> 0" and "finite (dom (sv_sessions sv1))"
    and "\<And>fd s. sv_sessions sv1 fd = Some s \<Longrightarrow> s_fd s = fd"
  shows "\<exists>x db'. program_ends my pf event_fd r (sv1, db) x db'"
proof -
  obtain fds where fds: "set fds = dom (sv_sessions sv1)" "distinct fds"
    using finite_distinct_list [OF assms(3)] by blast
  obtain sv' where sv': "server_stop pf fds sv1 = Inr sv'" "sv_database sv' = sv_database sv1"
    using stop_effect [OF fds(2,1) assms(4), of pf] by (auto simp: returns_iff)
  obtain d' db' where rest: "(worker_step my)\<^sup>*\<^sup>* (stop_begin (sv_database sv'), db) (d', db')"
      "\<forall>s. \<not> worker_step my (d', db') s"
    using workers_come_to_rest [of my "(stop_begin (sv_database sv'), db)"] by auto
  then have "stop_end d' = Some (d'\<lparr>dd_started := False\<rparr>)"
    using stop_runs_every_job [OF pool assms(2)] sv'(2) by auto
  from program_ends.intros [OF fds(2,1) sv'(1) rtranclp.rtrancl_refl rest(1) this] show ?thesis by blast
qed

lemma destructors_run:
  assumes pool: "(pool_step my)\<^sup>*\<^sup>* (pool_init config db0) (False, sv_database sv1, db, asked, given)"
    and "\<And>fd s. sv_sessions sv1 fd = Some s \<Longrightarrow> s_fd s = fd"
    and "program_ends my pf event_fd r (sv1, db) x db'"
  obtains fds d db1 d' where "distinct fds" and "set fds = dom (sv_sessions sv1)"
    and "x = \<lparr>ex_status = fst (exit_status r), ex_stderr = snd (exit_status r),
      ex_closed = sv_closed (close_listen_socket sv1) @ fds @ close_event_fd event_fd, ex_pool = ex_pool x\<rparr>"
    and "(pool_step my)\<^sup>*\<^sup>* (pool_init config db0) (False, d, db1, asked, given)"
    and "(worker_step my)\<^sup>*\<^sup>* (stop_begin d, db1) (d', db')" and "stop_end d' = Some (ex_pool x)"
proof -
  from assms(3) obtain fds sv' d db1 d' end_pool where x: "x = \<lparr>ex_status = fst (exit_status r),
      ex_stderr = snd (exit_status r), ex_closed = sv_closed sv' @ close_event_fd event_fd, ex_pool = end_pool\<rparr>"
    and fds: "distinct fds" "set fds = dom (sv_sessions sv1)" and stopped: "server_stop pf fds sv1 = Inr sv'"
    and before: "(worker_step my)\<^sup>*\<^sup>* (sv_database sv', db) (d, db1)"
    and after: "(worker_step my)\<^sup>*\<^sup>* (stop_begin d, db1) (d', db')" and joined: "stop_end d' = Some end_pool"
    by (rule program_endsE)
  have sv': "sv_database sv' = sv_database sv1" "sv_closed sv' = sv_closed (close_listen_socket sv1) @ fds"
    using stop_effect [OF fds assms(2), of pf] stopped by (simp_all add: returns_iff)
  have on: "(pool_step my)\<^sup>*\<^sup>* (pool_init config db0) (False, d, db1, asked, given)"
    using pool_works_on [OF before, of _ False asked given] pool sv'(1) by simp
  show thesis by (rule that [OF fds _ on after]) (simp_all add: x sv'(2) joined)
qed

lemma destructors_effect:
  assumes pool: "(pool_step my)\<^sup>*\<^sup>* (pool_init config db0) (False, sv_database sv1, db, asked, given)"
    and "db_pool_size config \<noteq> 0" and "\<And>fd s. sv_sessions sv1 fd = Some s \<Longrightarrow> s_fd s = fd"
    and "program_ends my pf event_fd r (sv1, db) x db'"
  shows "(ex_status x, ex_stderr x) = exit_status r"
    and "\<exists>fds. distinct fds \<and> set fds = dom (sv_sessions sv1) \<and>
      ex_closed x = sv_closed (close_listen_socket sv1) @ fds @ close_event_fd event_fd"
    and "bq_queue (dd_jobs (ex_pool x)) = []"
    and "mset asked = mset given + mset (map completion_key (dd_completions (ex_pool x)))"
proof -
  from destructors_run [OF pool assms(3,4)] obtain fds d db1 d' where
      fds: "distinct fds" "set fds = dom (sv_sessions sv1)"
    and x: "x = \<lparr>ex_status = fst (exit_status r), ex_stderr = snd (exit_status r),
      ex_closed = sv_closed (close_listen_socket sv1) @ fds @ close_event_fd event_fd, ex_pool = ex_pool x\<rparr>"
    and on: "(pool_step my)\<^sup>*\<^sup>* (pool_init config db0) (False, d, db1, asked, given)"
    and after: "(worker_step my)\<^sup>*\<^sup>* (stop_begin d, db1) (d', db')" and joined: "stop_end d' = Some (ex_pool x)" .
  have ran: "bq_queue (dd_jobs d') = [] \<and> mset asked = mset given + mset (map completion_key (dd_completions d'))"
    using stop_runs_every_job [OF on assms(2)] after joined by blast
  have "ex_pool x = d' \<or> ex_pool x = d'\<lparr>dd_started := False\<rparr>"
    using joined unfolding stop_end_def by (simp split: if_splits)
  then have same: "dd_jobs (ex_pool x) = dd_jobs d'" "dd_completions (ex_pool x) = dd_completions d'" by auto
  show "(ex_status x, ex_stderr x) = exit_status r" by (subst x, subst x) simp
  have "ex_closed x = sv_closed (close_listen_socket sv1) @ fds @ close_event_fd event_fd" by (subst x) simp
  then show "\<exists>fds. distinct fds \<and> set fds = dom (sv_sessions sv1) \<and>
      ex_closed x = sv_closed (close_listen_socket sv1) @ fds @ close_event_fd event_fd" using fds by blast
  show "bq_queue (dd_jobs (ex_pool x)) = []"
    "mset asked = mset given + mset (map completion_key (dd_completions (ex_pool x)))"
    using ran same by simp_all
qed

lemma sockets_kept_dom: "sockets_kept sv sv1 \<Longrightarrow> dom (sv_sessions sv1) = dom (sv_sessions sv)"
  unfolding sockets_kept_def dom_def by (metis (mono_tags) map_option_is_None)

lemma loop_ends_return:
  assumes "reachable my pf config db0 (sv, db)" and "valid_order (pf_order pf)"
    and "db_pool_size (app_database config) \<noteq> 0" and "loop_ends pf sv r sv1"
  shows "\<exists>x db'. program_ends my pf event_fd r (sv1, db) x db'"
proof -
  have inv: "server_inv {} None sv"
    using reachable_ok [OF assms(1,2)] by (simp add: system_ok_def server_ok_def loop_inv_def)
  obtain asked given where run: "program_run my pf config db0 sv db asked given"
    using reachable_program_run [OF assms(1)] by auto
  note pool = program_run_pool [OF run]
  note left = loop_ends_pool [OF assms(4) pool pool_open [OF pool]]
  have "finite (dom (sv_sessions sv1))" using finite_sessions [OF inv] sockets_kept_dom [OF left(2)] by simp
  from destructors_return [OF left(1) assms(3) this] sockets_kept_key [OF left(2) inv] show ?thesis by blast
qed

section \<open>The program ends in order\<close>



end
