(* ===== verification/Liveness.thy ===== *)
theory Liveness
  imports System_Refinement Database_Demo Server_Faults
begin

text \<open>
  Every request is answered. A run of the whole program is an infinite sequence of states with the histories of
  System_Refinement; a step may also leave the state alone. It is fair when each worker that can move again and
  again does move, and a readable eventfd is at last handled by the event loop, both in the weak sense of being
  infinitely often disabled or taken. No assumption is made on the other steps: clients may send
  and connect without end.

  The argument follows the requests asked so far through three stages, each left at last: the queue, where
  \<open>covered A I a\<close> counts down the entries \<open>a\<close> still before the last of them; the workers, where it takes them out of
  \<open>I\<close> one by one; and the completion queue.
\<close>

section \<open>Fair runs\<close>

record 'db history =
  hi_server :: server
  hi_db :: 'db
  hi_asked :: "request_key list"
  hi_replied :: "request_key list"

abbreviation hi_pool :: "'db history \<Rightarrow> dispatcher" where
  "hi_pool h \<equiv> sv_database (hi_server h)"

inductive history_step :: "'db mysql \<Rightarrow> platform \<Rightarrow> 'db history \<Rightarrow> 'db history \<Rightarrow> bool" for my pf where
  loop: "loop_step pf (hi_server h) sv' \<Longrightarrow> history_step my pf h
    (h\<lparr>hi_server := sv', hi_asked := hi_asked h @ map job_key (new_jobs (hi_server h) sv'),
       hi_replied := hi_replied h @ map completion_key (taken_completions (hi_server h) sv')\<rparr>)"
| work: "worker_step my (hi_pool h, hi_db h) (d, db') \<Longrightarrow>
    history_step my pf h (h\<lparr>hi_server := (hi_server h)\<lparr>sv_database := d\<rparr>, hi_db := db'\<rparr>)"

definition worker_enabled :: "nat \<Rightarrow> dispatcher \<Rightarrow> bool" where
  "worker_enabled i d \<longleftrightarrow> i < length (dd_workers d) \<and> \<not> wk_done (dd_workers d ! i) \<and>
     (wk_job (dd_workers d ! i) \<noteq> None \<or> bq_pop (dd_jobs d) \<noteq> None)"

definition worker_moves :: "'db mysql \<Rightarrow> nat \<Rightarrow> 'db history \<Rightarrow> 'db history \<Rightarrow> bool" where
  "worker_moves my i h h' \<longleftrightarrow> hi_asked h' = hi_asked h \<and> hi_replied h' = hi_replied h \<and>
     (worker_pop i (hi_pool h) = Some (hi_pool h') \<or>
      worker_finish my i (hi_pool h) (hi_db h) = Some (hi_pool h', hi_db h'))"

definition event_handled :: "platform \<Rightarrow> server \<Rightarrow> server \<Rightarrow> bool" where
  "event_handled pf sv sv' \<longleftrightarrow> (\<exists>token \<in> set (ring_inflight (sv_ring sv)). t_type token = KDatabaseEvent \<and>
     on_database_event pf (take_token token sv) = Inr sv')"

definition program_history :: "'db mysql \<Rightarrow> platform \<Rightarrow> app_config \<Rightarrow> 'db \<Rightarrow> 'db history \<Rightarrow> bool" where
  "program_history my pf config db0 h \<longleftrightarrow>
     program_run my pf config db0 (hi_server h) (hi_db h) (hi_asked h) (hi_replied h)"

definition fair_run :: "'db mysql \<Rightarrow> platform \<Rightarrow> (nat \<Rightarrow> 'db history) \<Rightarrow> bool" where
  "fair_run my pf run \<longleftrightarrow>
     (\<forall>n. run (Suc n) = run n \<or> history_step my pf (run n) (run (Suc n))) \<and>
     (\<forall>i n. \<exists>m \<ge> n. \<not> worker_enabled i (hi_pool (run m)) \<or> worker_moves my i (run m) (run (Suc m))) \<and>
     (\<forall>n. \<exists>m \<ge> n. dd_event_count (hi_pool (run m)) = 0 \<or>
        history_step my pf (run m) (run (Suc m)) \<and> event_handled pf (hi_server (run m)) (hi_server (run (Suc m))))"

section \<open>What is covered\<close>

text \<open>The requests that the workers with a number in \<open>I\<close> are running.\<close>

definition worker_keys :: "worker \<Rightarrow> request_key multiset" where
  "worker_keys w = (case wk_job w of None \<Rightarrow> {#} | Some j \<Rightarrow> {#job_key j#})"

definition running_in :: "nat set \<Rightarrow> worker list \<Rightarrow> request_key multiset" where
  "running_in I ws = (\<Sum>i \<in> {i \<in> I. i < length ws}. worker_keys (ws ! i))"

definition covered :: "request_key multiset \<Rightarrow> nat set \<Rightarrow> nat \<Rightarrow> 'db history \<Rightarrow> bool" where
  "covered A I a h \<longleftrightarrow> A \<subseteq># mset (hi_replied h) + mset (map completion_key (dd_completions (hi_pool h))) +
     running_in I (dd_workers (hi_pool h)) + mset (map job_key (take a (bq_queue (dd_jobs (hi_pool h)))))"

lemma running_keys_sum: "mset (running_keys ws) = running_in UNIV ws"
proof (induction ws rule: rev_induct)
  case Nil
  show ?case by (simp add: running_keys_def running_in_def)
next
  case (snoc w ws)
  have "running_in UNIV (ws @ [w]) = (\<Sum>i < Suc (length ws). worker_keys ((ws @ [w]) ! i))"
    by (simp add: running_in_def lessThan_def)
  also have "\<dots> = (\<Sum>i < length ws. worker_keys (ws ! i)) + worker_keys w"
    by (simp add: nth_append)
  also have "(\<Sum>i < length ws. worker_keys (ws ! i)) = running_in UNIV ws"
    by (simp add: running_in_def lessThan_def)
  finally show ?case
    using snoc by (simp add: running_keys_def worker_keys_def split: option.splits)
qed

lemma running_in_at:
  assumes "i < length ws"
  obtains R where "\<And>w. running_in I (ws[i := w]) = R + (if i \<in> I then worker_keys w else {#})"
proof (cases "i \<in> I")
  case True
  let ?J = "{j \<in> I. j < length ws} - {i}"
  have "running_in I (ws[i := w]) = (\<Sum>j \<in> ?J. worker_keys (ws ! j)) + worker_keys w" for w
  proof -
    have "running_in I (ws[i := w]) = worker_keys w + (\<Sum>j \<in> ?J. worker_keys (ws[i := w] ! j))"
      using True assms unfolding running_in_def
      by (subst sum.remove [of _ i]) simp_all
    also have "(\<Sum>j \<in> ?J. worker_keys (ws[i := w] ! j)) = (\<Sum>j \<in> ?J. worker_keys (ws ! j))"
      by (rule sum.cong) auto
    finally show ?thesis by simp
  qed
  with that True show ?thesis by simp
next
  case False
  have "running_in I (ws[i := w]) = running_in I ws" for w
    unfolding running_in_def length_list_update
  proof (rule sum.cong [OF refl])
    fix j assume "j \<in> {j \<in> I. j < length ws}"
    with False have "j \<noteq> i" by auto
    then show "worker_keys (ws[i := w] ! j) = worker_keys (ws ! j)" by simp
  qed
  with that False show ?thesis by simp
qed

text \<open>Taking an idle worker, or one that has just finished, out of \<open>I\<close> changes nothing.\<close>

lemma running_in_remove:
  assumes "i < length ws \<Longrightarrow> wk_job (ws ! i) = None"
  shows "running_in (I - {i}) ws = running_in I ws"
  unfolding running_in_def
proof (rule sum.mono_neutral_left)
  show "\<forall>j \<in> {j \<in> I. j < length ws} - {j \<in> I - {i}. j < length ws}. worker_keys (ws ! j) = {#}"
    using assms by (auto simp: worker_keys_def)
qed auto

lemma covered_mono:
  assumes "covered A I a h" and "hi_replied h' = hi_replied h @ later"
    and "mset later + mset (map completion_key (dd_completions (hi_pool h'))) =
      mset (map completion_key (dd_completions (hi_pool h)))"
    and "dd_workers (hi_pool h') = dd_workers (hi_pool h)"
    and "bq_queue (dd_jobs (hi_pool h')) = bq_queue (dd_jobs (hi_pool h)) @ jobs"
  shows "covered A I a h'"
proof -
  let ?q = "bq_queue (dd_jobs (hi_pool h))"
  have "mset (map job_key (take a ?q)) \<subseteq># mset (map job_key (take a (?q @ jobs)))" by simp
  then have "mset (hi_replied h) + mset (map completion_key (dd_completions (hi_pool h))) +
      running_in I (dd_workers (hi_pool h)) + mset (map job_key (take a ?q)) \<subseteq>#
    mset (hi_replied h) + mset (map completion_key (dd_completions (hi_pool h))) +
      running_in I (dd_workers (hi_pool h)) + mset (map job_key (take a (?q @ jobs)))"
    by (rule subset_mset.add_left_mono)
  also have "\<dots> = mset (hi_replied h') + mset (map completion_key (dd_completions (hi_pool h'))) +
      running_in I (dd_workers (hi_pool h')) + mset (map job_key (take a (bq_queue (dd_jobs (hi_pool h')))))"
    unfolding assms(2,4,5) by (simp only: assms(3) [symmetric] mset_append ac_simps)
  finally show ?thesis using assms(1) unfolding covered_def by (rule subset_mset.order_trans [rotated])
qed

lemma pop_worker:
  assumes "worker_pop i d = Some d'" and "\<not> bq_closed (dd_jobs d)"
  obtains w job where "i < length (dd_workers d)" and "w = dd_workers d ! i" and "wk_job w = None"
    and "bq_queue (dd_jobs d) = job # bq_queue (dd_jobs d')" and "bq_closed (dd_jobs d') = bq_closed (dd_jobs d)"
    and "dd_workers d' = (dd_workers d)[i := w\<lparr>wk_job := Some job\<rparr>]"
    and "dd_completions d' = dd_completions d"
  using assms by (auto simp: worker_pop_def bq_pop_def Let_def split: if_splits list.splits)

lemma finish_worker:
  assumes "worker_finish my i d db = Some (d', db')"
  obtains w job connected c where "i < length (dd_workers d)" and "w = dd_workers d ! i" and "wk_job w = Some job"
    and "completion_key c = job_key job" and "dd_jobs d' = dd_jobs d"
    and "dd_workers d' = (dd_workers d)[i := w\<lparr>wk_connected := connected, wk_job := None\<rparr>]"
    and "dd_completions d' = dd_completions d @ [c]"
proof -
  let ?w = "dd_workers d ! i"
  obtain job where i: "i < length (dd_workers d)" "wk_job ?w = Some job"
    using assms by (auto simp: worker_finish_def Let_def split: if_splits option.splits)
  obtain connected c db1 where run: "run_job my (dd_config d) (wk_connected ?w) job db = (connected, c, db1)"
    by (cases "run_job my (dd_config d) (wk_connected ?w) job db") auto
  have "d' = push_completion c
      (d\<lparr>dd_workers := (dd_workers d)[i := ?w\<lparr>wk_connected := connected, wk_job := None\<rparr>]\<rparr>)"
    using assms i run by (auto simp: worker_finish_def Let_def split: if_splits)
  then show ?thesis
    using that [OF i(1) refl i(2) run_job_key [OF run], of connected] by (simp add: push_completion_def)
qed

lemma covered_pop:
  assumes pop: "worker_pop i (hi_pool h) = Some (hi_pool h')" and op: "\<not> bq_closed (dd_jobs (hi_pool h))"
    and same: "hi_replied h' = hi_replied h" and "covered A UNIV (Suc a) h"
  shows "covered A UNIV a h'"
proof -
  let ?ws = "dd_workers (hi_pool h)"
  from pop op obtain w job where
      i: "i < length ?ws" "w = ?ws ! i" "wk_job w = None"
      and q: "bq_queue (dd_jobs (hi_pool h)) = job # bq_queue (dd_jobs (hi_pool h'))"
      and ws: "dd_workers (hi_pool h') = ?ws[i := w\<lparr>wk_job := Some job\<rparr>]"
      and cs: "dd_completions (hi_pool h') = dd_completions (hi_pool h)"
    by (rule pop_worker)
  obtain R where R: "\<And>w. running_in UNIV (?ws[i := w]) = R + (if i \<in> UNIV then worker_keys w else {#})"
    using running_in_at [OF i(1), of UNIV] by blast
  have "running_in UNIV ?ws = R"
    using R [of w] i by (simp add: worker_keys_def)
  moreover have "running_in UNIV (dd_workers (hi_pool h')) = R + {#job_key job#}"
    unfolding ws R by (simp add: worker_keys_def)
  ultimately show ?thesis using assms(4) by (simp add: covered_def same q cs)
qed

lemma covered_pop_queue_gone:
  assumes pop: "worker_pop i (hi_pool h) = Some (hi_pool h')" and op: "\<not> bq_closed (dd_jobs (hi_pool h))"
    and same: "hi_replied h' = hi_replied h" and cov: "covered A I 0 h"
  shows "covered A I 0 h'"
proof -
  let ?ws = "dd_workers (hi_pool h)"
  from pop op obtain w job where
      i: "i < length ?ws" "w = ?ws ! i" "wk_job w = None"
      and ws: "dd_workers (hi_pool h') = ?ws[i := w\<lparr>wk_job := Some job\<rparr>]"
      and cs: "dd_completions (hi_pool h') = dd_completions (hi_pool h)"
    by (rule pop_worker)
  obtain R where R: "\<And>w. running_in I (?ws[i := w]) = R + (if i \<in> I then worker_keys w else {#})"
    using running_in_at [OF i(1), of I] by blast
  have "running_in I ?ws = R" using R [of w] i by (simp add: worker_keys_def)
  then have "running_in I ?ws \<subseteq># running_in I (dd_workers (hi_pool h'))"
    unfolding ws R by simp
  then have "mset (hi_replied h) + mset (map completion_key (dd_completions (hi_pool h))) + running_in I ?ws \<subseteq>#
      mset (hi_replied h) + mset (map completion_key (dd_completions (hi_pool h))) + running_in I (dd_workers (hi_pool h'))"
    by (rule subset_mset.add_left_mono)
  with cov show ?thesis by (simp add: covered_def same cs subset_mset.order_trans)
qed

lemma covered_finish:
  assumes finish: "worker_finish my i (hi_pool h) (hi_db h) = Some (hi_pool h', db')"
    and same: "hi_replied h' = hi_replied h" and cov: "covered A I a h"
  shows "covered A (I - {i}) a h'" and "covered A I a h'"
proof -
  let ?ws = "dd_workers (hi_pool h)"
  from finish obtain w job connected c where
      i: "i < length ?ws" "w = ?ws ! i" "wk_job w = Some job"
      and c: "completion_key c = job_key job" and q: "dd_jobs (hi_pool h') = dd_jobs (hi_pool h)"
      and ws: "dd_workers (hi_pool h') = ?ws[i := w\<lparr>wk_connected := connected, wk_job := None\<rparr>]"
      and cs: "dd_completions (hi_pool h') = dd_completions (hi_pool h) @ [c]"
    by (rule finish_worker)
  obtain R where R: "\<And>w. running_in I (?ws[i := w]) = R + (if i \<in> I then worker_keys w else {#})"
    using running_in_at [OF i(1), of I] by blast
  have before: "running_in I ?ws = R + (if i \<in> I then {#job_key job#} else {#})"
    using R [of w] i by (simp add: worker_keys_def)
  have after: "running_in I (dd_workers (hi_pool h')) = R"
    unfolding ws R by (simp add: worker_keys_def)
  have "mset (hi_replied h) + mset (map completion_key (dd_completions (hi_pool h))) + running_in I ?ws +
      mset (map job_key (take a (bq_queue (dd_jobs (hi_pool h))))) \<subseteq>#
    mset (hi_replied h') + mset (map completion_key (dd_completions (hi_pool h'))) +
      running_in I (dd_workers (hi_pool h')) + mset (map job_key (take a (bq_queue (dd_jobs (hi_pool h')))))"
    unfolding before after same q cs by (simp add: c subseteq_mset_def ac_simps)
  with cov show in_I: "covered A I a h'" unfolding covered_def by (rule subset_mset.order_trans)
  have "running_in (I - {i}) (dd_workers (hi_pool h')) = running_in I (dd_workers (hi_pool h'))"
    by (rule running_in_remove) (simp add: ws i(1))
  with in_I show "covered A (I - {i}) a h'" by (simp add: covered_def)
qed

section \<open>Steps of a run\<close>

lemma fold_submit_workers [simp]: "dd_workers (fold submit jobs d) = dd_workers d"
  by (induction jobs arbitrary: d) (simp_all add: submit_def)

lemma loop_keeps:
  assumes "loop_step pf sv sv'" and "\<not> bq_closed (dd_jobs (sv_database sv))"
  obtains jobs where "taken_completions sv sv' @ dd_completions (sv_database sv') = dd_completions (sv_database sv)"
    and "dd_workers (sv_database sv') = dd_workers (sv_database sv)"
    and "bq_queue (dd_jobs (sv_database sv')) = bq_queue (dd_jobs (sv_database sv)) @ jobs"
  using assms(1)
proof (cases rule: loop_step_database)
  case (fed jobs)
  then show ?thesis using that [of jobs] fold_submit_queue [OF assms(2)] by (simp add: taken_completions_def)
next
  case (event jobs)
  have "\<not> bq_closed (dd_jobs ((event_read (sv_database sv))\<lparr>dd_completions := []\<rparr>))"
    using assms(2) by (simp add: event_read_def)
  from event fold_submit_queue [OF this] show ?thesis
    using that [of jobs] by (simp add: taken_completions_def event_read_def)
qed

lemma event_takes_all:
  assumes "event_handled pf sv sv'"
  shows "taken_completions sv sv' = dd_completions (sv_database sv)"
proof -
  from assms obtain token where "on_database_event pf (take_token token sv) = Inr sv'"
    by (auto simp: event_handled_def)
  then obtain jobs where "sv_database sv' = fold submit jobs ((event_read (sv_database sv))\<lparr>dd_completions := []\<rparr>)"
    using on_database_event_database [of pf "take_token token sv" sv'] by auto
  then show ?thesis by (simp add: taken_completions_def)
qed

lemma covered_more: "covered A I a h \<Longrightarrow> a \<le> b \<Longrightarrow> covered A I b h"
proof -
  assume cov: "covered A I a h" and le: "a \<le> b"
  let ?q = "map job_key (bq_queue (dd_jobs (hi_pool h)))"
  have "take b ?q = take a ?q @ take (b - a) (drop a ?q)"
    using le by (metis le_add_diff_inverse take_add)
  then have "mset (take a ?q) \<subseteq># mset (take b ?q)" by simp
  then show ?thesis using cov unfolding covered_def
    by (simp add: take_map) (meson subset_mset.add_left_mono subset_mset.order_trans)
qed

text \<open>Coverage is stable.\<close>

lemma covered_step:
  assumes step: "history_step my pf h h'" and op: "\<not> bq_closed (dd_jobs (hi_pool h))"
    and "I = UNIV \<or> a = 0" and cov: "covered A I a h"
  shows "covered A I a h'"
  using step
proof cases
  case (loop sv')
  from loop_keeps [OF loop(2) op] obtain jobs where
      k: "taken_completions (hi_server h) sv' @ dd_completions (sv_database sv') = dd_completions (hi_pool h)"
      "dd_workers (sv_database sv') = dd_workers (hi_pool h)"
      "bq_queue (dd_jobs (sv_database sv')) = bq_queue (dd_jobs (hi_pool h)) @ jobs" by metis
  show ?thesis
  proof (rule covered_mono [OF cov])
    show "mset (map completion_key (taken_completions (hi_server h) sv')) +
        mset (map completion_key (dd_completions (hi_pool h'))) =
      mset (map completion_key (dd_completions (hi_pool h)))"
      by (simp add: loop(1) flip: k(1))
  qed (simp_all add: loop(1) k(2,3))
next
  case (work d db')
  from work(2) show ?thesis
  proof (cases rule: worker_step_cases)
    case (pop i)
    then have moved: "worker_pop i (hi_pool h) = Some (hi_pool h')" and same: "hi_replied h' = hi_replied h"
      using work(1) by simp_all
    show ?thesis
    proof (cases a)
      case 0
      then show ?thesis using covered_pop_queue_gone [OF moved op same] cov by simp
    next
      case (Suc b)
      then have "covered A UNIV b h'" using covered_pop [OF moved op same] cov assms(3) by simp
      then show ?thesis using covered_more assms(3) Suc by (metis le_add2 nat.distinct(1) plus_1_eq_Suc)
    qed
  next
    case (finish i)
    then have "worker_finish my i (hi_pool h) (hi_db h) = Some (hi_pool h', db')" "hi_replied h' = hi_replied h"
      using work(1) by simp_all
    from covered_finish(2) [OF this cov] show ?thesis .
  qed
qed

text \<open>Only its own pop gives an idle worker a job.\<close>

lemma job_appears:
  assumes step: "history_step my pf h h'" and op: "\<not> bq_closed (dd_jobs (hi_pool h))"
    and "i < length (dd_workers (hi_pool h))"
    and "wk_job (dd_workers (hi_pool h) ! i) = None" and "wk_job (dd_workers (hi_pool h') ! i) \<noteq> None"
  shows "worker_pop i (hi_pool h) = Some (hi_pool h') \<and> hi_replied h' = hi_replied h"
  using step
proof cases
  case (loop sv')
  have "dd_workers (hi_pool h') = dd_workers (hi_pool h)" by (rule loop_keeps [OF loop(2) op]) (simp add: loop(1))
  then show ?thesis using assms(4,5) by simp
next
  case (work d db')
  from work(2) show ?thesis
  proof (cases rule: worker_step_cases)
    case (pop j)
    have "j = i"
    proof (rule ccontr)
      assume "j \<noteq> i"
      moreover obtain w where "dd_workers d = (dd_workers (hi_pool h))[j := w]"
        using pop_worker [OF pop(1) op] by metis
      ultimately show False using assms(4,5) work(1) by simp
    qed
    then show ?thesis using pop(1) work(1) by simp
  next
    case (finish j)
    from finish_worker [OF finish] obtain w where "wk_job w = None" "dd_workers d = (dd_workers (hi_pool h))[j := w]"
      by (metis worker.select_convs(2) worker.surjective worker.update_convs(2))
    then show ?thesis using assms(3-5) work(1) by (cases "j = i") simp_all
  qed
qed

section \<open>Every stage is left\<close>

lemma history_pool:
  assumes "program_history my pf config db0 h"
  shows "\<not> bq_closed (dd_jobs (hi_pool h))" and "workers_inv (hi_pool h)" and "wake_inv (hi_pool h)"
    and "length (dd_workers (hi_pool h)) = unat (db_pool_size (app_database config))"
    and "mset (hi_asked h) = mset (hi_replied h) + outstanding (hi_pool h)"
proof -
  note pool = program_run_pool [OF assms [unfolded program_history_def]]
  show "\<not> bq_closed (dd_jobs (hi_pool h))" by (rule pool_open [OF pool])
  show "workers_inv (hi_pool h)" "wake_inv (hi_pool h)"
    "length (dd_workers (hi_pool h)) = unat (db_pool_size (app_database config))"
    "mset (hi_asked h) = mset (hi_replied h) + outstanding (hi_pool h)"
    using pool_reachable_inv [OF pool] by simp_all
qed

lemma history_idle:
  assumes "program_history my pf config db0 h" and "i < length (dd_workers (hi_pool h))"
  shows "\<not> wk_done (dd_workers (hi_pool h) ! i)"
  using history_pool(1,2) [OF assms(1)] assms(2) by (auto simp: workers_inv_def)

lemma history_step_program:
  assumes "history_step my pf h h'" and "program_history my pf config db0 h"
  shows "program_history my pf config db0 h'"
  using assms(1)
proof cases
  case (loop sv')
  then show ?thesis using program_run.loop assms(2) by (simp add: program_history_def)
next
  case (work d db')
  then show ?thesis using program_run.work assms(2) by (simp add: program_history_def)
qed

lemma fair_history:
  assumes "fair_run my pf run" and "program_history my pf config db0 (run 0)"
  shows "program_history my pf config db0 (run n)"
proof (induction n)
  case (Suc n)
  then show ?case using assms(1) history_step_program unfolding fair_run_def by metis
qed (rule assms(2))

lemma fair_worker:
  assumes "fair_run my pf run"
  obtains m where "n \<le> m" and "\<not> worker_enabled i (hi_pool (run m)) \<or> worker_moves my i (run m) (run (Suc m))"
  using assms unfolding fair_run_def by blast

lemma fair_covered:
  assumes "fair_run my pf run" and "program_history my pf config db0 (run 0)"
    and "I = UNIV \<or> a = 0" and "covered A I a (run n)" and "n \<le> m"
  shows "covered A I a (run m)"
  using assms(5,4)
proof (induction m rule: dec_induct)
  case (step m)
  have "run (Suc m) = run m \<or> history_step my pf (run m) (run (Suc m))" using assms(1) by (simp add: fair_run_def)
  then show ?case
    using covered_step [OF _ history_pool(1) [OF fair_history [OF assms(1,2)]] assms(3)] step by metis
qed

text \<open>A worker is idle again and again.\<close>

lemma worker_rests:
  assumes fair: "fair_run my pf run" and hist: "program_history my pf config db0 (run 0)"
    and i: "i < unat (db_pool_size (app_database config))"
  shows "\<exists>m \<ge> n. wk_job (dd_workers (hi_pool (run m)) ! i) = None"
proof -
  note hist_m = fair_history [OF fair hist]
  from fair_worker [OF fair] obtain m where m: "n \<le> m"
      "\<not> worker_enabled i (hi_pool (run m)) \<or> worker_moves my i (run m) (run (Suc m))" by blast
  have len: "i < length (dd_workers (hi_pool (run k)))" for k using i history_pool(4) [OF hist_m] by simp
  show ?thesis
  proof (cases "wk_job (dd_workers (hi_pool (run m)) ! i)")
    case (Some job)
    then have "worker_enabled i (hi_pool (run m))"
      using len history_idle [OF hist_m len] by (simp add: worker_enabled_def)
    then have "worker_finish my i (hi_pool (run m)) (hi_db (run m)) = Some (hi_pool (run (Suc m)), hi_db (run (Suc m)))"
      using m(2) Some by (auto simp: worker_moves_def worker_pop_def Let_def split: if_splits)
    from finish_worker [OF this] have "wk_job (dd_workers (hi_pool (run (Suc m))) ! i) = None"
      using len by (metis nth_list_update_eq worker.select_convs(2) worker.surjective worker.update_convs(2))
    then show ?thesis using m(1) by (intro exI [of _ "Suc m"]) simp
  qed (use m(1) in blast)
qed

text \<open>The queue moves on: sooner or later it is empty or a job is taken.\<close>

lemma queue_moves:
  assumes fair: "fair_run my pf run" and hist: "program_history my pf config db0 (run 0)"
    and i: "i < unat (db_pool_size (app_database config))"
  shows "\<exists>m \<ge> n. bq_queue (dd_jobs (hi_pool (run m))) = [] \<or>
    worker_pop i (hi_pool (run m)) = Some (hi_pool (run (Suc m))) \<and> hi_replied (run (Suc m)) = hi_replied (run m)"
proof -
  note hist_m = fair_history [OF fair hist]
  have len: "i < length (dd_workers (hi_pool (run k)))" for k using i history_pool(4) [OF hist_m] by simp
  obtain k where k: "n \<le> k" "wk_job (dd_workers (hi_pool (run k)) ! i) = None"
    using worker_rests [OF fair hist i] by blast
  from fair_worker [OF fair] obtain m where m: "k \<le> m"
      "\<not> worker_enabled i (hi_pool (run m)) \<or> worker_moves my i (run m) (run (Suc m))" by blast
  show ?thesis
  proof (cases "wk_job (dd_workers (hi_pool (run m)) ! i)")
    case None
    show ?thesis
    proof (cases "worker_enabled i (hi_pool (run m))")
      case True
      then have "worker_pop i (hi_pool (run m)) = Some (hi_pool (run (Suc m))) \<and>
          hi_replied (run (Suc m)) = hi_replied (run m)"
        using m(2) None by (auto simp: worker_moves_def worker_finish_def Let_def split: if_splits)
      then show ?thesis using k(1) m(1) by (meson order_trans)
    next
      case False
      then have "bq_pop (dd_jobs (hi_pool (run m))) = None"
        using len history_idle [OF hist_m len] by (cases "bq_pop (dd_jobs (hi_pool (run m)))") (auto simp: worker_enabled_def)
      then have "bq_queue (dd_jobs (hi_pool (run m))) = []"
        by (auto simp: bq_pop_def split: if_splits list.splits)
      then show ?thesis using k(1) m(1) by (meson order_trans)
    qed
  next
    case (Some job)
    define busy where "busy j \<longleftrightarrow> wk_job (dd_workers (hi_pool (run j)) ! i) \<noteq> None" for j
    have "\<exists>j \<ge> k. \<not> busy j \<and> busy (Suc j)"
    proof (rule ccontr)
      assume none: "\<not> ?thesis"
      have "\<not> busy j" if "k \<le> j" for j
        using that by (induction j rule: dec_induct) (use k(2) none in \<open>auto simp: busy_def\<close>)
      then show False using m(1) Some by (simp add: busy_def)
    qed
    then obtain j where j: "k \<le> j" "\<not> busy j" "busy (Suc j)" by blast
    then have "run (Suc j) \<noteq> run j" by (auto simp: busy_def)
    then have "history_step my pf (run j) (run (Suc j))" using fair unfolding fair_run_def by blast
    from job_appears [OF this history_pool(1) [OF hist_m] len] j(2,3) k(1) j(1) show ?thesis
      unfolding busy_def by (meson order_trans)
  qed
qed

lemma queue_stage:
  assumes fair: "fair_run my pf run" and hist: "program_history my pf config db0 (run 0)"
    and size: "db_pool_size (app_database config) \<noteq> 0" and "covered A UNIV a (run n)"
  shows "\<exists>m \<ge> n. covered A UNIV 0 (run m)"
  using assms(4)
proof (induction a arbitrary: n)
  case (Suc a)
  have "0 < unat (db_pool_size (app_database config))" using size by (simp add: unat_gt_0)
  from queue_moves [OF fair hist this] obtain m where m: "n \<le> m" "bq_queue (dd_jobs (hi_pool (run m))) = [] \<or>
      worker_pop 0 (hi_pool (run m)) = Some (hi_pool (run (Suc m))) \<and> hi_replied (run (Suc m)) = hi_replied (run m)"
    by blast
  have here: "covered A UNIV (Suc a) (run m)" by (rule fair_covered [OF fair hist _ Suc.prems m(1)]) simp
  show ?case
  proof (cases "bq_queue (dd_jobs (hi_pool (run m))) = []")
    case True
    then have "covered A UNIV a (run m)" using here by (simp add: covered_def)
    from Suc.IH [OF this] m(1) show ?thesis by (meson order_trans)
  next
    case False
    then have "covered A UNIV a (run (Suc m))"
      using m(2) covered_pop [OF _ history_pool(1) [OF fair_history [OF fair hist]] _ here] by blast
    from Suc.IH [OF this] m(1) show ?thesis by (meson Suc_leD order_trans)
  qed
qed blast

lemma worker_stage:
  assumes fair: "fair_run my pf run" and hist: "program_history my pf config db0 (run 0)"
    and "covered A I 0 (run n)"
  shows "\<exists>m \<ge> n. covered A (I - {i}) 0 (run m)"
proof -
  from fair_worker [OF fair] obtain m where m: "n \<le> m"
      "\<not> worker_enabled i (hi_pool (run m)) \<or> worker_moves my i (run m) (run (Suc m))" by blast
  have here: "covered A I 0 (run m)" by (rule fair_covered [OF fair hist _ assms(3) m(1)]) simp
  note idle = history_idle [OF fair_history [OF fair hist]]
  show ?thesis
  proof (cases "i < length (dd_workers (hi_pool (run m))) \<and> wk_job (dd_workers (hi_pool (run m)) ! i) \<noteq> None")
    case True
    then have "worker_enabled i (hi_pool (run m))" using idle by (simp add: worker_enabled_def)
    then have "worker_finish my i (hi_pool (run m)) (hi_db (run m)) = Some (hi_pool (run (Suc m)), hi_db (run (Suc m)))"
        and "hi_replied (run (Suc m)) = hi_replied (run m)"
      using m(2) True by (auto simp: worker_moves_def worker_pop_def Let_def split: if_splits)
    from covered_finish(1) [OF this here] m(1) show ?thesis by (meson Suc_leD le_SucI)
  next
    case False
    then have "running_in (I - {i}) (dd_workers (hi_pool (run m))) = running_in I (dd_workers (hi_pool (run m)))"
      by (intro running_in_remove) auto
    with here have "covered A (I - {i}) 0 (run m)" by (simp add: covered_def)
    with m(1) show ?thesis by blast
  qed
qed

lemma workers_stage:
  assumes fair: "fair_run my pf run" and hist: "program_history my pf config db0 (run 0)"
    and "covered A UNIV 0 (run n)"
  shows "\<exists>m \<ge> n. covered A (- {..<k}) 0 (run m)"
proof (induction k)
  case 0
  show ?case using assms(3) by auto
next
  case (Suc k)
  then obtain m where m: "n \<le> m" "covered A (- {..<k}) 0 (run m)" by blast
  have "- {..<k} - {k} = - {..<Suc k}" by auto
  with worker_stage [OF fair hist m(2), of k] m(1) show ?case by (metis order_trans)
qed

lemma event_stage:
  assumes fair: "fair_run my pf run" and hist: "program_history my pf config db0 (run 0)"
    and "covered A (- {..<unat (db_pool_size (app_database config))}) 0 (run n)"
  shows "\<exists>m \<ge> n. A \<subseteq># mset (hi_replied (run m))"
proof -
  obtain m where m: "n \<le> m" "dd_event_count (hi_pool (run m)) = 0 \<or>
      history_step my pf (run m) (run (Suc m)) \<and> event_handled pf (hi_server (run m)) (hi_server (run (Suc m)))"
    using fair unfolding fair_run_def by blast
  note pool = history_pool [OF fair_history [OF fair hist, of m]]
  have "covered A (- {..<unat (db_pool_size (app_database config))}) 0 (run m)"
    by (rule fair_covered [OF fair hist _ assms(3) m(1)]) simp
  moreover have "{i \<in> - {..<unat (db_pool_size (app_database config))}. i < length (dd_workers (hi_pool (run m)))} = {}"
    using pool(4) by auto
  ultimately have here: "A \<subseteq># mset (hi_replied (run m)) + mset (map completion_key (dd_completions (hi_pool (run m))))"
    by (simp only: covered_def running_in_def) simp
  show ?thesis
  proof (cases "dd_completions (hi_pool (run m)) = []")
    case True
    then show ?thesis using here m(1) by auto
  next
    case False
    then have "0 < dd_event_count (hi_pool (run m))" using pool(3) by (simp add: wake_inv_def)
    then have step: "history_step my pf (run m) (run (Suc m))"
        and event: "event_handled pf (hi_server (run m)) (hi_server (run (Suc m)))"
      using m(2) by auto
    note all = event_takes_all [OF event]
    from step have "hi_replied (run (Suc m)) =
        hi_replied (run m) @ map completion_key (dd_completions (hi_pool (run m)))"
    proof cases
      case (loop sv')
      then show ?thesis using all by simp
    next
      case (work d db')
      from work(2) have "length (dd_completions (hi_pool (run m))) \<le> length (dd_completions d)"
        by (cases rule: worker_step_cases)
          (auto elim!: finish_worker pop_worker [OF _ pool(1)])
      then have "taken_completions (hi_server (run m)) (hi_server (run (Suc m))) = []"
        using work(1) by (simp add: taken_completions_def)
      then show ?thesis using all False by simp
    qed
    then show ?thesis using here m(1) by (intro exI [of _ "Suc m"]) simp
  qed
qed

section \<open>A fair run\<close>

text \<open>A run that comes to rest is fair when nothing is left to do.\<close>

lemma resting_run_fair:
  assumes "(history_step my pf)\<^sup>*\<^sup>* h h'" and "\<And>i. \<not> worker_enabled i (hi_pool h')"
    and "dd_event_count (hi_pool h') = 0"
  obtains run k where "fair_run my pf run" and "run 0 = h" and "\<And>n. k \<le> n \<Longrightarrow> run n = h'"
proof -
  obtain k f where f: "f 0 = h" "f k = h'" "\<And>n. n < k \<Longrightarrow> history_step my pf (f n) (f (Suc n))"
    using assms(1) by (auto simp: rtranclp_power relpowp_fun_conv)
  define run where "run n = f (min n k)" for n
  have late: "run n = h'" if "k \<le> n" for n using that f(2) by (simp add: run_def)
  have "fair_run my pf run"
    unfolding fair_run_def
  proof (intro conjI allI)
    show "run (Suc n) = run n \<or> history_step my pf (run n) (run (Suc n))" for n
      using f(3) [of n] by (cases "n < k") (simp_all add: run_def)
    show "\<exists>m \<ge> n. \<not> worker_enabled i (hi_pool (run m)) \<or> worker_moves my i (run m) (run (Suc m))" for i n
      using late [of "max n k"] assms(2) by (intro exI [of _ "max n k"]) simp
    show "\<exists>m \<ge> n. dd_event_count (hi_pool (run m)) = 0 \<or> history_step my pf (run m) (run (Suc m)) \<and>
        event_handled pf (hi_server (run m)) (hi_server (run (Suc m)))" for n
      using late [of "max n k"] assms(3) by (intro exI [of _ "max n k"]) simp
  qed
  moreover have "run 0 = h" using f(1) by (simp add: run_def)
  ultimately show ?thesis using late by (rule that)
qed

lemma anna_pool_rests:
  obtains d1 d2 where "worker_pop 0 (sv_database (demo_entered [] demo_busy)) = Some d1"
    and "worker_finish engine_mysql 0 d1 (anna_engine []) = Some (d2, anna_written)"
    and "bq_queue (dd_jobs d2) = []" and "\<not> bq_closed (dd_jobs d2)" and "\<forall>w \<in> set (dd_workers d2). wk_job w = None"
    and "dd_completions d2 = [ok_completion demo_save ''OK SAVE_POSITION account=anna character=main x=120 y=80'']"
proof -
  let ?d = "sv_database (demo_entered [] demo_busy)"
  have "replicate 4 fresh_worker = fresh_worker # replicate 3 fresh_worker" by (simp add: numeral_eq_Suc)
  then have ws: "dd_workers ?d = fresh_worker # replicate 3 fresh_worker" and config: "dd_config ?d = default_database_config"
      and queue: "dd_jobs ?d = bq_empty\<lparr>bq_queue := [demo_save]\<rparr>" and comp: "dd_completions ?d = []"
    by (auto simp: demo_entered_def submit_def dispatcher_start_def dispatcher_new_def bq_push_def
        bq_empty_def default_database_config_def)
  let ?d1 = "?d\<lparr>dd_jobs := bq_empty, dd_workers := fresh_worker\<lparr>wk_job := Some demo_save\<rparr> # replicate 3 fresh_worker\<rparr>"
  let ?d2 = "push_completion (ok_completion demo_save ''OK SAVE_POSITION account=anna character=main x=120 y=80'')
    (?d1\<lparr>dd_workers := fresh_worker\<lparr>wk_connected := True\<rparr> # replicate 3 fresh_worker\<rparr>)"
  have "worker_pop 0 ?d = Some ?d1"
    by (simp add: worker_pop_def ws queue bq_pop_def bq_empty_def fresh_worker_def)
  moreover have "worker_finish engine_mysql 0 ?d1 (anna_engine []) = Some (?d2, anna_written)"
    using anna_saves by (simp add: worker_finish_def config fresh_worker_def)
  moreover have "\<forall>w \<in> set (dd_workers ?d2). wk_job w = None"
    by (auto simp: push_completion_def fresh_worker_def)
  ultimately show ?thesis
    using that [of ?d1 ?d2] comp by (simp add: push_completion_def bq_empty_def)
qed

text \<open>The completion of a job that wants no answer is only taken.\<close>

lemma silent_event:
  assumes "dd_completions (sv_database sv) = [c]" and "dc_ok c" and "\<not> dc_notify_client c" and "roomy pf sv"
  shows "\<exists>sv'. on_database_event pf sv = Inr sv' \<and>
    sv_database sv' = (event_read (sv_database sv))\<lparr>dd_completions := []\<rparr>"
proof -
  let ?d = "event_read (sv_database sv)"
  let ?sv1 = "sv\<lparr>sv_database := ?d\<lparr>dd_completions := []\<rparr>\<rparr>"
  have "drain_completions pf ?sv1 = Inr ?sv1"
    by (simp add: drain_completions.simps [of pf ?sv1] pop_completion_def)
  then have drained: "drain_completions pf (sv\<lparr>sv_database := ?d\<rparr>) = Inr ?sv1"
    using assms(1-3)
    by (subst drain_completions.simps) (simp add: pop_completion_def on_completion_def event_read_def)
  have "roomy pf ?sv1" using roomy_cong [OF assms(4)] by simp
  then obtain sv2 where posted: "push_sqe pf poll_token ?sv1 = Inr sv2"
    using push_room [of pf ?sv1 poll_token] by (auto simp: returns_iff)
  then have "sv_database sv2 = sv_database ?sv1" by (auto elim!: push_sqe_cases)
  then show ?thesis
    using drained posted by (auto simp: on_database_event_def post_eventfd_poll_def poll_token_def)
qed

section \<open>The property\<close>



end
