(* ===== verification/Job_Types.thy ===== *)
theory Job_Types
  imports Game_Store Server_Demo
begin

text \<open>
  The types of jobs. A job is a bag of strings; what a worker may expect of them is fixed by its operation:
  \<open>job_typed\<close> says how many there are and which are numbers. The parser and the saves of positions submit only typed jobs
  (preservation), and a typed job fails in a worker only for a reason of the database or for
  a number that does not fit 64 bits (progress): never for a missing argument or a text that is no number.
\<close>

section \<open>Typed jobs\<close>

definition job_typed :: "db_job \<Rightarrow> bool" where
  "job_typed job \<longleftrightarrow> (case job_operation job of
     DbRegisterPlayer \<Rightarrow> length (job_args job) = 2
   | DbLoginPlayer \<Rightarrow> length (job_args job) = 1
   | DbSaveCharacter \<Rightarrow> (\<exists>account character level gold. job_args job = [account, character, level, gold] \<and>
       is_unsigned_number level \<and> is_unsigned_number gold)
   | DbLoadCharacters \<Rightarrow> length (job_args job) = 1
   | DbSaveInventoryItem \<Rightarrow> (\<exists>account slot item count. job_args job = [account, slot, item, count] \<and>
       is_unsigned_number slot \<and> is_unsigned_number item \<and> is_unsigned_number count)
   | DbLoadInventory \<Rightarrow> length (job_args job) = 1
   | DbSavePosition \<Rightarrow> (\<exists>account character x y. job_args job = [account, character, to_string_int x, to_string_int y] \<and>
       in_i32 x \<and> in_i32 y))"

definition pool_jobs :: "dispatcher \<Rightarrow> db_job set" where
  "pool_jobs d = set (bq_queue (dd_jobs d)) \<union> {j. \<exists>w \<in> set (dd_workers d). wk_job w = Some j}"

definition jobs_ok :: "server \<Rightarrow> bool" where
  "jobs_ok sv \<longleftrightarrow> (\<forall>j \<in> pool_jobs (sv_database sv). job_typed j)"

lemma typed_request:
  assumes "valid_request req" and "operation_for (req_type req) = Inr operation"
    and "job_operation job = operation" and "job_args job = req_args req"
  shows "job_typed job"
  using assms by (auto simp: valid_request_def operation_for_def job_typed_def elim!: args_allowed.elims)

section \<open>Preservation\<close>

lemma jobs_ok_cong: "jobs_ok sv \<Longrightarrow> sv_database sv' = sv_database sv \<Longrightarrow> jobs_ok sv'"
  by (simp add: jobs_ok_def)

lemma jobs_ok_submit: "jobs_ok sv \<Longrightarrow> job_typed job \<Longrightarrow> jobs_ok (submit_job job sv)"
  by (auto simp: jobs_ok_def pool_jobs_def submit_job_def submit_def bq_push_def)

lemma jobs_ok_save:
  "jobs_ok sv \<Longrightarrow> in_i32 x \<Longrightarrow> in_i32 y \<Longrightarrow> jobs_ok (submit_position_save fd generation account character x y sv)"
  unfolding submit_position_save_def
  by (rule jobs_ok_submit) (auto simp: job_typed_def intro: jobs_ok_cong)

lemma jobs_ok_update: "jobs_ok sv \<Longrightarrow> jobs_ok (update_session fd f sv)"
  by (erule jobs_ok_cong) (simp add: update_session_def)

lemma jobs_ok_push: "jobs_ok sv \<Longrightarrow> ensures (push_sqe pf token sv) jobs_ok"
  by (auto simp: ensures_iff elim!: push_sqe_cases intro: jobs_ok_cong)

lemma jobs_ok_post_send:
  assumes "jobs_ok sv"
  shows "ensures (post_send pf fd sv) jobs_ok"
  unfolding ensures_iff
proof (intro allI impI)
  fix sv' assume "post_send pf fd sv = Inr sv'"
  then show "jobs_ok sv'" by (cases rule: post_send_cases) (auto intro: jobs_ok_cong [OF assms])
qed

lemma jobs_ok_respond:
  assumes "jobs_ok sv"
  shows "ensures (queue_response pf fd generation line sv) jobs_ok"
  unfolding ensures_iff
proof (intro allI impI)
  fix sv' assume "queue_response pf fd generation line sv = Inr sv'"
  then show "jobs_ok sv'" by (cases rule: queue_response_cases) (auto intro: jobs_ok_cong [OF assms])
qed

lemma jobs_ok_farewell: "jobs_ok sv \<Longrightarrow> ensures (farewell pf fd generation line sv) jobs_ok"
  unfolding farewell_def
  by (rule ensures_bind, rule ensures_mono [OF jobs_ok_respond]) (auto intro: jobs_ok_update)

lemma jobs_ok_deliver: "jobs_ok sv \<Longrightarrow> ensures (deliver_world_events pf events sv) jobs_ok"
  unfolding deliver_world_events_def by (rule ensures_fold_result) (auto intro: jobs_ok_respond)

lemma jobs_ok_deliver_in: "jobs_ok sv \<Longrightarrow> ensures (deliver_world_events pf events (sv\<lparr>sv_world := w\<rparr>)) jobs_ok"
  by (rule jobs_ok_deliver) (erule jobs_ok_cong, simp)

lemma jobs_ok_leave:
  assumes "jobs_ok sv" and wi: "world_inv (sv_world sv)" and ord: "valid_order (pf_order pf)"
  shows "ensures (leave_and_save pf fd generation sv) jobs_ok"
proof -
  let ?ref = "\<lparr>sr_fd = fd, sr_generation = generation\<rparr>"
  let ?snap = "case players (sv_world sv) ?ref of None \<Rightarrow> no_snapshot | Some p \<Rightarrow> snapshot_of p"
  obtain events where leave: "world_leave (pf_order pf) (sv_world sv) ?ref no_snapshot =
      Inr (left_world (sv_world sv) ?ref, events, ?snap)"
    using leave_any [OF wi ord] by blast
  have coords: "in_i32 (snap_x ?snap) \<and> in_i32 (snap_y ?snap)" if "snap_account ?snap \<noteq> ''''"
  proof (cases "players (sv_world sv) ?ref")
    case None
    then show ?thesis using that by (simp add: no_snapshot_def)
  next
    case (Some p)
    then have "coords_ok (sv_world sv) (ps_x p) (ps_y p)"
      using world_inv_player [OF wi] by (simp add: player_ok_def)
    then show ?thesis using Some coords_ok_in_i32 by (simp add: snapshot_of_def)
  qed
  show ?thesis
    unfolding leave_and_save_def leave bind_result.simps prod.case
    by (rule ensures_bind, rule ensures_mono [OF jobs_ok_deliver_in [OF assms(1)]])
      (use coords in \<open>auto intro: jobs_ok_save\<close>)
qed

lemma jobs_ok_world_operation:
  "jobs_ok sv \<Longrightarrow> ensures (bind_result r (\<lambda>(w, events). deliver_world_events pf events (sv\<lparr>sv_world := w\<rparr>))) jobs_ok"
  by (cases r) (auto intro: jobs_ok_deliver_in)

lemma jobs_ok_enter:
  assumes "jobs_ok sv"
  shows "ensures (handle_enter pf fd generation args sv) jobs_ok"
proof -
  have step: "ensures (bind_result r (\<lambda>(world, events).
      bind_result (deliver_world_events pf events (sv\<lparr>sv_world := world\<rparr>)) (\<lambda>sv1.
      Inr (submit_position_save fd generation account character x y sv1)))) jobs_ok"
    if "in_i32 x" "in_i32 y" for r account character x y
  proof (cases r)
    case (Inr p)
    obtain w events where p: "p = (w, events)" by (cases p)
    have "ensures (bind_result (deliver_world_events pf events (sv\<lparr>sv_world := w\<rparr>)) (\<lambda>sv1.
        Inr (submit_position_save fd generation account character x y sv1))) jobs_ok"
      by (rule ensures_bind, rule ensures_mono [OF jobs_ok_deliver_in [OF assms]])
        (use that in \<open>auto intro: jobs_ok_save\<close>)
    then show ?thesis by (simp add: Inr p)
  qed simp
  show ?thesis
    unfolding handle_enter_def by (intro ensures_lift_bind step) (auto dest: stoi_at_range)
qed

lemma jobs_ok_database:
  assumes "jobs_ok sv" and "valid_request req"
  shows "ensures (handle_database pf fd generation req sv) jobs_ok"
  unfolding handle_database_def Let_def
proof (intro ensures_lift_bind, rule ensures_bind, rule ensures_mono [OF jobs_ok_respond])
  show "jobs_ok (update_session fd (s_pending_db_update (\<lambda>n. n + 1)) (sv\<lparr>sv_next_request_id := n\<rparr>))" for n
    using assms(1) by (intro jobs_ok_update) (erule jobs_ok_cong, simp)
qed (use typed_request [OF assms(2)] in \<open>auto intro!: jobs_ok_submit\<close>)

lemma jobs_ok_line:
  assumes "jobs_ok sv" and "world_inv (sv_world sv)" and "valid_order (pf_order pf)"
  shows "ensures (handle_client_line pf fd generation line sv) jobs_ok"
proof -
  have quit: "ensures (handle_quit pf fd generation sv) jobs_ok"
    unfolding handle_quit_def
    by (rule ensures_bind, rule ensures_mono [OF jobs_ok_leave [OF assms]], rule jobs_ok_farewell)
  have move: "ensures (handle_move pf fd generation args sv) jobs_ok"
    and attack: "ensures (handle_attack pf fd generation args sv) jobs_ok" for args
    unfolding handle_move_def handle_attack_def
    using assms(1) by (intro ensures_lift_bind jobs_ok_world_operation; simp)+
  show ?thesis
    unfolding handle_client_line_def Let_def
    using quit move attack jobs_ok_enter [OF assms(1)] jobs_ok_database [OF assms(1) ok_valid] jobs_ok_respond [OF assms(1)]
    by (simp split: command_type.split)
qed

lemma jobs_ok_close:
  assumes "jobs_ok sv" and "world_ok sv" and "valid_order (pf_order pf)"
  shows "ensures (close_session pf fd sv) jobs_ok"
proof -
  have "ensures (bind_result (if sv_stopping sv then Inr sv else leave_and_save pf fd' g sv)
      (\<lambda>sv1. Inr (sv1\<lparr>sv_closed := sv_closed sv1 @ [fd'], sv_sessions := (sv_sessions sv1)(fd := None)\<rparr>))) jobs_ok"
    for fd' g
  proof (rule ensures_bind, rule ensures_mono)
    show "ensures (if sv_stopping sv then Inr sv else leave_and_save pf fd' g sv) jobs_ok"
      using assms jobs_ok_leave [OF assms(1) _ assms(3)] by (simp add: world_ok_def)
  qed (auto intro: jobs_ok_cong)
  then show ?thesis using assms(1) by (simp add: close_session_def split: option.split)
qed

lemma jobs_ok_maybe_close:
  assumes "jobs_ok sv" and "world_ok sv" and "valid_order (pf_order pf)"
  shows "ensures (maybe_close_after_flush pf fd sv) jobs_ok"
  using assms(1) jobs_ok_close [OF assms] by (simp add: maybe_close_after_flush_def split: option.split)

text \<open>The handlers.\<close>

lemma jobs_ok_process_lines:
  assumes "server_inv S (Some fd) sv" and "world_ok sv" and ord: "valid_order (pf_order pf)" and "jobs_ok sv"
    and matches: "session_matches sv fd generation"
  shows "ensures (process_lines pf fd generation sv) jobs_ok"
proof -
  let ?I = "\<lambda>sv'. server_inv S (Some fd) sv' \<and> world_ok sv' \<and> jobs_ok sv'"
  have "ensures (process_lines pf fd generation sv) ?I"
  proof (rule process_lines_rule [OF _ _ _ _ matches])
    show "?I (update_session fd (s_input_update f) sv1)" if "?I sv1" for sv1 f
      using that tells_inv [OF tells_input, of S "Some fd" sv1] world_ok_update [of sv1 "s_input_update f" fd]
        jobs_ok_update by simp
    show "ensures (handle_client_line pf fd generation line sv1) ?I"
      if I: "?I sv1" and m: "session_matches sv1 fd generation" for sv1 line
      unfolding ensures_iff
    proof (intro allI impI)
      fix sv2 assume h: "handle_client_line pf fd generation line sv1 = Inr sv2"
      have "keeps S (Some fd) sv1 sv2" using ensuresD [OF keeps.client_line [OF m] h] .
      moreover have "joins sv1 sv2" using ensuresD [OF joins_line h] I ord m by blast
      moreover have "jobs_ok sv2" using ensuresD [OF jobs_ok_line h] I ord by (simp add: world_ok_def)
      ultimately show "?I sv2" using I unfolding keeps_def joins_def by blast
    qed
  qed (use assms in \<open>auto intro: server_inv_key\<close>)
  then show ?thesis by (rule ensures_mono) blast
qed

lemma jobs_ok_recv:
  assumes inv: "server_inv {} None sv" and tok: "token \<in> set (ring_inflight (sv_ring sv))"
    and type: "t_type token = KRecv" and ok: "world_ok sv" and ord: "valid_order (pf_order pf)" and jobs: "jobs_ok sv"
  shows "ensures (on_recv pf token result data (take_token token sv)) jobs_ok"
proof -
  let ?fd = "t_fd token" and ?g = "t_generation token" and ?sv0 = "take_token token sv"
  let ?sv1 = "update_session ?fd (s_input_update (\<lambda>input. input @ data)) ?sv0"
  have ok0: "world_ok ?sv0" using ok by (rule world_ok_cong) simp_all
  have jobs0: "jobs_ok ?sv0" using jobs by (rule jobs_ok_cong) simp
  have last: "ensures (bind_result (if too_long sv2 ?fd
        then farewell pf ?fd ?g ''ERR line too long'' sv2 else Inr sv2) (\<lambda>sv3.
        if \<not> is_closing sv3 ?fd then post_recv pf ?fd ?g sv3
        else maybe_close_after_flush pf ?fd sv3)) jobs_ok" if "world_ok sv2" "jobs_ok sv2" for sv2
  proof (rule ensures_bind, rule ensures_mono)
    show "ensures (if too_long sv2 ?fd then farewell pf ?fd ?g ''ERR line too long'' sv2 else Inr sv2)
        (\<lambda>sv3. world_ok sv3 \<and> jobs_ok sv3)"
    proof (cases "too_long sv2 ?fd")
      case True
      then show ?thesis
        by simp (rule ensures_mono [OF ensures_conj [OF joins_farewell [OF that(1)] jobs_ok_farewell [OF that(2)]]],
          simp add: joins_def)
    qed (use that in simp)
  qed (auto simp: post_recv_def intro: jobs_ok_push jobs_ok_maybe_close [OF _ _ ord])
  show ?thesis
  proof (cases "session_matches sv ?fd ?g \<and> 0 < result")
    case False
    then show ?thesis using jobs0 jobs_ok_close [OF jobs0 ok0 ord] by (auto simp: on_recv_def Let_def)
  next
    case True
    have inv1: "server_inv {} (Some ?fd) ?sv1"
      using take_recv [OF inv tok type] True tells_inv [OF tells_input] by blast
    have ok1: "world_ok ?sv1" using ok0 by (rule world_ok_update) simp
    have m1: "session_matches ?sv1 ?fd ?g" using True by (simp add: matches_update)
    have eq: "on_recv pf token result data ?sv0 =
        bind_result (process_lines pf ?fd ?g ?sv1) (\<lambda>sv2.
          if \<not> session_matches sv2 ?fd ?g then Inr sv2
          else bind_result (if too_long sv2 ?fd
            then farewell pf ?fd ?g ''ERR line too long'' sv2 else Inr sv2) (\<lambda>sv3.
            if \<not> is_closing sv3 ?fd then post_recv pf ?fd ?g sv3
            else maybe_close_after_flush pf ?fd sv3))"
      using True by (simp add: on_recv_def Let_def)
    have rest: "ensures (if \<not> session_matches sv2 ?fd ?g then Inr sv2
          else bind_result (if too_long sv2 ?fd
            then farewell pf ?fd ?g ''ERR line too long'' sv2 else Inr sv2) (\<lambda>sv3.
            if \<not> is_closing sv3 ?fd then post_recv pf ?fd ?g sv3
            else maybe_close_after_flush pf ?fd sv3)) jobs_ok" if "world_ok sv2" "jobs_ok sv2" for sv2
    proof (cases "session_matches sv2 ?fd ?g")
      case True
      with last [OF that] show ?thesis by (simp only: not_True_eq_False if_False)
    qed (use that in simp)
    show ?thesis
      unfolding eq
      by (rule ensures_bind, rule ensures_mono [OF ensures_conj [OF process_lines_world [OF inv1 ok1 ord m1]
            jobs_ok_process_lines [OF inv1 ok1 ord jobs_ok_update [OF jobs0] m1]]]) (elim conjE, rule rest)
  qed
qed

lemma jobs_ok_send:
  assumes ok: "world_ok sv" and ord: "valid_order (pf_order pf)" and jobs: "jobs_ok sv"
  shows "ensures (on_send pf token result sv) jobs_ok"
proof -
  let ?fd = "t_fd token"
  have good: "world_ok (update_session fd f sv1) \<and> jobs_ok (update_session fd f sv1)"
    if "world_ok sv1 \<and> jobs_ok sv1" and "\<And>s. s_generation (f s) = s_generation s" for fd f sv1
    using that world_ok_update [of sv1 f fd] jobs_ok_update [of sv1 fd f] by simp
  have sent: "ensures (post_send pf fd sv1) (\<lambda>sv2. world_ok sv2 \<and> jobs_ok sv2)"
    if "world_ok sv1 \<and> jobs_ok sv1" for fd sv1
  proof (rule ensures_conj [OF _ jobs_ok_post_send], unfold ensures_iff, intro allI impI)
    fix sv2 assume p: "post_send pf fd sv1 = Inr sv2"
    then show "world_ok sv2"
    proof (cases rule: post_send_cases)
      case (posted s r)
      have "world_ok (update_session fd (s_write_in_flight_update (\<lambda>_. True)) sv1)" using good that by simp
      then show ?thesis by (rule world_ok_cong) (simp_all add: posted update_session_def)
    qed (use that in simp_all)
  qed (use that in simp)
  have "ensures (bind_result (post_send pf ?fd sv1) (maybe_close_after_flush pf ?fd)) jobs_ok"
    if "world_ok sv1 \<and> jobs_ok sv1" for sv1
    by (rule ensures_bind, rule ensures_mono [OF sent [OF that]]) (auto intro: jobs_ok_maybe_close [OF _ _ ord])
  moreover have "ensures (close_session pf ?fd sv1) jobs_ok" if "world_ok sv1 \<and> jobs_ok sv1" for sv1
    using that by (intro jobs_ok_close [OF _ _ ord]) simp_all
  ultimately show ?thesis using ok jobs good by (simp add: on_send_def Let_def)
qed

lemma jobs_ok_accept:
  assumes "jobs_ok sv"
  shows "ensures (on_accept pf result sv) jobs_ok"
proof -
  have "jobs_ok (add_session s (sv\<lparr>sv_next_session_generation := g\<rparr>))" for s g
    using assms by (rule jobs_ok_cong) (simp add: add_session_def split: option.split)
  note added = this
  have "ensures (open_session pf fd sv) jobs_ok" for fd
    unfolding open_session_def Let_def post_recv_def
    by (rule ensures_bind, rule ensures_mono [OF jobs_ok_respond [OF added]]) (rule jobs_ok_push)
  moreover have "jobs_ok (sv\<lparr>sv_log := l\<rparr>)" for l using assms by (rule jobs_ok_cong) simp
  ultimately have "ensures (if 0 \<le> result then open_session pf result sv
       else if result \<noteq> - ECANCELED \<and> result \<noteq> - EINVAL
       then Inr (sv\<lparr>sv_log := sv_log sv @ [''accept failed: '' @ pf_strerror pf (- result)]\<rparr>)
       else Inr sv) jobs_ok" using assms by auto
  then show ?thesis
    unfolding on_accept_def post_accept_def
    by (intro ensures_bind, elim ensures_mono) (simp add: jobs_ok_push)
qed

lemma jobs_ok_completion:
  assumes ok: "world_ok sv" and ord: "valid_order (pf_order pf)" and jobs: "jobs_ok sv"
  shows "ensures (on_completion pf completion sv) jobs_ok"
proof -
  have "ensures (bind_result (queue_response pf fd g line (update_session fd (s_pending_db_update f) sv))
      (maybe_close_after_flush pf fd)) jobs_ok" for fd g line f
  proof (rule ensures_bind, rule ensures_mono)
    let ?sv0 = "update_session fd (s_pending_db_update f) sv"
    have ok0: "world_ok ?sv0" using ok by (rule world_ok_update) simp
    show "ensures (queue_response pf fd g line ?sv0) (\<lambda>sv1. world_ok sv1 \<and> jobs_ok sv1)"
      by (rule ensures_mono [OF ensures_conj [OF joins_respond [OF ok0] jobs_ok_respond [OF jobs_ok_update [OF jobs]]]])
        (simp add: joins_def)
  qed (auto intro: jobs_ok_maybe_close [OF _ _ ord])
  moreover have "jobs_ok (sv\<lparr>sv_log := l\<rparr>)" for l using jobs by (rule jobs_ok_cong) simp
  ultimately show ?thesis using jobs by (auto simp: on_completion_def Let_def)
qed

lemma jobs_ok_drain:
  assumes "server_inv {} None sv" and "world_ok sv" and ord: "valid_order (pf_order pf)" and "\<not> sv_stopping sv"
    and "jobs_ok sv"
  shows "ensures (drain_completions pf sv) jobs_ok"
  using assms(1,2,4,5)
proof (induction "length (dd_completions (sv_database sv))" arbitrary: sv rule: less_induct)
  case less
  obtain popped database where pop: "pop_completion (sv_database sv) = (popped, database)"
    by (cases "pop_completion (sv_database sv)") auto
  show ?case
  proof (cases popped)
    case None
    then show ?thesis using less.prems by (simp add: drain_completions.simps [of pf sv] pop)
  next
    case (Some completion)
    let ?sv0 = "sv\<lparr>sv_database := database\<rparr>"
    have inv0: "server_inv {} None ?sv0" using tells_database less.prems(1) by (rule tells_inv)
    have ok0: "world_ok ?sv0" using less.prems(2) by (rule world_ok_cong) simp_all
    have run0: "\<not> sv_stopping ?sv0" using less.prems(3) by simp
    have shorter: "length (dd_completions database) < length (dd_completions (sv_database sv))"
      and "pool_jobs database = pool_jobs (sv_database sv)"
      using pop Some by (auto simp: pop_completion_def pool_jobs_def split: list.splits)
    then have jobs0: "jobs_ok ?sv0" using less.prems(4) by (simp add: jobs_ok_def)
    have "ensures (drain_completions pf sv1) jobs_ok"
      if c: "on_completion pf completion ?sv0 = Inr sv1" for sv1
    proof (rule less.hyps)
      show "length (dd_completions (sv_database sv1)) < length (dd_completions (sv_database sv))"
        using ensuresD [OF on_completion_keeps c] shorter by simp
      have t: "tells {} None {} None ?sv0 sv1" using ensuresD [OF on_completion_ok c] .
      show "server_inv {} None sv1" using t inv0 by (rule tells_inv)
      show "\<not> sv_stopping sv1" using t run0 by (simp add: tells_def)
      show "world_ok sv1" using ensuresD [OF on_completion_world [OF inv0 ok0 ord run0] c] .
      show "jobs_ok sv1" using ensuresD [OF jobs_ok_completion [OF ok0 ord jobs0] c] .
    qed
    then show ?thesis
      by (auto simp: drain_completions.simps [of pf sv] pop Some intro!: ensures_bind
          simp: ensures_iff [of "on_completion _ _ _"])
  qed
qed

lemma jobs_ok_database_event:
  assumes "server_inv {} None sv" and "world_ok sv" and "valid_order (pf_order pf)" and "\<not> sv_stopping sv" and "jobs_ok sv"
  shows "ensures (on_database_event pf sv) jobs_ok"
proof -
  let ?sv0 = "sv\<lparr>sv_database := event_read (sv_database sv)\<rparr>"
  have "jobs_ok ?sv0" using assms(5) by (simp add: jobs_ok_def pool_jobs_def event_read_def)
  then have "ensures (drain_completions pf ?sv0) jobs_ok"
    by (intro jobs_ok_drain) (use assms tells_inv [OF tells_database] world_ok_cong [OF assms(2)] in auto)
  then show ?thesis
    unfolding on_database_event_def post_eventfd_poll_def
    by (intro ensures_bind, elim ensures_mono) (simp add: jobs_ok_push)
qed

section \<open>Every reachable state\<close>

lemma jobs_ok_loop_step:
  assumes "loop_step pf sv sv'" and "server_ok sv" and ord: "valid_order (pf_order pf)" and jobs: "jobs_ok sv"
  shows "jobs_ok sv'"
proof -
  have inv: "loop_inv sv" "server_inv {} None sv" "\<not> sv_stopping sv" and ok: "world_ok sv"
    using assms(2) by (simp_all add: server_ok_def loop_inv_def)
  have ok0: "world_ok (take_token token sv)" and jobs0: "jobs_ok (take_token token sv)" for token
    using ok jobs by (auto intro: world_ok_cong jobs_ok_cong)
  from assms(1) show ?thesis
  proof (cases rule: loop_step_cases)
    case (submitted n)
    then show ?thesis using jobs by (auto intro: jobs_ok_cong)
  next
    case (accepted token result)
    then show ?thesis using ensuresD [OF jobs_ok_accept [OF jobs0]] by blast
  next
    case (received token result data)
    then show ?thesis using ensuresD [OF jobs_ok_recv [OF inv(2) _ _ ok ord jobs]] by blast
  next
    case (sent token result)
    then show ?thesis using ensuresD [OF jobs_ok_send [OF ok0 ord jobs0]] by blast
  next
    case (database token)
    have "server_inv {} None (take_token token sv)"
      using database(2) by (intro take_other [OF inv(2) database(1)]) auto
    then show ?thesis
      using ensuresD [OF jobs_ok_database_event [OF _ ok0 ord _ jobs0] database(3)] inv(3) by simp
  qed
qed

lemma pool_jobs_worker_step:
  assumes "worker_step my (d, db) (d', db')"
  shows "pool_jobs d' \<subseteq> pool_jobs d"
  using assms
proof (cases rule: worker_step_cases)
  case (pop i)
  from pop(1) show ?thesis by (cases rule: worker_pop_cases) (auto simp: pool_jobs_def)
next
  case (finish i)
  from finish(1) show ?thesis by (cases rule: worker_finish_cases) (auto simp: pool_jobs_def push_completion_def)
qed

lemma reachable_jobs_ok:
  assumes "reachable my pf config db0 s" and ord: "valid_order (pf_order pf)"
  shows "jobs_ok (fst s)"
  using assms(1)
proof induction
  case (start listen_fd entries sv)
  then obtain sv0 where "run_begin pf listen_fd entries sv0 = Inr sv"
      and d: "sv_database sv0 = dispatcher_start (dispatcher_new (app_database config))"
    by (auto simp: program_start_def bind_result_Inr_iff server_new_def)
  then have "sv_database sv = sv_database sv0"
    by (auto simp: run_begin_def post_accept_def post_eventfd_poll_def bind_result_Inr_iff elim!: push_sqe_cases)
  then show ?case
    by (simp add: d jobs_ok_def pool_jobs_def dispatcher_start_def dispatcher_new_def bq_empty_def fresh_worker_def)
next
  case (step s s')
  from step(2) show ?case
  proof cases
    case (loop sv sv' db)
    then show ?thesis
      using jobs_ok_loop_step [OF loop(3) _ ord] reachable_ok [OF step(1) ord] step.IH by (simp add: system_ok_def)
  next
    case (work sv db d db')
    then show ?thesis using pool_jobs_worker_step [OF work(3)] step.IH by (auto simp: jobs_ok_def)
  qed
qed

section \<open>Progress\<close>

lemma stou_unsigned:
  assumes "is_unsigned_number str"
  shows "stou name str = (if nat_val str < 2 ^ 64 then Inr (of_nat (nat_val str)) else Inl (Out_Of_Range name))"
proof -
  have "str \<noteq> []" "\<forall>c \<in> set str. is_digit c" using assms by (auto simp: is_unsigned_number_def list_all_iff)
  then show ?thesis using numeral_prefix_digits [of str] by (simp add: stou_def)
qed

definition fails_only :: "(exn \<Rightarrow> bool) \<Rightarrow> ('db, 'a) db_op \<Rightarrow> bool" where
  "fails_only F m \<longleftrightarrow> (\<forall>db e db'. m db = (Inl e, db') \<longrightarrow> F e)"

lemma fails_only_bind: "fails_only F m \<Longrightarrow> (\<And>x. fails_only F (f x)) \<Longrightarrow> fails_only F (db_bind m f)"
  by (fastforce simp: fails_only_def db_bind_def split: prod.splits sum.splits)

lemma fails_only_return: "fails_only F (db_return x)"
  by (simp add: fails_only_def db_return_def)

lemma fails_only_result: "(\<And>e. r = Inl e \<Longrightarrow> F e) \<Longrightarrow> fails_only F (db_result r)"
  by (simp add: fails_only_def db_result_def)

lemma fails_only_rollback: "fails_only F m \<Longrightarrow> fails_only F (with_rollback my m)"
  by (auto simp: fails_only_def with_rollback_def split: prod.splits sum.splits)

text \<open>What the database reports is a \<open>std::runtime_error\<close>.\<close>

definition runtime :: "exn \<Rightarrow> bool" where
  "runtime e \<longleftrightarrow> (\<exists>m. e = Runtime_Error m)"

lemma runtime_simp [simp]: "runtime (Runtime_Error m)"
  by (simp add: runtime_def)

lemma runtime_check: "fails_only runtime (db_check call context)"
  by (auto simp: fails_only_def db_check_def split: option.splits)

lemma runtime_execute: "fails_only runtime (stmt_execute my sql params)"
  by (auto simp: fails_only_def stmt_execute_def split: prod.splits sum.splits)

lemma runtime_exec: "fails_only runtime (sql_exec my sql)"
  by (auto simp: fails_only_def sql_exec_def split: prod.splits option.splits)

lemma runtime_scope:
  assumes "fails_only runtime m" shows "fails_only runtime (with_statement my sql m)"
  unfolding with_statement_def
proof (rule fails_only_bind)
  show "fails_only runtime (stmt_new my sql)"
    by (auto simp: fails_only_def stmt_new_def split: prod.splits option.splits)
qed (use assms in \<open>auto simp: fails_only_def split: prod.splits\<close>)

lemmas runtime_rules = runtime_scope fails_only_bind fails_only_return fails_only_rollback runtime_check
  runtime_execute runtime_exec

lemma runtime_statement:
  "fails_only runtime (bind_params my sql params)"
  "fails_only runtime (store_rows my sql)" "fails_only runtime (execute_prepared my sql params)"
  by (auto simp: bind_params_def store_rows_def execute_prepared_def intro!: runtime_rules)

lemma runtime_select: "fails_only runtime (select_player_id_impl my sql account)"
  unfolding select_player_id_impl_def
  by (intro runtime_rules runtime_statement)
    (auto simp: Let_def intro!: runtime_rules fails_only_result split: list.split)

lemma runtime_fetch_rows: "fails_only runtime (fetch_rows my sql context invalid decode n rows)"
  by (induction rows arbitrary: n)
    (auto intro!: runtime_rules fails_only_result split: option.split)

lemma runtime_named:
  "fails_only runtime (select_player_id my account)" "fails_only runtime (select_player_id_for_update my account)"
  "fails_only runtime (begin_txn my)" "fails_only runtime (commit_txn my)"
  by (simp_all add: select_player_id_def select_player_id_for_update_def begin_txn_def commit_txn_def
      runtime_select runtime_exec)

lemmas runtime_all = runtime_rules runtime_statement runtime_fetch_rows runtime_named

text \<open>The reasons for which a typed job may fail.\<close>

definition job_error :: "db_job \<Rightarrow> exn \<Rightarrow> bool" where
  "job_error job e \<longleftrightarrow> runtime e \<or>
     job_operation job \<in> {DbSaveCharacter, DbSaveInventoryItem} \<and> e \<in> {Out_Of_Range ''stoul'', Out_Of_Range ''stoull''} \<and>
     (\<exists>arg \<in> set (job_args job). is_unsigned_number arg \<and> 2 ^ 64 \<le> nat_val arg)"

lemma fails_only_mono: "fails_only F m \<Longrightarrow> (\<And>e. F e \<Longrightarrow> G e) \<Longrightarrow> fails_only G m"
  by (auto simp: fails_only_def)

lemma typed_fails_only:
  assumes "job_typed job"
  shows "fails_only (job_error job) (execute_job my job)"
proof -
  have up: "fails_only (job_error job) m" if "fails_only runtime m" for m :: "('a, db_completion) db_op"
    using that by (rule fails_only_mono) (simp add: job_error_def)
  show ?thesis
  proof (cases "job_operation job")
    case DbRegisterPlayer
    then obtain account name where args: "job_args job = [account, name]"
      using assms by (auto simp: job_typed_def length_Suc_conv numeral_2_eq_2)
    have insert: "fails_only runtime (\<lambda>db. case my_execute my sql params db of
        (Inl (errno, message), db') \<Rightarrow> (Inl (Runtime_Error (t errno message)), db')
      | (Inr _, db') \<Rightarrow> (Inr c, db'))" for sql params t c
      by (auto simp: fails_only_def split: prod.splits sum.splits)
    have "fails_only runtime (register_player my job)"
      unfolding register_player_def Let_def args
      by (simp add: vector_at_def) (intro runtime_all insert)
    then show ?thesis using up DbRegisterPlayer by (simp add: execute_job_def)
  next
    case DbLoginPlayer
    then obtain account where args: "job_args job = [account]"
      using assms by (auto simp: job_typed_def length_Suc_conv)
    have "fails_only runtime (login_player my job)"
      unfolding login_player_def Let_def args
      by (simp add: vector_at_def) (auto intro!: runtime_all fails_only_result split: list.split)
    then show ?thesis using up DbLoginPlayer by (simp add: execute_job_def)
  next
    case DbLoadCharacters
    then obtain account where args: "job_args job = [account]"
      using assms by (auto simp: job_typed_def length_Suc_conv)
    have "fails_only runtime (load_characters my job)"
      unfolding load_characters_def Let_def args
      by (simp add: vector_at_def) (intro runtime_all)
    then show ?thesis using up DbLoadCharacters by (simp add: execute_job_def)
  next
    case DbLoadInventory
    then obtain account where args: "job_args job = [account]"
      using assms by (auto simp: job_typed_def length_Suc_conv)
    have "fails_only runtime (load_inventory my job)"
      unfolding load_inventory_def Let_def args
      by (simp add: vector_at_def) (intro runtime_all)
    then show ?thesis using up DbLoadInventory by (simp add: execute_job_def)
  next
    case DbSavePosition
    then obtain account character x y where args: "job_args job = [account, character, to_string_int x, to_string_int y]"
        and "in_i32 x" "in_i32 y"
      using assms by (auto simp: job_typed_def)
    then have "fails_only runtime (save_position my job)"
      unfolding save_position_def Let_def args
      by (simp add: vector_at_def) (intro runtime_all)
    then show ?thesis using up DbSavePosition by (simp add: execute_job_def)
  next
    case DbSaveCharacter
    then obtain account character level gold where args: "job_args job = [account, character, level, gold]"
        and typed: "is_unsigned_number level" "is_unsigned_number gold"
      using assms by (auto simp: job_typed_def)
    have big: "fails_only (job_error job) (db_result (Inl (Out_Of_Range name)))"
      if "name = ''stoul'' \<or> name = ''stoull''" "2 ^ 64 \<le> nat_val arg" "arg \<in> {level, gold}" for name arg
      using that typed DbSaveCharacter by (intro fails_only_result) (auto simp: job_error_def args)
    have "fails_only (job_error job) (save_character my job)"
    proof (cases "nat_val level < 2 ^ 64 \<and> nat_val gold < 2 ^ 64")
      case True
      then have "fails_only runtime (save_character my job)"
        unfolding save_character_def Let_def args
        by (simp add: vector_at_def stou_unsigned typed) (intro runtime_all)
      then show ?thesis by (rule up)
    next
      case False
      then show ?thesis
        unfolding save_character_def Let_def args
        by (cases "nat_val level < 2 ^ 64")
          (simp_all add: vector_at_def stou_unsigned typed big [of _ level] big [of _ gold])
    qed
    then show ?thesis using DbSaveCharacter by (simp add: execute_job_def)
  next
    case DbSaveInventoryItem
    then obtain account slot item count where args: "job_args job = [account, slot, item, count]"
        and typed: "is_unsigned_number slot" "is_unsigned_number item" "is_unsigned_number count"
      using assms by (auto simp: job_typed_def)
    have big: "fails_only (job_error job) (db_result (Inl (Out_Of_Range name)))"
      if "name = ''stoul'' \<or> name = ''stoull''" "2 ^ 64 \<le> nat_val arg" "arg \<in> {slot, item, count}" for name arg
      using that typed DbSaveInventoryItem by (intro fails_only_result) (auto simp: job_error_def args)
    have "fails_only (job_error job) (save_inventory_item my job)"
    proof (cases "nat_val slot < 2 ^ 64 \<and> nat_val item < 2 ^ 64 \<and> nat_val count < 2 ^ 64")
      case True
      have choice: "fails_only runtime (if b then execute_prepared my sql ps else execute_prepared my sql' ps')"
        for b sql ps sql' ps' by (simp add: runtime_statement)
      from True have "fails_only runtime (save_inventory_item my job)"
        unfolding save_inventory_item_def Let_def args
        by (simp add: vector_at_def stou_unsigned typed) (intro runtime_all choice)
      then show ?thesis by (rule up)
    next
      case False
      then show ?thesis
        unfolding save_inventory_item_def Let_def args
        by (cases "nat_val slot < 2 ^ 64"; cases "nat_val item < 2 ^ 64")
          (simp_all add: vector_at_def stou_unsigned typed big [of _ slot] big [of _ item] big [of _ count])
    qed
    then show ?thesis using DbSaveInventoryItem by (simp add: execute_job_def)
  qed
qed

text \<open>A run of the demo job that fails, with the library of \<open>down_mysql\<close>.\<close>

lemma save_position_down:
  obtains e where "execute_job down_mysql demo_save () = (Inl e, ())"
proof -
  have "stoi ''120'' = Inr 120" "stoi ''80'' = Inr 80" by code_simp+
  then have "\<exists>e. execute_job down_mysql demo_save () = (Inl e, ())"
    by (simp add: execute_job_def demo_save_def save_position_def begin_txn_def sql_exec_def down_mysql_def
        vector_at_def db_bind_def db_result_def)
  then show thesis using that by blast
qed

section \<open>The property\<close>

text \<open>
  C10. Jobs are well typed, and well-typed jobs cannot go wrong. In every reachable state of the program, each job
  that is queued or running has exactly the arguments its operation reads, with numbers where it converts
  them; and whatever the database does, running such a job either succeeds or fails with an error reported by or about
  the database, or, for SAVE and SAVE_ITEM only, because an argument is a number of 64 bits or more. A
  missing argument or a text that is no number is never met, and the save of a position never fails to convert.
\<close>
theorem jobs_are_well_typed:
  assumes "reachable my pf config db0 (sv, db)" and "valid_order (pf_order pf)"
  shows "\<forall>job \<in> pool_jobs (sv_database sv). job_typed job \<and>
    (\<forall>my' db1 e db2. execute_job (my' :: 'c mysql) job db1 = (Inl e, db2) \<longrightarrow> job_error job e)"
proof (intro ballI conjI allI impI)
  fix job assume "job \<in> pool_jobs (sv_database sv)"
  then show typed: "job_typed job" using reachable_jobs_ok [OF assms] by (simp add: jobs_ok_def)
  fix my' :: "'c mysql" and db1 e db2
  assume "execute_job my' job db1 = (Inl e, db2)"
  then show "job_error job e" using typed_fails_only [OF typed, of my'] unfolding fails_only_def by blast
qed

lemma jobs_are_well_typed_witness:
  "demo_save \<in> pool_jobs (sv_database (demo_entered [] demo_busy)) \<and> job_typed demo_save \<and>
   (\<exists>e. execute_job down_mysql demo_save () = (Inl e, ()) \<and> job_error demo_save e)"
proof -
  have here: "demo_save \<in> pool_jobs (sv_database (demo_entered [] demo_busy))"
    by (simp add: pool_jobs_def demo_entered_def submit_def bq_push_def dispatcher_start_def dispatcher_new_def bq_empty_def)
  have ok: "job_typed demo_save \<and> (\<forall>my' db1 e db2. execute_job (my' :: unit mysql) demo_save db1 = (Inl e, db2) \<longrightarrow>
      job_error demo_save e)"
    by (rule bspec [OF jobs_are_well_typed [OF demo_entered_reached [unfolded demo_reached_def] demo_platform_ok(2)] here])
  obtain e where e: "execute_job down_mysql demo_save () = (Inl e, ())"
    by (rule save_position_down)
  moreover have "job_error demo_save e" using conjunct2 [OF ok] e by blast
  ultimately show ?thesis using here conjunct1 [OF ok] by blast
qed

end
