(* ===== verification/Client_Handles.thy ===== *)
theory Client_Handles
  imports Program_End Database_Properties
begin

text \<open>
  The lifetime of the objects of the client library: \<open>MysqlStatement\<close> and \<open>MysqlConnection\<close> of src/database.cpp take
  a handle in their constructor and give it back in their destructor, or in the constructor itself when it throws
  after it has got one; the connection of a worker lives until the loop of its thread has ended.

  The interface \<open>client_handles\<close> says what taking and giving back a handle does to the number of those that are out,
  and that no other call changes it. Each operation of the database then leaves the number of statements as it was,
  however it ends, and a job adds a connection only when its worker had none. With the run of the pool this
  gives the number of handles at every moment of the program and after the destructors.
\<close>

section \<open>The handles of the client library\<close>

locale client_handles =
  fixes my :: "'db mysql" and stmts :: "'db \<Rightarrow> int" and conns :: "'db \<Rightarrow> int"
  assumes init: "my_init my db = (b, db') \<Longrightarrow> stmts db' = stmts db \<and> conns db' = conns db + of_bool b"
    and connect: "my_connect my config db = (r, db') \<Longrightarrow> stmts db' = stmts db \<and> conns db' = conns db"
    and close: "stmts (my_close my db) = stmts db \<and> conns (my_close my db) = conns db - 1"
    and stmt_init: "my_stmt_init my db = (e, db') \<Longrightarrow> stmts db' = stmts db + of_bool (e = None) \<and> conns db' = conns db"
    and stmt_close: "stmts (my_stmt_close my db) = stmts db - 1 \<and> conns (my_stmt_close my db) = conns db"
    and runs: "my_execute my sql params db = (result, db') \<Longrightarrow> stmts db' = stmts db \<and> conns db' = conns db"
    and queries: "my_query my sql db = (e, db') \<Longrightarrow> stmts db' = stmts db \<and> conns db' = conns db"
begin

text \<open>An operation that gives back every handle it takes, however it ends.\<close>

definition balanced :: "('db, 'a) db_op \<Rightarrow> bool" where
  "balanced m \<longleftrightarrow> (\<forall>db r db'. m db = (r, db') \<longrightarrow> stmts db' = stmts db \<and> conns db' = conns db)"

lemma balancedD: "balanced m \<Longrightarrow> m db = (r, db') \<Longrightarrow> stmts db' = stmts db \<and> conns db' = conns db"
  unfolding balanced_def by blast

lemma balanced_bind:
  assumes "balanced m" and "\<And>x. balanced (f x)" shows "balanced (db_bind m f)"
  unfolding balanced_def
proof (intro allI impI)
  fix db r db' assume run: "db_bind m f db = (r, db')"
  obtain r1 db1 where m: "m db = (r1, db1)" by (cases "m db")
  show "stmts db' = stmts db \<and> conns db' = conns db"
  proof (cases r1)
    case (Inl e)
    then show ?thesis using run m balancedD [OF assms(1) m] by (simp add: db_bind_def)
  next
    case (Inr x)
    then have "f x db1 = (r, db')" using run m by (simp add: db_bind_def)
    from balancedD [OF assms(2) this] balancedD [OF assms(1) m] show ?thesis by simp
  qed
qed

lemma balanced_return: "balanced (db_return x)"
  by (simp add: balanced_def db_return_def)

lemma balanced_result: "balanced (db_result r)"
  by (simp add: balanced_def db_result_def)

lemma balanced_check: "balanced (db_check call context)"
  by (auto simp: balanced_def db_check_def split: option.splits)

lemma balanced_execute: "balanced (stmt_execute my sql params)"
  using runs by (fastforce simp: balanced_def stmt_execute_def split: prod.splits sum.splits)

lemma balanced_exec: "balanced (sql_exec my sql)"
  using queries by (fastforce simp: balanced_def sql_exec_def split: prod.splits option.splits)

lemma balanced_rollback:
  assumes "balanced m" shows "balanced (with_rollback my m)"
  unfolding balanced_def
proof (intro allI impI)
  fix db r db' assume run: "with_rollback my m db = (r, db')"
  obtain r1 db1 where m: "m db = (r1, db1)" by (cases "m db")
  obtain e db2 where undo: "my_query my ''ROLLBACK'' db1 = (e, db2)" by (cases "my_query my ''ROLLBACK'' db1")
  show "stmts db' = stmts db \<and> conns db' = conns db"
    using run balancedD [OF assms m] queries [OF undo]
    by (cases r1) (simp_all add: with_rollback_def rollback_noexcept_def m undo)
qed

text \<open>The scope of a statement, on each of its four ways out.\<close>

lemma balanced_statement:
  assumes "balanced m" shows "balanced (with_statement my sql m)"
  unfolding balanced_def
proof (intro allI impI)
  fix db r db' assume run: "with_statement my sql m db = (r, db')"
  obtain e db1 where init: "my_stmt_init my db = (e, db1)" by (cases "my_stmt_init my db")
  obtain r2 db2 where m: "m db1 = (r2, db2)" by (cases "m db1")
  show "stmts db' = stmts db \<and> conns db' = conns db"
    using run stmt_init [OF init] stmt_close [of db1] stmt_close [of db2] balancedD [OF assms m]
    by (auto simp: with_statement_def stmt_new_def db_bind_def init m split: option.splits)
qed

lemmas balanced_rules = balanced_statement balanced_bind balanced_return balanced_result balanced_check
  balanced_execute balanced_exec balanced_rollback

lemma balanced_calls: "balanced (bind_params my sql params)" "balanced (store_rows my sql)"
  by (simp_all add: bind_params_def store_rows_def balanced_return balanced_check balanced_bind)

lemma balanced_prepared: "balanced (execute_prepared my sql params)"
  unfolding execute_prepared_def by (intro balanced_rules balanced_calls)

lemma balanced_select: "balanced (select_player_id_impl my sql account)"
  unfolding select_player_id_impl_def
  by (intro balanced_rules balanced_calls) (auto simp: Let_def intro!: balanced_rules split: list.split)

lemma balanced_fetch_rows: "balanced (fetch_rows my sql context invalid decode n rows)"
  by (induction rows arbitrary: n) (auto intro!: balanced_rules split: option.split)

lemma balanced_named: "balanced (select_player_id my account)" "balanced (select_player_id_for_update my account)"
  "balanced (begin_txn my)" "balanced (commit_txn my)"
  by (simp_all add: select_player_id_def select_player_id_for_update_def begin_txn_def commit_txn_def
      balanced_select balanced_exec)

lemmas balanced_all = balanced_rules balanced_calls balanced_prepared balanced_fetch_rows balanced_named

text \<open>The INSERT of REGISTER looks at the error number itself.\<close>

lemma balanced_insert:
  "balanced (\<lambda>db. case my_execute my sql params db of
       (Inl (errno, message), db') \<Rightarrow> (Inl (e errno message), db') | (Inr _, db') \<Rightarrow> (Inr c, db'))"
  using runs by (fastforce simp: balanced_def split: prod.splits sum.splits)

lemma balanced_register: "balanced (register_player my job)"
  unfolding register_player_def Let_def by (intro balanced_all balanced_insert)

lemma balanced_login: "balanced (login_player my job)"
  unfolding login_player_def Let_def
  by (intro balanced_rules balanced_calls) (auto intro!: balanced_all split: list.split)

lemma balanced_saves: "balanced (save_character my job)" "balanced (save_position my job)"
    "balanced (save_inventory_item my job)"
  unfolding save_character_def save_position_def save_inventory_item_def Let_def
  by (intro balanced_all | simp add: balanced_prepared)+

lemma balanced_loads: "balanced (load_characters my job)" "balanced (load_inventory my job)"
  unfolding load_characters_def load_inventory_def Let_def by (intro balanced_all)+

lemma balanced_job: "balanced (execute_job my job)"
  by (cases "job_operation job")
    (simp_all add: execute_job_def balanced_register balanced_login balanced_saves balanced_loads)

section \<open>Connections\<close>

lemma connection_handles:
  assumes "connection_new my config db = (r, db')"
  shows "stmts db' = stmts db \<and> conns db' = conns db + of_bool (\<not> isl r)"
proof -
  obtain b db1 where init: "my_init my db = (b, db1)" by (cases "my_init my db")
  obtain e db2 where conn: "my_connect my config db1 = (e, db2)" by (cases "my_connect my config db1")
  note counts = this [THEN connect] close [of db2] client_handles.init [OF client_handles_axioms init]
  show ?thesis
    using assms counts
    by (cases b; cases e) (auto simp: connection_new_def init conn)
qed

lemma run_job_handles:
  assumes "run_job my config connected job db = (connected', c, db')"
  shows "stmts db' = stmts db \<and> conns db' = conns db + of_bool connected' - of_bool connected"
proof -
  obtain r1 db1 where conn: "(if connected then (Inr (), db) else connection_new my config db) = (r1, db1)"
    by (cases "if connected then (Inr (), db) else connection_new my config db")
  have first: "stmts db1 = stmts db \<and> conns db1 = conns db + of_bool (\<not> isl r1) - of_bool connected"
    using conn connection_handles [of config db r1 db1] by (cases connected) auto
  obtain r2 db2 where job: "execute_job my job db1 = (r2, db2)" by (cases "execute_job my job db1")
  show ?thesis
    using assms first balancedD [OF balanced_job job] conn job
    by (cases r1; cases r2) (auto simp: run_job_def)
qed

end

section \<open>The connections of the workers\<close>

text \<open>A worker holds its connection until its loop has ended.\<close>

definition holds_connection :: "worker \<Rightarrow> bool" where
  "holds_connection w \<longleftrightarrow> wk_connected w \<and> \<not> wk_done w"

definition open_connections :: "dispatcher \<Rightarrow> nat" where
  "open_connections d = length (filter holds_connection (dd_workers d))"

lemma open_connections_update:
  assumes "i < length (dd_workers d)" and "dd_workers d' = (dd_workers d)[i := w]"
  shows "int (open_connections d') =
    int (open_connections d) + of_bool (holds_connection w) - of_bool (holds_connection (dd_workers d ! i))"
proof -
  obtain us vs where "dd_workers d = us @ dd_workers d ! i # vs"
      and up: "\<And>w. (dd_workers d)[i := w] = us @ w # vs"
    using split_worker [OF assms(1)] by blast
  then have "length (filter holds_connection (dd_workers d)) = length (filter holds_connection (us @ dd_workers d ! i # vs))"
    by simp
  then show ?thesis by (simp add: open_connections_def assms(2) up)
qed

lemma stop_begin_workers: "dd_workers (stop_begin d) = dd_workers d"
  by (simp add: stop_begin_def)

lemma worker_step_started: "worker_step my (d, db) (d', db') \<Longrightarrow> dd_started d' = dd_started d"
  by (auto elim!: worker_stepE simp: worker_pop_def worker_finish_def push_completion_def Let_def
      split: if_splits option.splits prod.splits)

lemma worker_steps_started: "(worker_step my)\<^sup>*\<^sup>* s s' \<Longrightarrow> dd_started (fst s') = dd_started (fst s)"
  by (induction rule: rtranclp_induct) (auto dest: worker_step_started)

context client_handles
begin

lemma pop_handles:
  assumes "worker_pop i d = Some d'"
  shows "stmts (worker_release my i d' db) = stmts db \<and>
    conns (worker_release my i d' db) - int (open_connections d') = conns db - int (open_connections d)"
proof -
  let ?w = "dd_workers d ! i"
  have i: "i < length (dd_workers d)" "\<not> wk_done ?w"
    using assms by (auto simp: worker_pop_def Let_def split: if_splits)
  obtain w where up: "dd_workers d' = (dd_workers d)[i := w]" and "wk_connected w = wk_connected ?w"
    using assms i by (auto simp: worker_pop_def Let_def split: if_splits option.splits prod.splits)
  then show ?thesis
    using i close [of db] open_connections_update [OF i(1) up]
    by (auto simp: worker_release_def Let_def holds_connection_def)
qed

lemma finish_handles:
  assumes "worker_finish my i d db = Some (d', db')"
  shows "stmts db' = stmts db \<and> conns db' - int (open_connections d') = conns db - int (open_connections d)"
proof -
  let ?w = "dd_workers d ! i"
  obtain job connected c where i: "i < length (dd_workers d)" "\<not> wk_done ?w"
      and run: "run_job my (dd_config d) (wk_connected ?w) job db = (connected, c, db')"
      and up: "dd_workers d' = (dd_workers d)[i := ?w\<lparr>wk_connected := connected, wk_job := None\<rparr>]"
    using assms by (auto simp: worker_finish_def Let_def push_completion_def split: if_splits option.splits prod.splits)
  show ?thesis
    using run_job_handles [OF run] open_connections_update [OF i(1) up] i(2)
    by (simp add: holds_connection_def)
qed

lemma worker_step_handles:
  assumes "worker_step my (d, db) (d', db')"
  shows "stmts db' = stmts db \<and> conns db' - int (open_connections d') = conns db - int (open_connections d)"
  using assms pop_handles finish_handles by (cases rule: worker_step_cases) auto

lemma worker_steps_handles:
  assumes "(worker_step my)\<^sup>*\<^sup>* (d, db) (d', db')"
  shows "stmts db' = stmts db \<and> conns db' - int (open_connections d') = conns db - int (open_connections d)"
  using assms
proof (induction "(d', db')" arbitrary: d' db' rule: rtranclp_induct)
  case (step s)
  then show ?case using worker_step_handles [of "fst s" "snd s" d' db'] by (cases s) fastforce
qed simp

lemma pool_handles:
  assumes "(pool_step my)\<^sup>*\<^sup>* (pool_init config db0) (reading, d, db, subs, dels)"
  shows "stmts db = stmts db0 \<and> conns db = conns db0 + int (open_connections d) \<and> dd_started d"
  using assms
proof (induction "(reading, d, db, subs, dels)" arbitrary: reading d db subs dels rule: rtranclp_induct)
  case base
  then show ?case
    by (auto simp: pool_init_def dispatcher_start_def dispatcher_new_def open_connections_def
        holds_connection_def fresh_worker_def)
next
  case (step s)
  from step(2) show ?case
  proof cases
    case (work d1 db1)
    have "dd_started d = dd_started d1" using worker_step_started [OF work(2)] .
    then show ?thesis using step(3) [OF work(1)] worker_step_handles [OF work(2)] by auto
  next
    case (submit d1 subs1 job)
    then show ?thesis using step(3) [OF submit(1)] by (simp add: submit_def open_connections_def)
  next
    case (wake d1)
    then show ?thesis using step(3) [OF wake(1)] by (simp add: event_read_def open_connections_def)
  next
    case (deliver d1 c dels1)
    then show ?thesis using step(3) [OF deliver(1)]
      by (auto simp: pop_completion_def open_connections_def split: list.splits)
  next
    case (drained d1)
    then show ?thesis using step(3) [OF drained(1)] pop_completion_None by auto
  qed
qed

end

text \<open>The engine of Game_Engine counts its handles.\<close>

lemma engine_execute_handles:
  "engine_execute sql params db = (result, db') \<Longrightarrow> eg_stmts db' = eg_stmts db \<and> eg_conns db' = eg_conns db"
  by (auto simp: engine_execute_def engine_insert_def engine_upsert_character_def engine_update_items_def Let_def
      split: if_splits)

lemma engine_query_handles:
  "engine_query sql db = (e, db') \<Longrightarrow> eg_stmts db' = eg_stmts db \<and> eg_conns db' = eg_conns db"
  by (auto simp: engine_query_def split: if_splits)

interpretation handles: client_handles engine_mysql eg_stmts eg_conns
  by unfold_locales
    (auto simp: engine_mysql_def dest: engine_execute_handles engine_query_handles)

section \<open>Every handle is given back\<close>

text \<open>The destructors of \<open>main\<close> leave no connection: the workers that are joined have closed theirs.\<close>

lemma joined_no_connection: "workers_joined d \<Longrightarrow> open_connections d = 0"
  by (auto simp: workers_joined_def open_connections_def holds_connection_def list_all_iff)

text \<open>
  C15. No handle of the client library leaks. In every reachable state of the program every statement that was
  prepared has been closed, on every path through the operations, and exactly one connection is open for each worker
  that holds one, so never more than the size of the pool. After the end of the program, whatever ended its loop, every
  connection has been closed as well, once each, before \<open>mysql_library_end\<close> runs.
\<close>
theorem handles_are_returned:
  assumes "client_handles my stmts conns" and "reachable my pf config db0 (sv, db)" and "valid_order (pf_order pf)"
  shows "stmts db = stmts db0 \<and> conns db = conns db0 + int (open_connections (sv_database sv)) \<and>
    open_connections (sv_database sv) \<le> unat (db_pool_size (app_database config)) \<and>
    (\<forall>r sv1 event_fd x db'. loop_ends pf sv r sv1 \<and> program_ends my pf event_fd r (sv1, db) x db' \<longrightarrow>
      stmts db' = stmts db0 \<and> conns db' = conns db0)"
proof -
  obtain asked told where "program_run my pf config db0 sv db asked told"
    using reachable_program_run [OF assms(2)] by auto
  note pool = program_run_pool [OF this]
  have here: "stmts db = stmts db0 \<and> conns db = conns db0 + int (open_connections (sv_database sv))"
    using client_handles.pool_handles [OF assms(1) pool] by simp
  have "length (dd_workers (sv_database sv)) = unat (db_pool_size (app_database config))"
    using pool_reachable_inv [OF pool] by simp
  then have few: "open_connections (sv_database sv) \<le> unat (db_pool_size (app_database config))"
    unfolding open_connections_def by (metis length_filter_le)
  have inv: "server_inv {} None sv"
    using reachable_ok [OF assms(2,3)] by (simp add: system_ok_def server_ok_def loop_inv_def)
  have "stmts db' = stmts db0 \<and> conns db' = conns db0"
    if over: "loop_ends pf sv r sv1" and ends: "program_ends my pf event_fd r (sv1, db) x db'" for r sv1 event_fd x db'
  proof -
    note left = loop_ends_pool [OF over pool pool_open [OF pool]]
    from destructors_run [OF left(1) sockets_kept_key [OF left(2) inv] ends] obtain d db1 d' where
        on: "(pool_step my)\<^sup>*\<^sup>* (pool_init (app_database config) db0)
          (False, d, db1, asked @ map job_key (new_jobs sv sv1), told)"
      and after: "(worker_step my)\<^sup>*\<^sup>* (stop_begin d, db1) (d', db')" and joined: "stop_end d' = Some (ex_pool x)" .
    note before = client_handles.pool_handles [OF assms(1) on]
    have "dd_started d'" using worker_steps_started [OF after] before by (simp add: stop_begin_def)
    then have "open_connections d' = 0"
      using joined by (intro joined_no_connection) (auto simp: stop_end_def split: if_splits)
    moreover have "open_connections (stop_begin d) = open_connections d"
      by (simp add: open_connections_def stop_begin_workers)
    ultimately show ?thesis using client_handles.worker_steps_handles [OF assms(1) after] before by simp
  qed
  then show ?thesis using here few by blast
qed

text \<open>In the run of the demo a worker has connected; then the wait fails.\<close>

lemma handles_are_returned_witness:
  "\<exists>sv. reachable engine_mysql demo_platform demo_app (anna_engine []) (sv, anna_written) \<and>
     eg_stmts anna_written = 0 \<and> open_connections (sv_database sv) = 1 \<and>
     (\<exists>r sv1 x db'. loop_ends demo_platform sv r sv1 \<and> program_ends engine_mysql demo_platform 4 r (sv1, anna_written) x db' \<and>
       eg_stmts db' = 0 \<and> eg_conns db' = 0)"
proof -
  obtain sv where reach: "reachable engine_mysql demo_platform demo_app (anna_engine []) (sv, anna_written)"
    using anna_written_reached by blast
  have "\<not> sv_stopping sv"
    using reachable_ok [OF reach demo_platform_ok(2)] by (simp add: system_ok_def server_ok_def loop_inv_def)
  moreover obtain e where "on_wait demo_platform (- 5) sv = Inl (Exn e)" by (simp add: on_wait_def EINTR_def)
  ultimately have over: "loop_ends demo_platform sv (Some e) sv" by (rule loop_ends.wait_failed)
  have "db_pool_size (app_database demo_app) \<noteq> 0" by (simp add: demo_app_def default_database_config_def)
  from loop_ends_return [OF reach demo_platform_ok(2) this over, of 4]
  obtain x db' where ends: "program_ends engine_mysql demo_platform 4 (Some e) (sv, anna_written) x db'" by blast
  note all = handles_are_returned [OF handles.client_handles_axioms reach demo_platform_ok(2)]
  have start: "eg_stmts (anna_engine []) = 0" "eg_conns (anna_engine []) = 0" "eg_conns anna_written = 1"
    by (simp_all add: anna_engine_def anna_written_def)
  show ?thesis using all start reach over ends by fastforce
qed

end
