(* ===== verification/Spec2Isabelle.thy ===== *)
theory Spec2Isabelle
  imports World_Properties Server_Properties Command_Properties Database_Properties Program_Properties
    Startup Shutdown Program_End Liveness Job_Types Client_Handles
begin

text \<open>
  A verification of the game server under src/: one thread runs an io_uring event loop over line-oriented TCP
  sessions and a world of sectors, a pool of threads runs the blocking MySQL operations, and the two
  meet in a job queue, a completion queue and an eventfd.

  \<^bold>\<open>The parts and how they interact.\<close> A line that arrives is parsed (protocol.cpp). A world command changes the
  sector world (world.cpp) and sends events to the sessions nearby; a database command is answered PENDING
  and becomes a job (server.cpp, database.cpp). A worker takes the job, runs its SQL in a transaction,
  pushes a completion and writes the eventfd; the event loop reads the eventfd, takes the completions and
  answers DONE or FAIL to the session, if the same session is still there. Leaving the world, by QUIT or by
  a disconnect, and entering it submit a job that saves the position and is not answered.

  \<^bold>\<open>Theories and code.\<close>
  \<^item> Prelude: results with exceptions (\<open>bind_result\<close>, \<open>ensures\<close>, \<open>returns\<close>), checked C++ int arithmetic, \<open>stoi\<close>,
    \<open>stoul\<close>, \<open>stoull\<close>, \<open>to_string\<close>.
  \<^item> Protocol: src/protocol.cpp, \<open>parse_line\<close>. World, World_Properties: src/world.cpp, class \<open>SectorWorld\<close>.
    Config: src/config.cpp. Blocking_Queue: include/portfolio/blocking_queue.h.
  \<^item> Database: the classes \<open>MysqlStatement\<close>, \<open>MysqlConnection\<close> and \<open>execute_job\<close> of src/database.cpp, over a record
    of the calls of the MySQL client library; \<open>with_statement\<close> is the scope of a statement object, with its
    destructor. Dispatcher: class \<open>DbDispatcher\<close> of the same file, its threads
    as the step relation \<open>worker_step\<close>.
  \<^item> Server, Event_Loop: class \<open>IoUringGameServer\<close> of src/server.cpp, first the operations on sessions and the ring
    and the handling of a line, then the handlers of the four completions and the loop as the step relation
    \<open>loop_step\<close>. System: the whole program, \<open>system_step\<close> and \<open>reachable\<close>.
  \<^item> Startup: src/main.cpp, \<open>setup_listen_socket\<close> and its helpers, \<open>MysqlLibrary\<close>, the constructor of the
    dispatcher. Program_End: the ways the loop ends, the destructors and the exit status.
  \<^item> Game_Store: the tables of db/schema.sql and what is assumed of MySQL. Job_Contract: the change to the tables
    each job asks for. Game_Engine: a relational engine that meets the assumptions.
  \<^item> The other theories hold lemmas and properties of these: Dispatcher_Properties, Shutdown, Server_Invariant,
    Server_World, Session_Streams, Session_Input, Server_Lines, Server_Effects, Server_Faults, System_Refinement,
    Liveness, Job_Types, Client_Handles, and the properties in the theories whose name ends in Properties. Server_Demo and Database_Demo are
    concrete runs for the witnesses.

  Classes and structs are records with the fields of the source, enums are datatypes with its
  constructors, and an operation is a function of the state to a failure or the new state. An exception is a value
  of type \<open>exn\<close> with its message; the event loop can also meet a signed overflow, which is undefined
  behaviour and a value of its own. Threads and the kernel are nondeterministic steps, so a
  property of the reachable states holds for every schedule.

  \<^bold>\<open>What is shown.\<close>
  \<^item> The parser accepts exactly the requests of a grammar stated apart from it, and printing is inverted by parsing.
  \<^item> The world: \<open>floor_div\<close> is the mathematical division, the watchers are exactly the players within the view
    radius, each operation sends exactly the events it should, the sector index agrees with the positions, and
    an operation overflows exactly outside stated bounds. A bystander that follows its events knows
    who stands around it; a mover does not.
  \<^item> The event loop, in every reachable state: each session has one receive in flight unless it closes, and one send
    exactly while it has output; what the kernel is given is the queued output, in order and once; players in the
    world belong to live sessions; completions of an earlier session on the same descriptor change nothing; the input
    buffer is bounded. The effect of each kind of line and of a database event is given exactly, and only
    coordinates that do not fit an int can make a handler throw.
  \<^item> The pool: every request is answered exactly once, no wake-up is lost, with one worker the answers keep the
    order, with two they need not; the pool comes to rest, also when it is stopped. The whole program refines the
    pool with an arbitrary client (System_Refinement), so all of this holds of the program. In a fair run of the
    whole program every request is answered in the end (Liveness: a run is an infinite sequence of steps, fair when no
    worker that can move and no raised eventfd waits for ever).
  \<^item> Between the two sides: every job the event loop submits has the arguments its operation reads, so that
    a worker never meets a missing argument or a text that is no number (Job_Types).
  \<^item> The database: a job that answers OK has made exactly its change, one that answers ERR has made none or, when the
    connection broke around a COMMIT or an INSERT, all of it, and leaves no transaction open; hence the tables
    are at any time the result of whole job changes. What is saved is loaded again, within the limits of the buffers.
  \<^item> Start and end: the start is all or nothing and closes what it opened; \<open>run\<close> never returns, and when it
    throws the destructors come to an end with every submitted job run. No statement or connection of the client
    library is left open on any path (Client_Handles).

  \<^bold>\<open>Interfaces.\<close> A locale states each contract a proof rests on, and is interpreted on the model of the code:
  \<open>blocking_fifo\<close> (the queue, for the dispatcher), \<open>cell_index\<close> and \<open>tidy_cell_index\<close> (the sectors), \<open>server_frame\<close>,
  \<open>reply_frame\<close>, \<open>line_frame\<close> and \<open>closing_frame\<close> (a relation that every primitive step of the event loop keeps
  is kept by whole handlers; interpreted for \<open>steady\<close>, \<open>evolves\<close>, \<open>keeps\<close>, \<open>closes\<close>, \<open>same_world\<close>, \<open>rooms\<close>, \<open>feeds\<close>
  and \<open>sockets_kept\<close>), \<open>client_handles\<close> (the calls that give out and take back handles), and \<open>game_store\<close> (the documented behaviour of MySQL for the statements of the
  program). The provider of the last two is outside the repository, so they are interpreted on the engine of
  Game_Engine and appear as hypotheses of the properties that need them.

  \<^bold>\<open>Bounds and hypotheses.\<close>
  \<^item> All recursion terminates without fuel: over the lines of a buffer by its length, over completions by their
    number. Whether the workers come to rest is proved with the measure \<open>work_left\<close>.
  \<^item> \<open>outcome_ok\<close> restricts what the kernel may answer: data fits the buffer, no more is sent than was given, a new
    connection gets a descriptor no session uses, and fewer than \<open>2 ^ 64 - 1\<close> connections are accepted in a run, so
    that generations do not wrap.
  \<^item> \<open>roomy\<close> is a kernel that takes all submitted entries, so that posting an operation never fails;
    it is assumed where a property says that a handler returns. The invariants do not need it.
  \<^item> \<open>valid_order\<close>: the parameter for the iteration order of a hash set lists its elements, each once.
  \<^item> Integers have their width: 64-bit counters and generations, 32-bit fields of the tables and 16-bit ports wrap
    or are cut where the code does it. The eventfd counter stays below its limit, where a write fails.
  \<^item> A kernel ring has at least two entries.

  \<^bold>\<open>Not modelled.\<close>
  \<^item> Interleaving inside MySQL: a job is one step on the database. One database event (the reads of the eventfd and
    the pops of the completion queue) is one step of the program; the pool of Dispatcher_Properties interleaves them.
  \<^item> \<open>set_tcp_nodelay\<close>, whose result is ignored, the handling of SIGPIPE, and the text on \<open>std::cout\<close>.
  \<^item> \<open>mysql_thread_init\<close>, \<open>mysql_thread_end\<close> and \<open>mysql_library_end\<close>, which act inside the client library and of
    which no result is used; the hash functions, whose effect is the iteration order; failures to allocate memory or start a thread.
  \<^item> The state an \<open>io_uring_submit\<close> that fails in the middle of a handler leaves to the destructors.
  \<^item> Timestamps, surrogate ids other than the player's, secondary indexes and ON DELETE rules of the schema.
\<close>

end
